(* ===== verification/Prelude.thy ===== *)
theory Prelude
  imports Main "HOL-Library.Word"
begin

text \<open>
  Shared vocabulary of the development: Rust's integer types, the integer
  operations of the standard library the pool uses (saturating and wrapping
  arithmetic), bounded queues (a \<open>VecDeque\<close> that drops its front when it is
  too long), ASCII strings, and the two collections of rewrite rules the
  components add to: \<open>word_unat\<close> (moving a word equation to the naturals) and
  \<open>queue_simps\<close> (bounded queues).

  The pool is built with Cargo's release profile without overflow checks, so
  \<open>+\<close>, \<open>-\<close> and \<open>*\<close> on machine integers wrap; where the source wraps or
  saturates, the model says so.
\<close>

unbundle bit_operations_syntax

named_theorems word_unat \<open>facts that read a word operation as an operation on nat\<close>
named_theorems queue_simps \<open>facts about queues bounded by dropping their front\<close>

section \<open>Machine integers\<close>

type_synonym u8 = "8 word"
type_synonym u16 = "16 word"
type_synonym u32 = "32 word"
type_synonym u64 = "64 word"
type_synonym u128 = "128 word"
type_synonym u256 = "256 word"

definition u32_MAX :: u32 where "u32_MAX = 4294967295"
definition u64_MAX :: u64 where "u64_MAX = 18446744073709551615"

text \<open>\<open>i64\<close> values are integers kept in range: what the source computes on them
  is written with the wrap-around or saturation it has.\<close>

type_synonym i64 = int

definition i64_max :: int where "i64_max = 9223372036854775807"
definition i64_min :: int where "i64_min = - 9223372036854775808"

definition in_i64 :: "int \<Rightarrow> bool" where
  "in_i64 x \<longleftrightarrow> i64_min \<le> x \<and> x \<le> i64_max"

definition i64_wrap :: "int \<Rightarrow> int" where
  "i64_wrap x = (x + 9223372036854775808) mod 18446744073709551616 - 9223372036854775808"

definition i64_sat :: "int \<Rightarrow> int" where
  "i64_sat x = (if x < i64_min then i64_min else if x > i64_max then i64_max else x)"

lemma i64_wrap_id [simp]: "in_i64 x \<Longrightarrow> i64_wrap x = x"
  by (simp add: in_i64_def i64_wrap_def i64_max_def i64_min_def)

lemma i64_wrap_in [simp]: "in_i64 (i64_wrap x)"
proof -
  have "0 \<le> (x + 9223372036854775808) mod 18446744073709551616"
    and "(x + 9223372036854775808) mod 18446744073709551616 < 18446744073709551616"
    by simp_all
  then show ?thesis
    by (simp add: in_i64_def i64_wrap_def i64_max_def i64_min_def)
qed

lemma i64_sat_id [simp]: "in_i64 x \<Longrightarrow> i64_sat x = x"
  by (auto simp: in_i64_def i64_sat_def)

lemma i64_sat_in [simp]: "in_i64 (i64_sat x)"
  by (simp add: in_i64_def i64_sat_def i64_max_def i64_min_def)

text \<open>Saturating arithmetic of the unsigned types.\<close>

definition sat_sub :: "'a::len word \<Rightarrow> 'a word \<Rightarrow> 'a word" where
  "sat_sub a b = (if a < b then 0 else a - b)"

definition sat_add :: "'a::len word \<Rightarrow> 'a word \<Rightarrow> 'a word" where
  "sat_add a b = (if unat a + unat b < 2 ^ LENGTH('a) then a + b else - 1)"

definition sat_mul :: "'a::len word \<Rightarrow> 'a word \<Rightarrow> 'a word" where
  "sat_mul a b = (if unat a * unat b < 2 ^ LENGTH('a) then a * b else - 1)"

text \<open>For evaluation on integers rather than on naturals.\<close>

lemma sat_code [code]:
  "sat_add (a :: 'a::len word) b = (if uint a + uint b < 2 ^ LENGTH('a) then a + b else - 1)"
  "sat_mul (a :: 'a::len word) b = (if uint a * uint b < 2 ^ LENGTH('a) then a * b else - 1)"
proof -
  have "unat a + unat b < 2 ^ LENGTH('a) \<longleftrightarrow> int (unat a + unat b) < int (2 ^ LENGTH('a))"
    "unat a * unat b < 2 ^ LENGTH('a) \<longleftrightarrow> int (unat a * unat b) < int (2 ^ LENGTH('a))"
    by (simp_all only: of_nat_less_iff)
  then show "sat_add a b = (if uint a + uint b < 2 ^ LENGTH('a) then a + b else - 1)"
    "sat_mul a b = (if uint a * uint b < 2 ^ LENGTH('a) then a * b else - 1)"
    by (simp_all add: sat_add_def sat_mul_def)
qed

lemma unat_sat_sub [word_unat, simp]: "unat (sat_sub a b) = unat a - unat b"
  by (auto simp: sat_sub_def word_less_nat_alt unat_sub word_le_nat_alt)

lemma unat_max_word: "unat (- 1 :: 'a::len word) = 2 ^ LENGTH('a) - 1"
  by (simp add: unsigned_minus_1_eq_mask mask_eq_exp_minus_1)

lemma unat_sat_add [word_unat]:
  "unat (sat_add (a :: 'a::len word) b) = min (unat a + unat b) (2 ^ LENGTH('a) - 1)"
  by (auto simp: sat_add_def unat_max_word unat_word_ariths min_def)

lemma unat_sat_mul [word_unat]:
  "unat (sat_mul (a :: 'a::len word) b) = min (unat a * unat b) (2 ^ LENGTH('a) - 1)"
proof (cases "unat a * unat b < 2 ^ LENGTH('a)")
  case True
  then show ?thesis by (simp add: sat_mul_def unat_word_ariths)
next
  case False
  then have "2 ^ LENGTH('a) - 1 \<le> unat a * unat b" by linarith
  with False show ?thesis by (simp add: sat_mul_def unat_max_word)
qed

lemma unat_bound: "unat (w :: 'a::len word) < 2 ^ LENGTH('a)"
  by (rule unsigned_less)

lemma unat_ucast_up [word_unat]:
  assumes "LENGTH('a::len) \<le> LENGTH('b::len)"
  shows "unat (ucast (w :: 'a word) :: 'b word) = unat w"
proof -
  have "unat w < 2 ^ LENGTH('a)" by (rule unsigned_less)
  also have "(2 :: nat) ^ LENGTH('a) \<le> 2 ^ LENGTH('b)"
    using assms by (simp add: power_increasing)
  finally show ?thesis by (simp add: unsigned_ucast_eq take_bit_nat_eq_self)
qed

lemma unat_take_bit [word_unat]: "unat (take_bit n (w :: 'a::len word)) = unat w mod 2 ^ n"
  by (simp only: unsigned_take_bit_eq) (simp add: take_bit_eq_mod)

lemma and_not_mask_eq: "w AND NOT (mask n) = w - take_bit n (w :: 'a::len word)"
proof -
  have "w AND NOT (mask n) = push_bit n (drop_bit n w)"
    by (rule bit_eqI) (auto simp: bit_simps)
  then show ?thesis by (metis bits_ident add_diff_cancel_right')
qed

lemma unat_and_not_mask [word_unat]:
  "unat (w AND NOT (mask n)) = unat (w :: 'a::len word) - unat w mod 2 ^ n"
proof -
  have "take_bit n w \<le> w" by (simp add: word_le_nat_alt unat_take_bit)
  then show ?thesis by (simp add: and_not_mask_eq unat_sub unat_take_bit)
qed

lemma unat_or_low [word_unat]:
  assumes "unat b < 2 ^ n"
  shows "unat ((w AND NOT (mask n)) OR b) = unat (w :: 'a::len word) - unat w mod 2 ^ n + unat b"
proof -
  let ?a = "w AND NOT (mask n)"
  have "take_bit n b = b"
    using assms by (metis mod_less unat_take_bit word_unat_eq_iff)
  then have "\<not> bit b k" if "n \<le> k" for k
    using that by (metis bit_take_bit_iff not_less)
  moreover have "\<not> bit ?a k" if "k < n" for k
    using that by (simp add: bit_simps)
  ultimately have "\<not> bit (unat ?a) k \<or> \<not> bit (unat b) k" for k
    by (metis bit_unsigned_iff not_less)
  then have "unat ?a + unat b = unat ?a OR unat b"
    by (rule disjunctive_add)
  then have "unat (?a OR b) = unat ?a + unat b" by (simp add: unsigned_or_eq)
  then show ?thesis by (simp add: unat_and_not_mask)
qed

lemma sat_sub_le: "sat_sub a b \<le> a"
  by (simp add: word_le_nat_alt)

lemma unat_ucast_drop:
  fixes w :: "'a::len word"
  assumes "drop_bit LENGTH('b::len) w = 0"
  shows "unat (ucast w :: 'b word) = unat w"
proof -
  have "drop_bit LENGTH('b) (unat w) = 0" using assms unat_drop_bit_eq [of "LENGTH('b)" w] by simp
  then have "unat w div 2 ^ LENGTH('b) = 0" by (simp add: drop_bit_eq_div)
  then have "unat w < 2 ^ LENGTH('b)" by (simp add: div_eq_0_iff)
  then show ?thesis by (simp add: unsigned_ucast_eq take_bit_nat_eq_self)
qed

section \<open>Bounded queues\<close>

text \<open>\<open>while q.len() > cap { q.pop_front(); }\<close>\<close>

fun pop_front_over :: "nat \<Rightarrow> 'a list \<Rightarrow> 'a list" where
  "pop_front_over cap [] = []"
| "pop_front_over cap (x # xs) =
     (if length (x # xs) > cap then pop_front_over cap xs else x # xs)"

lemma pop_front_over_drop [queue_simps]: "pop_front_over cap xs = drop (length xs - cap) xs"
proof (induction xs)
  case (Cons x xs)
  then show ?case
    by (cases "length (x # xs) > cap") (auto simp: Suc_diff_le)
qed simp

lemma length_pop_front_over [simp]: "length (pop_front_over cap xs) = min (length xs) cap"
  by (simp add: pop_front_over_drop min_def)

lemma set_pop_front_over: "set (pop_front_over cap xs) \<subseteq> set xs"
  by (simp add: pop_front_over_drop set_drop_subset)

lemma pop_front_over_snoc:
  "0 < cap \<Longrightarrow> pop_front_over cap (xs @ [x]) = drop (Suc (length xs) - cap) xs @ [x]"
  by (simp add: pop_front_over_drop)

lemma last_pop_front_over:
  "0 < cap \<Longrightarrow> last (pop_front_over cap (xs @ [x])) = x"
  by (simp add: pop_front_over_snoc)

section \<open>ASCII strings\<close>

text \<open>A Rust \<open>String\<close> is its UTF-8 bytes, one \<open>char\<close> per byte;
  \<open>to_ascii_lowercase\<close> changes the bytes of the letters A to Z only.\<close>

definition char_to_ascii_lowercase :: "char \<Rightarrow> char" where
  "char_to_ascii_lowercase c =
     (let n = of_char c :: nat in if 65 \<le> n \<and> n \<le> 90 then char_of (n + 32) else c)"

definition to_ascii_lowercase :: "string \<Rightarrow> string" where
  "to_ascii_lowercase s = map char_to_ascii_lowercase s"

lemma of_char_lowercase:
  "of_char (char_to_ascii_lowercase c) =
     (let n = of_char c :: nat in if 65 \<le> n \<and> n \<le> 90 then n + 32 else n)"
  by (simp add: char_to_ascii_lowercase_def Let_def)

lemma to_ascii_lowercase_idem [simp]:
  "to_ascii_lowercase (to_ascii_lowercase s) = to_ascii_lowercase s"
proof -
  have "char_to_ascii_lowercase (char_to_ascii_lowercase c) = char_to_ascii_lowercase c" for c
  proof (cases "65 \<le> (of_char c :: nat) \<and> (of_char c :: nat) \<le> 90")
    case True
    then show ?thesis
      by (simp add: char_to_ascii_lowercase_def [of "char_to_ascii_lowercase c"] of_char_lowercase)
  next
    case False
    then have "char_to_ascii_lowercase c = c"
      by (auto simp: char_to_ascii_lowercase_def Let_def)
    then show ?thesis by simp
  qed
  then show ?thesis by (simp add: to_ascii_lowercase_def)
qed

lemma length_to_ascii_lowercase [simp]: "length (to_ascii_lowercase s) = length s"
  by (simp add: to_ascii_lowercase_def)

section \<open>Results of calls that may panic\<close>

datatype 'a exec = Panics | Returns 'a

fun exec_bind :: "'a exec \<Rightarrow> ('a \<Rightarrow> 'b exec) \<Rightarrow> 'b exec" where
  "exec_bind Panics f = Panics"
| "exec_bind (Returns x) f = f x"

lemma exec_bind_Returns_iff:
  "exec_bind m f = Returns y \<longleftrightarrow> (\<exists>x. m = Returns x \<and> f x = Returns y)"
  by (cases m) simp_all

section \<open>At most once\<close>

text \<open>The contract shared by the components that must not do a thing twice: a step
  either leaves the log of what was done alone or adds a key that is not in it.\<close>

locale invariant =
  fixes step :: "'s \<Rightarrow> 's \<Rightarrow> bool" and inv :: "'s \<Rightarrow> bool"
  assumes inv_step: "inv s \<Longrightarrow> step s s' \<Longrightarrow> inv s'"
begin

lemma inv_steps: "step\<^sup>*\<^sup>* s s' \<Longrightarrow> inv s \<Longrightarrow> inv s'"
  by (induction rule: rtranclp_induct) (auto intro: inv_step)

end

locale at_most_once = invariant step inv
  for step :: "'s \<Rightarrow> 's \<Rightarrow> bool" and inv :: "'s \<Rightarrow> bool" +
  fixes log :: "'s \<Rightarrow> 'k list"
  assumes log_step: "inv s \<Longrightarrow> step s s' \<Longrightarrow>
      log s' = log s \<or> (\<exists>k. k \<notin> set (log s) \<and> log s' = k # log s)"
begin

lemma distinct_steps:
  assumes "step\<^sup>*\<^sup>* s s'" "inv s" "distinct (log s)"
  shows "distinct (log s')"
  using assms(1)
proof (induction rule: rtranclp_induct)
  case (step y z)
  then show ?case using log_step [OF inv_steps [OF step.hyps(1) assms(2)] step.hyps(2)] by auto
qed (rule assms(3))

lemma log_grows:
  assumes "step\<^sup>*\<^sup>* s s'" "inv s"
  shows "set (log s) \<subseteq> set (log s')"
  using assms(1)
proof (induction rule: rtranclp_induct)
  case (step y z)
  then show ?case using log_step [OF inv_steps [OF step.hyps(1) assms(2)] step.hyps(2)] by auto
qed simp

end

section \<open>Sums over a finite type\<close>

lemma sum_upd:
  fixes g h :: "'a :: finite \<Rightarrow> 'b :: ab_group_add"
  assumes "\<And>y. y \<noteq> x \<Longrightarrow> h y = g y"
  shows "sum h UNIV = sum g UNIV - g x + h x"
proof -
  have "sum h (UNIV - {x}) = sum g (UNIV - {x})" using assms by (intro sum.cong) auto
  then show ?thesis by (simp add: sum.remove [of UNIV x h] sum.remove [of UNIV x g])
qed

end
