(* ===== verification/Float64.thy ===== *)
theory Float64
  imports Complex_Main Prelude "HOL-Library.Log_Nat"
begin

text \<open>
  Rust's \<open>f64\<close>: IEEE 754 binary64 values as exact rationals, with every operation
  rounded to the nearest representable value, ties to even, as the hardware
  does. Infinities and NaN are values of their own. The two zeros of the format
  are one value here: no expression of the pool divides by a zero whose sign
  could matter, and no other operation tells them apart.

  The rounding is executable. What the components use of it is the interface
  \<open>float_format\<close>: rounding is monotone and leaves representable values alone.
\<close>

section \<open>Rounding a rational to binary64\<close>

definition rat_log2 :: "rat \<Rightarrow> int" where
  "rat_log2 x =
     (let (n, d) = quotient_of x; k = bitlen n - bitlen d
      in if 2 powi k \<le> x then k else k - 1)"

definition round_half_even :: "rat \<Rightarrow> int" where
  "round_half_even x =
     (let f = \<lfloor>x\<rfloor>; r = x - of_int f
      in if r < 1 / 2 then f else if r > 1 / 2 then f + 1 else if even f then f else f + 1)"

definition ulp_exp :: "rat \<Rightarrow> int" where
  "ulp_exp x = max (- 1074) (rat_log2 x - 52)"

definition rnd_pos :: "rat \<Rightarrow> rat" where
  "rnd_pos x = (let e = ulp_exp x in of_int (round_half_even (x / 2 powi e)) * 2 powi e)"

definition rnd :: "rat \<Rightarrow> rat" where
  "rnd x = (if x = 0 then 0 else if x > 0 then rnd_pos x else - rnd_pos (- x))"

text \<open>The values of the format: at most 53 significant bits, exponent at least -1074.\<close>

definition repr :: "rat \<Rightarrow> bool" where
  "repr x \<longleftrightarrow> (\<exists>m k. x = of_int m * 2 powi k \<and> \<bar>m\<bar> \<le> 2 ^ 53 \<and> - 1074 \<le> k)"

lemma powi2_pos [simp]: "0 < (2 :: rat) powi k"
  by (simp add: zero_less_power_int)

lemma powi2_mono: "a \<le> b \<Longrightarrow> (2 :: rat) powi a \<le> 2 powi b"
  by (simp add: power_int_increasing)

lemma powi2_nat: "0 \<le> k \<Longrightarrow> (2 :: rat) powi k = of_int (2 ^ nat k)"
  by (simp add: power_int_def)

lemma rat_log2_bounds:
  assumes "0 < x"
  shows "2 powi (rat_log2 x) \<le> x" and "x < 2 powi (rat_log2 x + 1)"
proof -
  obtain n d where q: "quotient_of x = (n, d)" by (cases "quotient_of x")
  have x: "x = of_int n / of_int d" and d: "0 < d"
    using q by (simp_all add: quotient_of_div quotient_of_denom_pos)
  with assms have n: "0 < n" by (simp add: zero_less_divide_iff)
  define a b where "a = bitlen n" and "b = bitlen d"
  have bits: "2 powi (bitlen m - 1) \<le> (of_int m :: rat) \<and> (of_int m :: rat) < 2 powi (bitlen m)"
    if m: "0 < m" for m
  proof -
    have "1 \<le> bitlen m" using m by (simp add: bitlen_nonneg bitlen_eq_zero_iff order.not_eq_order_implies_strict int_one_le_iff_zero_less)
    then show ?thesis
      using bitlen_bounds [OF m] by (simp add: powi2_nat flip: of_int_power)
  qed
  note bn = bits [OF n, folded a_def] and bd = bits [OF d, folded b_def]
  have d': "0 < (of_int d :: rat)" using d by simp
  have "(2 :: rat) powi (a - b - 1) * of_int d < 2 powi (a - b - 1) * 2 powi b"
    using bd by simp
  also have "\<dots> = (2 :: rat) powi (a - 1)" by (simp flip: power_int_add)
  finally have lo: "2 powi (a - b - 1) < x"
    using bn d' by (simp add: x pos_less_divide_eq)
  have "(of_int n :: rat) < 2 powi (a - b + 1) * 2 powi (b - 1)"
    using bn by (simp flip: power_int_add)
  also have "\<dots> \<le> 2 powi (a - b + 1) * of_int d" using bd by simp
  finally have hi: "x < 2 powi (a - b + 1)"
    using d' by (simp add: x pos_divide_less_eq)
  show "2 powi (rat_log2 x) \<le> x"
    using lo by (auto simp: rat_log2_def q a_def b_def Let_def)
  show "x < 2 powi (rat_log2 x + 1)"
    using hi by (auto simp: rat_log2_def q a_def b_def Let_def)
qed

lemma round_half_even_mono:
  assumes "x \<le> y" shows "round_half_even x \<le> round_half_even y"
proof (cases "\<lfloor>x\<rfloor> = \<lfloor>y\<rfloor>")
  case True
  let ?r = "\<lambda>z. z - of_int \<lfloor>y\<rfloor>"
  have "?r x \<le> ?r y" using assms by simp
  then show ?thesis by (simp add: round_half_even_def Let_def True)
next
  case False
  then have "\<lfloor>x\<rfloor> + 1 \<le> \<lfloor>y\<rfloor>" using floor_mono [OF assms] by linarith
  moreover have "round_half_even x \<le> \<lfloor>x\<rfloor> + 1" and "\<lfloor>y\<rfloor> \<le> round_half_even y"
    by (simp_all add: round_half_even_def Let_def)
  ultimately show ?thesis by linarith
qed

lemma round_half_even_int [simp]: "round_half_even (of_int n) = n"
  by (simp add: round_half_even_def Let_def)

lemma round_half_even_le: "x \<le> of_int n \<Longrightarrow> round_half_even x \<le> n"
  using round_half_even_mono [of x "of_int n"] by simp

lemma round_half_even_ge: "of_int n \<le> x \<Longrightarrow> n \<le> round_half_even x"
  using round_half_even_mono [of "of_int n" x] by simp

lemma ulp_exp_ge [simp]: "- 1074 \<le> ulp_exp x"
  by (simp add: ulp_exp_def)

lemma rat_log2_mono:
  assumes "0 < x" "x \<le> y" shows "rat_log2 x \<le> rat_log2 y"
proof (rule ccontr)
  assume "\<not> ?thesis"
  then have "(2 :: rat) powi (rat_log2 y + 1) \<le> 2 powi (rat_log2 x)" by (intro powi2_mono) linarith
  with rat_log2_bounds [of x] rat_log2_bounds [of y] assms show False by linarith
qed

lemma ulp_exp_mono: "0 < x \<Longrightarrow> x \<le> y \<Longrightarrow> ulp_exp x \<le> ulp_exp y"
  using rat_log2_mono [of x y] by (simp add: ulp_exp_def)

lemma scaled_upper:
  assumes "0 < x" shows "x / 2 powi (ulp_exp x) \<le> of_int (2 ^ 53)"
proof -
  have "x < 2 powi (rat_log2 x + 1)" using assms by (rule rat_log2_bounds)
  also have "(2 :: rat) powi (rat_log2 x + 1) \<le> 2 powi (ulp_exp x + 53)"
    by (intro powi2_mono) (simp add: ulp_exp_def)
  also have "(2 :: rat) powi (ulp_exp x + 53) = 2 ^ 53 * 2 powi (ulp_exp x)"
    by (simp add: power_int_add)
  finally show ?thesis by (simp add: pos_divide_le_eq)
qed

lemma rnd_pos_nonneg: "0 < x \<Longrightarrow> 0 \<le> rnd_pos x"
  using round_half_even_ge [of 0 "x / 2 powi (ulp_exp x)"] by (simp add: rnd_pos_def Let_def)

lemma repr_rnd_pos: "0 < x \<Longrightarrow> repr (rnd_pos x)"
  unfolding repr_def rnd_pos_def Let_def
proof (intro exI conjI)
  assume x: "0 < x"
  let ?m = "round_half_even (x / 2 powi (ulp_exp x))"
  have "?m \<le> 2 ^ 53" using scaled_upper [OF x] by (rule round_half_even_le)
  moreover have "0 \<le> ?m" using x by (intro round_half_even_ge) simp
  ultimately show "\<bar>?m\<bar> \<le> 2 ^ 53" by linarith
qed (rule refl, simp)

lemma rnd_pos_mono:
  assumes x: "0 < x" and xy: "x \<le> y" shows "rnd_pos x \<le> rnd_pos y"
proof (cases "ulp_exp x = ulp_exp y")
  case True
  have "x / 2 powi (ulp_exp y) \<le> y / 2 powi (ulp_exp y)" using xy by (simp add: divide_right_mono)
  then show ?thesis
    by (simp add: rnd_pos_def Let_def True round_half_even_mono)
next
  case False
  then have lt: "ulp_exp x + 1 \<le> ulp_exp y" using ulp_exp_mono [OF x xy] by linarith
  have y: "0 < y" using x xy by linarith
  have ey: "rat_log2 y = ulp_exp y + 52" using lt ulp_exp_ge [of x] by (simp add: ulp_exp_def)
  let ?m = "\<lambda>z. of_int (round_half_even (z / 2 powi (ulp_exp z))) :: rat"
  have "?m x \<le> of_int (2 ^ 53)"
    unfolding of_int_le_iff by (rule round_half_even_le [OF scaled_upper [OF x]])
  then have "rnd_pos x \<le> 2 ^ 53 * 2 powi (ulp_exp x)"
    by (simp add: rnd_pos_def Let_def)
  also have "\<dots> = 2 powi (ulp_exp x + 53)" by (simp add: power_int_add)
  also have "\<dots> \<le> 2 powi (ulp_exp y + 52)" using lt by (intro powi2_mono) linarith
  also have "\<dots> = of_int (2 ^ 52) * 2 powi (ulp_exp y)" by (simp add: power_int_add)
  also have "\<dots> \<le> rnd_pos y"
  proof -
    have "2 powi (ulp_exp y + 52) \<le> y" using rat_log2_bounds(1) [OF y] by (simp add: ey)
    then have "of_int (2 ^ 52) \<le> y / 2 powi (ulp_exp y)"
      by (simp add: pos_le_divide_eq power_int_add)
    then have "of_int (2 ^ 52) \<le> ?m y"
      unfolding of_int_le_iff by (rule round_half_even_ge)
    then show ?thesis by (simp add: rnd_pos_def Let_def)
  qed
  finally show ?thesis .
qed

lemma rnd_pos_multiple:
  assumes "x = of_int j * 2 powi (ulp_exp x)" shows "rnd_pos x = x"
proof -
  define u where "u = ulp_exp x"
  have x: "x = of_int j * 2 powi u" using assms by (simp add: u_def)
  have "x / 2 powi u = of_int j" unfolding x by simp
  then have "rnd_pos x = of_int j * 2 powi u" by (simp add: rnd_pos_def Let_def flip: u_def)
  then show ?thesis using x by simp
qed

lemma repr_pos_fixed:
  assumes x: "0 < x" and r: "repr x" shows "rnd_pos x = x"
proof -
  obtain m k where xm: "x = of_int m * 2 powi k" and m: "\<bar>m\<bar> \<le> 2 ^ 53" and k: "- 1074 \<le> k"
    using r by (auto simp: repr_def)
  define u where "u = ulp_exp x"
  show ?thesis
  proof (cases "u \<le> k")
    case True
    have "k = (k - u) + u" by simp
    then have "(2 :: rat) powi k = 2 powi (k - u) * 2 powi u"
      by (metis power_int_add zero_neq_numeral)
    also have "(2 :: rat) powi (k - u) = of_int (2 ^ nat (k - u))" using True by (intro powi2_nat) simp
    finally have "x = of_int (m * 2 ^ nat (k - u)) * 2 powi u" unfolding xm by simp
    then show ?thesis unfolding u_def by (rule rnd_pos_multiple)
  next
    case False
    then have e: "rat_log2 x = u + 52" using k unfolding u_def ulp_exp_def by linarith
    have "(of_int m :: rat) \<le> of_int (2 ^ 53)" using m unfolding of_int_le_iff by linarith
    then have "x \<le> of_int (2 ^ 53) * 2 powi k" unfolding xm by (rule mult_right_mono) simp
    also have "\<dots> = 2 powi (53 + k)" by (simp add: power_int_add)
    also have "\<dots> \<le> 2 powi (rat_log2 x)"
      using False e by (intro powi2_mono) linarith
    finally have "x = 2 powi (rat_log2 x)" using rat_log2_bounds(1) [OF x] by linarith
    also have "\<dots> = of_int (2 ^ 52) * 2 powi u" unfolding e by (simp add: power_int_add)
    finally show ?thesis unfolding u_def by (rule rnd_pos_multiple)
  qed
qed

lemma repr_uminus: assumes "repr x" shows "repr (- x)"
proof -
  obtain m k where "x = of_int m * 2 powi k" "\<bar>m\<bar> \<le> 2 ^ 53" "- 1074 \<le> k"
    using assms by (auto simp: repr_def)
  then have "- x = of_int (- m) * 2 powi k" "\<bar>- m\<bar> \<le> 2 ^ 53" "- 1074 \<le> k" by simp_all
  then show ?thesis unfolding repr_def by blast
qed

lemma repr_zero: "repr 0"
  unfolding repr_def by (rule exI [of _ 0], rule exI [of _ 0]) simp

lemma repr_rnd: "repr (rnd x)"
  by (simp add: rnd_def repr_zero repr_rnd_pos repr_uminus)

lemma rnd_repr_fixed: "repr x \<Longrightarrow> rnd x = x"
  using repr_pos_fixed [of x] repr_pos_fixed [of "- x"] by (auto simp: rnd_def repr_uminus)

lemma rnd_mono:
  assumes "x \<le> y" shows "rnd x \<le> rnd y"
proof -
  have "- rnd_pos (- x) \<le> - rnd_pos (- y)" if "y < 0"
    using rnd_pos_mono [of "- y" "- x"] that assms by simp
  then show ?thesis
    using rnd_pos_mono [of x y] rnd_pos_nonneg [of y] rnd_pos_nonneg [of "- x"] assms
    by (auto simp: rnd_def)
qed

lemma repr_int: "\<bar>n\<bar> \<le> 2 ^ 53 \<Longrightarrow> repr (of_int n)"
  unfolding repr_def by (rule exI [of _ n], rule exI [of _ 0]) simp

section \<open>The interface of the rounding\<close>

locale float_format =
  fixes rd :: "rat \<Rightarrow> rat" and rp :: "rat \<Rightarrow> bool"
  assumes rd_mono: "x \<le> y \<Longrightarrow> rd x \<le> rd y"
    and rd_in_format: "rp (rd x)"
    and rd_fixed: "rp x \<Longrightarrow> rd x = x"
    and zero_in_format: "rp 0"
begin

lemma rd_le: "rp y \<Longrightarrow> x \<le> y \<Longrightarrow> rd x \<le> y"
  using rd_mono [of x y] by (simp add: rd_fixed)

lemma rd_ge: "rp y \<Longrightarrow> y \<le> x \<Longrightarrow> y \<le> rd x"
  using rd_mono [of y x] by (simp add: rd_fixed)

lemma rd_zero [simp]: "rd 0 = 0"
  by (simp add: rd_fixed zero_in_format)

lemma rd_nonneg: "0 \<le> x \<Longrightarrow> 0 \<le> rd x"
  by (rule rd_ge [OF zero_in_format])

lemma rd_nonpos: "x \<le> 0 \<Longrightarrow> rd x \<le> 0"
  by (rule rd_le [OF zero_in_format])

lemma rd_idem [simp]: "rd (rd x) = rd x"
  by (simp add: rd_fixed rd_in_format)

lemma rd_scale_le: "rp x \<Longrightarrow> 0 \<le> x \<Longrightarrow> m \<le> 1 \<Longrightarrow> rd (m * x) \<le> x"
  by (rule rd_le) (auto intro: mult_left_le_one_le mult_right_mono [of m 1 x, simplified])

lemma rd_diff_le: "rp x \<Longrightarrow> 0 \<le> y \<Longrightarrow> rd (x - y) \<le> x"
  by (rule rd_le) simp_all

end

interpretation b64: float_format rnd repr
  by unfold_locales (auto intro: rnd_mono repr_rnd rnd_repr_fixed repr_zero)

section \<open>Values and operations\<close>

datatype f64 = NaN | PInf | NInf | Fin rat

text \<open>The first magnitude past the format: rounding to it is rounding to infinity.\<close>

definition f64_huge :: rat where "f64_huge = 2 ^ 1024"

definition f64_round :: "rat \<Rightarrow> f64" where
  "f64_round x =
     (let y = rnd x in if f64_huge \<le> y then PInf else if y \<le> - f64_huge then NInf else Fin y)"

lemma f64_huge_numeral [code]:
  "f64_huge =
     179769313486231590772930519078902473361797697894230657273430081157732675805500963132708477322407536021120113879871393357658789768814416622492847430639474124377767893424865485276302219601246094119453082952085005768838150682342462881473913110540827237163350510684586298239947245938479716304835356329624224137216"
  unfolding f64_huge_def by simp

text \<open>For evaluation: the rounded value is brought to lowest terms once.\<close>

lemma f64_round_code [code]:
  "f64_round x =
     (case quotient_of (rnd x) of
        (n, d) \<Rightarrow> let y = of_int n / of_int d
                  in if f64_huge \<le> y then PInf else if y \<le> - f64_huge then NInf else Fin y)"
  using quotient_of_div [of "rnd x"] by (cases "quotient_of (rnd x)") (simp add: f64_round_def Let_def)

lemma f64_huge_gt: "2 ^ 1000 < f64_huge"
  unfolding f64_huge_def by (rule power_strict_increasing) simp_all

lemma f64_huge_pos [simp]: "0 < f64_huge"
  by (simp add: f64_huge_def)

definition f64_of_int :: "int \<Rightarrow> f64" where
  "f64_of_int n = f64_round (of_int n)"

definition f64_of_word :: "'a::len word \<Rightarrow> f64" where
  "f64_of_word w = f64_of_int (uint w)"

fun fneg :: "f64 \<Rightarrow> f64" where
  "fneg NaN = NaN"
| "fneg PInf = NInf"
| "fneg NInf = PInf"
| "fneg (Fin x) = Fin (- x)"

fun fadd :: "f64 \<Rightarrow> f64 \<Rightarrow> f64" where
  "fadd (Fin x) (Fin y) = f64_round (x + y)"
| "fadd NaN b = NaN"
| "fadd a NaN = NaN"
| "fadd PInf NInf = NaN"
| "fadd NInf PInf = NaN"
| "fadd PInf b = PInf"
| "fadd NInf b = NInf"
| "fadd a b = b"

definition fsub :: "f64 \<Rightarrow> f64 \<Rightarrow> f64" where
  "fsub a b = fadd a (fneg b)"

definition fsgn :: "f64 \<Rightarrow> int" where
  "fsgn a = (case a of NaN \<Rightarrow> 0 | PInf \<Rightarrow> 1 | NInf \<Rightarrow> - 1 | Fin x \<Rightarrow> if x > 0 then 1 else if x < 0 then - 1 else 0)"

definition finf :: "int \<Rightarrow> f64" where
  "finf s = (if s > 0 then PInf else if s < 0 then NInf else NaN)"

fun fmul :: "f64 \<Rightarrow> f64 \<Rightarrow> f64" where
  "fmul (Fin x) (Fin y) = f64_round (x * y)"
| "fmul a b = finf (fsgn a * fsgn b)"

fun fdiv :: "f64 \<Rightarrow> f64 \<Rightarrow> f64" where
  "fdiv (Fin x) (Fin y) = (if y = 0 then finf (fsgn (Fin x)) else f64_round (x / y))"
| "fdiv (Fin x) NaN = NaN"
| "fdiv (Fin x) b = Fin 0"
| "fdiv a (Fin y) = (if y = 0 then finf (fsgn a) else finf (fsgn a * fsgn (Fin y)))"
| "fdiv a b = NaN"

fun flt :: "f64 \<Rightarrow> f64 \<Rightarrow> bool" where
  "flt (Fin x) (Fin y) \<longleftrightarrow> x < y"
| "flt NInf PInf \<longleftrightarrow> True"
| "flt NInf (Fin y) \<longleftrightarrow> True"
| "flt (Fin x) PInf \<longleftrightarrow> True"
| "flt a b \<longleftrightarrow> False"

fun fle :: "f64 \<Rightarrow> f64 \<Rightarrow> bool" where
  "fle (Fin x) (Fin y) \<longleftrightarrow> x \<le> y"
| "fle NaN b \<longleftrightarrow> False"
| "fle a NaN \<longleftrightarrow> False"
| "fle NInf b \<longleftrightarrow> True"
| "fle a PInf \<longleftrightarrow> True"
| "fle a b \<longleftrightarrow> False"

text \<open>\<open>f64::max\<close> and \<open>f64::min\<close> ignore a NaN argument; \<open>clamp\<close> keeps it.\<close>

definition fmax :: "f64 \<Rightarrow> f64 \<Rightarrow> f64" where
  "fmax a b = (if a = NaN then b else if b = NaN then a else if fle b a then a else b)"

definition fmin :: "f64 \<Rightarrow> f64 \<Rightarrow> f64" where
  "fmin a b = (if a = NaN then b else if b = NaN then a else if fle a b then a else b)"

definition fclamp :: "f64 \<Rightarrow> f64 \<Rightarrow> f64 \<Rightarrow> f64" where
  "fclamp lo hi a = (let b = (if flt a lo then lo else a) in if flt hi b then hi else b)"

text \<open>\<open>f64::round\<close> goes to the nearest integer, halves away from zero.\<close>

definition round_half_away :: "rat \<Rightarrow> int" where
  "round_half_away x = (if 0 \<le> x then \<lfloor>x + 1 / 2\<rfloor> else - \<lfloor>- x + 1 / 2\<rfloor>)"

fun fround :: "f64 \<Rightarrow> f64" where
  "fround (Fin x) = f64_of_int (round_half_away x)"
| "fround a = a"

fun ffloor :: "f64 \<Rightarrow> f64" where
  "ffloor (Fin x) = f64_of_int \<lfloor>x\<rfloor>"
| "ffloor a = a"

text \<open>\<open>as\<close> casts truncate towards zero and saturate; NaN becomes zero.\<close>

definition f64_to_word :: "f64 \<Rightarrow> 'a::len word" where
  "f64_to_word a =
     (case a of NaN \<Rightarrow> 0 | NInf \<Rightarrow> 0 | PInf \<Rightarrow> - 1
      | Fin x \<Rightarrow> if x \<le> 0 then 0 else if 2 ^ LENGTH('a) \<le> x then - 1 else word_of_int \<lfloor>x\<rfloor>)"

definition f64_to_i64 :: "f64 \<Rightarrow> int" where
  "f64_to_i64 a =
     (case a of NaN \<Rightarrow> 0 | NInf \<Rightarrow> i64_min | PInf \<Rightarrow> i64_max
      | Fin x \<Rightarrow> i64_sat (if 0 \<le> x then \<lfloor>x\<rfloor> else - \<lfloor>- x\<rfloor>))"

text \<open>The values an operation can return.\<close>

definition f64_ok :: "f64 \<Rightarrow> bool" where
  "f64_ok a \<longleftrightarrow> (case a of Fin x \<Rightarrow> repr x \<and> \<bar>x\<bar> < f64_huge | _ \<Rightarrow> True)"

lemma f64_ok_round [simp]: "f64_ok (f64_round x)"
  by (auto simp: f64_ok_def f64_round_def Let_def repr_rnd)

lemma f64_ok_simps [simp]: "f64_ok NaN" "f64_ok PInf" "f64_ok NInf"
  by (simp_all add: f64_ok_def)

lemma f64_ok_ops [simp]:
  "f64_ok (f64_of_int n)" "f64_ok (finf s)"
  by (simp_all add: f64_of_int_def finf_def)

lemma f64_ok_fneg: "f64_ok a \<Longrightarrow> f64_ok (fneg a)"
  by (cases a) (auto simp: f64_ok_def repr_uminus)

lemma f64_ok_fadd: "f64_ok a \<Longrightarrow> f64_ok b \<Longrightarrow> f64_ok (fadd a b)"
  by (cases a; cases b) simp_all

lemma f64_ok_fsub: "f64_ok a \<Longrightarrow> f64_ok b \<Longrightarrow> f64_ok (fsub a b)"
  by (simp add: fsub_def f64_ok_fadd f64_ok_fneg)

lemma f64_ok_fmul [simp]: "f64_ok (fmul a b)"
  by (cases a; cases b) simp_all

lemma f64_ok_fdiv: "f64_ok (fdiv a b)"
  by (cases a; cases b) (simp_all add: f64_ok_def [of "Fin 0"] repr_zero)

lemma f64_round_id: "repr x \<Longrightarrow> \<bar>x\<bar> < f64_huge \<Longrightarrow> f64_round x = Fin x"
  by (auto simp: f64_round_def rnd_repr_fixed Let_def abs_less_iff)

lemma f64_round_ok: "f64_ok (Fin x) \<Longrightarrow> f64_round x = Fin x"
  by (simp add: f64_ok_def f64_round_id)

lemma f64_of_int_exact:
  assumes n: "\<bar>n\<bar> \<le> 2 ^ 53" shows "f64_of_int n = Fin (of_int n)"
proof -
  have "\<bar>of_int n :: rat\<bar> \<le> of_int (2 ^ 53)"
    unfolding of_int_abs [symmetric] of_int_le_iff by (rule n)
  also have "of_int (2 ^ 53) < (2 :: rat) ^ 1000"
    unfolding of_int_power of_int_numeral by (rule power_strict_increasing) simp_all
  also note f64_huge_gt
  finally show ?thesis using n by (simp add: f64_of_int_def f64_round_id repr_int)
qed

section \<open>Order\<close>

lemma fle_refl: "a \<noteq> NaN \<Longrightarrow> fle a a"
  by (cases a) simp_all

lemma fle_trans: "fle a b \<Longrightarrow> fle b c \<Longrightarrow> fle a c"
  by (cases a; cases b; cases c) simp_all

lemma fle_antisym: "fle a b \<Longrightarrow> fle b a \<Longrightarrow> a = b"
  by (cases a; cases b) simp_all

lemma fle_not_NaN: "fle a b \<Longrightarrow> a \<noteq> NaN \<and> b \<noteq> NaN"
  by (cases a; cases b) simp_all

lemma flt_not_fle: "a \<noteq> NaN \<Longrightarrow> b \<noteq> NaN \<Longrightarrow> flt a b \<longleftrightarrow> \<not> fle b a"
  by (cases a; cases b) auto

lemma fle_total: "a \<noteq> NaN \<Longrightarrow> b \<noteq> NaN \<Longrightarrow> fle a b \<or> fle b a"
  by (cases a; cases b) auto

lemma flt_imp_fle: "flt a b \<Longrightarrow> fle a b"
  by (cases a; cases b) auto

lemma f64_round_mono: "x \<le> y \<Longrightarrow> fle (f64_round x) (f64_round y)"
  using rnd_mono [of x y] by (auto simp: f64_round_def Let_def not_le)

lemma f64_round_not_NaN [simp]: "f64_round x \<noteq> NaN"
  by (simp add: f64_round_def Let_def)

lemma f64_round_nonneg: "0 \<le> x \<Longrightarrow> fle (Fin 0) (f64_round x)"
  using f64_round_mono [of 0 x] by (simp add: f64_round_id repr_zero)

lemma f64_round_le: "f64_ok (Fin y) \<Longrightarrow> x \<le> y \<Longrightarrow> fle (f64_round x) (Fin y)"
  using f64_round_mono [of x y] by (simp add: f64_round_ok)

lemma f64_round_ge: "f64_ok (Fin y) \<Longrightarrow> y \<le> x \<Longrightarrow> fle (Fin y) (f64_round x)"
  using f64_round_mono [of y x] by (simp add: f64_round_ok)

lemma fmax_ge1: "a \<noteq> NaN \<Longrightarrow> fle a (fmax a b)"
  using fle_total [of a b] by (auto simp: fmax_def fle_refl)

lemma fmax_ge2: "b \<noteq> NaN \<Longrightarrow> fle b (fmax a b)"
  by (auto simp: fmax_def fle_refl)

lemma fmin_le1: "a \<noteq> NaN \<Longrightarrow> fle (fmin a b) a"
  using fle_total [of a b] by (auto simp: fmin_def fle_refl)

lemma fmin_le2: "b \<noteq> NaN \<Longrightarrow> fle (fmin a b) b"
  by (auto simp: fmin_def fle_refl)

lemma fclamp_bounds:
  assumes "fle lo hi" and "a \<noteq> NaN"
  shows "fle lo (fclamp lo hi a) \<and> fle (fclamp lo hi a) hi"
  using assms by (cases a; cases lo; cases hi) (auto simp: fclamp_def Let_def)

lemma i64_sat_mono: "x \<le> y \<Longrightarrow> i64_sat x \<le> i64_sat y"
  by (simp add: i64_sat_def i64_min_def i64_max_def)

lemma trunc_mono:
  fixes x y :: rat
  assumes "x \<le> y"
  shows "(if 0 \<le> x then \<lfloor>x\<rfloor> else - \<lfloor>- x\<rfloor>) \<le> (if 0 \<le> y then \<lfloor>y\<rfloor> else - \<lfloor>- y\<rfloor>)"
proof (cases "0 \<le> x \<or> y < 0")
  case True
  then show ?thesis using assms floor_mono [of x y] floor_mono [of "- y" "- x"] by auto
next
  case False
  then have a: "- \<lfloor>- x\<rfloor> \<le> 0" and b: "0 \<le> \<lfloor>y\<rfloor>" by simp_all
  from order_trans [OF a b] False show ?thesis by simp
qed

lemma f64_to_i64_in [simp]: "in_i64 (f64_to_i64 a)"
  by (cases a) (simp_all add: f64_to_i64_def, simp_all add: in_i64_def i64_min_def i64_max_def)

lemma f64_to_i64_mono: "fle a b \<Longrightarrow> f64_to_i64 a \<le> f64_to_i64 b"
proof (cases a; cases b)
  fix x y assume ab: "a = Fin x" "b = Fin y" "fle a b"
  then have "x \<le> y" by simp
  then show "f64_to_i64 a \<le> f64_to_i64 b"
    using i64_sat_mono [OF trunc_mono] ab by (simp add: f64_to_i64_def del: if_split)
qed (auto simp: f64_to_i64_def i64_sat_def i64_min_def i64_max_def)

lemma f64_to_i64_nonneg: "fle (Fin 0) a \<Longrightarrow> 0 \<le> f64_to_i64 a"
  using f64_to_i64_mono [of "Fin 0" a] by (simp add: f64_to_i64_def i64_sat_def i64_min_def i64_max_def)

section \<open>Operations are monotone\<close>

lemma fle_inf [simp]: "fle NInf a \<longleftrightarrow> a \<noteq> NaN" "fle a PInf \<longleftrightarrow> a \<noteq> NaN"
  by (cases a; simp)+

lemma fmul_mono:
  assumes "0 < x" "fle a b" shows "fle (fmul (Fin x) a) (fmul (Fin x) b)"
  using assms
  by (cases a; cases b) (auto simp: f64_round_mono mult_left_mono finf_def fsgn_def)

lemma round_half_away_mono: "x \<le> y \<Longrightarrow> round_half_away x \<le> round_half_away y"
proof -
  assume xy: "x \<le> y"
  have n: "- \<lfloor>- z + 1 / 2\<rfloor> \<le> 0" if "z < 0" for z :: rat
    using that by (simp add: le_floor_iff)
  have p: "0 \<le> \<lfloor>z + 1 / 2\<rfloor>" if "0 \<le> z" for z :: rat using that by (simp add: le_floor_iff)
  show ?thesis
  proof (cases "0 \<le> x \<or> y < 0")
    case True
    then show ?thesis using xy floor_mono [of "x + 1 / 2" "y + 1 / 2"]
        floor_mono [of "- y + 1 / 2" "- x + 1 / 2"] by (auto simp: round_half_away_def)
  next
    case False
    then show ?thesis using order_trans [OF n p] by (simp add: round_half_away_def)
  qed
qed

lemma f64_of_int_mono: "m \<le> n \<Longrightarrow> fle (f64_of_int m) (f64_of_int n)"
  by (simp add: f64_of_int_def f64_round_mono)

lemma f64_of_int_not_NaN [simp]: "f64_of_int n \<noteq> NaN"
  by (simp add: f64_of_int_def)

lemma fround_mono: "fle a b \<Longrightarrow> fle (fround a) (fround b)"
  by (cases a; cases b) (auto simp: f64_of_int_mono round_half_away_mono)

lemma f64_to_word_nat:
  "unat (f64_to_word a :: 'a::len word) =
     (case a of NaN \<Rightarrow> 0 | NInf \<Rightarrow> 0 | PInf \<Rightarrow> 2 ^ LENGTH('a) - 1
      | Fin x \<Rightarrow> if x \<le> 0 then 0 else if 2 ^ LENGTH('a) \<le> x then 2 ^ LENGTH('a) - 1 else nat \<lfloor>x\<rfloor>)"
proof -
  have "unat (word_of_int \<lfloor>x\<rfloor> :: 'a word) = nat \<lfloor>x\<rfloor>" if "0 < x" "x < 2 ^ LENGTH('a)" for x :: rat
  proof -
    have "\<lfloor>x\<rfloor> < 2 ^ LENGTH('a)" using that(2) by (simp add: floor_less_iff)
    moreover have "0 \<le> \<lfloor>x\<rfloor>" using that(1) by simp
    ultimately show ?thesis by (simp add: unsigned_of_int take_bit_int_eq_self)
  qed
  then show ?thesis
    by (auto simp: f64_to_word_def unat_max_word not_le split: f64.split)
qed

lemma f64_to_word_mono:
  assumes "fle a b" shows "(f64_to_word a :: 'a::len word) \<le> f64_to_word b"
proof -
  have "nat \<lfloor>x\<rfloor> \<le> 2 ^ LENGTH('a) - Suc 0" if "x < 2 ^ LENGTH('a)" for x :: rat
  proof -
    have "\<lfloor>x\<rfloor> < 2 ^ LENGTH('a)" using that by (simp add: floor_less_iff)
    then have "nat \<lfloor>x\<rfloor> < nat (2 ^ LENGTH('a))" by (subst nat_mono_iff) simp_all
    also have "nat (2 ^ LENGTH('a)) = 2 ^ LENGTH('a)" by (simp add: nat_power_eq)
    finally show ?thesis by linarith
  qed
  then show ?thesis using assms unfolding word_le_nat_alt f64_to_word_nat
    by (cases a; cases b) (auto simp: not_le intro: nat_mono floor_mono)
qed

section \<open>Where rounding stays finite\<close>

lemma repr_pow2: "- 1074 \<le> k \<Longrightarrow> repr (2 powi k)"
  unfolding repr_def by (rule exI [of _ 1], rule exI [of _ k]) simp

lemma rnd_bound: "\<bar>x\<bar> \<le> 2 ^ 1000 \<Longrightarrow> \<bar>rnd x\<bar> \<le> 2 ^ 1000"
  using b64.rd_le [of "2 powi 1000" x] b64.rd_ge [of "- (2 powi 1000)" x]
    repr_pow2 [of 1000] repr_uminus [of "2 powi 1000"]
  by (auto simp: abs_le_iff)

lemma f64_round_Fin: "\<bar>x\<bar> \<le> 2 ^ 1000 \<Longrightarrow> f64_round x = Fin (rnd x)"
  using rnd_bound [of x] f64_huge_gt by (auto simp: f64_round_def Let_def abs_le_iff)

lemma repr_one: "repr 1"
  using repr_pow2 [of 0] by simp

definition word_rat :: "'a::len word \<Rightarrow> rat" where
  "word_rat w = of_int (uint w)"

lemma word_rat_nonneg: "0 \<le> word_rat w"
  unfolding word_rat_def of_int_0_le_iff by simp

lemma word_rat_mono: "a \<le> b \<Longrightarrow> word_rat a \<le> word_rat b"
  unfolding word_rat_def of_int_le_iff by (simp add: word_le_def)

lemma rnd_word_rat_nonneg: "0 \<le> rnd (word_rat w)"
  by (rule b64.rd_nonneg [OF word_rat_nonneg])

lemma f64_of_word_Fin:
  assumes "LENGTH('a::len) \<le> 1000"
  shows "f64_of_word (w :: 'a word) = Fin (rnd (word_rat w))"
proof -
  have "uint w < 2 ^ LENGTH('a)" by (rule uint_lt2p)
  then have "(of_int (uint w) :: rat) \<le> of_int (2 ^ LENGTH('a))" unfolding of_int_le_iff by (rule less_imp_le)
  also have "\<dots> = 2 ^ LENGTH('a)" by simp
  also have "\<dots> \<le> 2 ^ 1000" using assms by (rule power_increasing) simp
  finally have "word_rat w \<le> 2 ^ 1000" unfolding word_rat_def .
  with word_rat_nonneg [of w] have "\<bar>word_rat w\<bar> \<le> 2 ^ 1000" by simp
  then show ?thesis unfolding f64_of_word_def f64_of_int_def word_rat_def by (rule f64_round_Fin)
qed

section \<open>Evaluation\<close>

text \<open>Code equations that compute on integers: one rounding is a few integer
  divisions instead of arithmetic on fractions.\<close>

lemma quotient_of_pos: "quotient_of x = (n, d) \<Longrightarrow> 0 < d \<and> x = of_int n / of_int d"
  by (simp add: quotient_of_denom_pos quotient_of_div)

lemma powi_le_quotient:
  assumes "quotient_of x = (n, d)"
  shows "2 powi k \<le> x \<longleftrightarrow> (if 0 \<le> k then 2 ^ nat k * d \<le> n else d \<le> n * 2 ^ nat (- k))"
proof -
  have d: "0 < (of_int d :: rat)" "x = of_int n / of_int d" using quotient_of_pos [OF assms] by simp_all
  show ?thesis
  proof (cases "0 \<le> k")
    case True
    then have "2 powi k \<le> x \<longleftrightarrow> (of_int (2 ^ nat k * d) :: rat) \<le> of_int n"
      using d by (simp add: power_int_def pos_le_divide_eq)
    then show ?thesis using True by (simp only: of_int_le_iff if_True)
  next
    case False
    then have "2 powi k \<le> x \<longleftrightarrow> (of_int d :: rat) \<le> of_int (n * 2 ^ nat (- k))"
      using d(1) unfolding d(2) power_int_def by (simp add: field_simps)
    then show ?thesis using False by (simp only: of_int_le_iff if_False)
  qed
qed

lemma rat_log2_code [code]:
  "rat_log2 x =
     (case quotient_of x of (n, d) \<Rightarrow>
        let k = bitlen n - bitlen d
        in if (if 0 \<le> k then 2 ^ nat k * d \<le> n else d \<le> n * 2 ^ nat (- k)) then k else k - 1)"
  by (cases "quotient_of x") (simp add: rat_log2_def powi_le_quotient Let_def)

definition round_div :: "int \<Rightarrow> int \<Rightarrow> int" where
  "round_div n d =
     (let q = n div d; r = 2 * (n mod d)
      in if r < d then q else if r > d then q + 1 else if even q then q else q + 1)"

lemma round_half_even_div:
  assumes "0 < d" shows "round_half_even (of_int n / of_int d) = round_div n d"
proof -
  have f: "\<lfloor>of_int n / of_int d :: rat\<rfloor> = n div d" by (rule floor_divide_of_int_eq)
  have r: "of_int n / of_int d - of_int (n div d) = (of_int (n mod d) / of_int d :: rat)"
    using assms by (simp add: field_simps flip: of_int_mult of_int_add)
  have "(of_int (n mod d) / of_int d < (1 / 2 :: rat)) = ((of_int (2 * (n mod d)) :: rat) < of_int d)"
    using assms by (simp add: field_simps)
  moreover have "(of_int (n mod d) / of_int d > (1 / 2 :: rat)) = ((of_int (2 * (n mod d)) :: rat) > of_int d)"
    using assms by (simp add: field_simps)
  ultimately show ?thesis
    unfolding round_half_even_def Let_def f r round_div_def by (simp only: of_int_less_iff)
qed

lemma rnd_pos_code [code]:
  "rnd_pos x =
     (case quotient_of x of (n, d) \<Rightarrow>
        let e = ulp_exp x
        in if 0 \<le> e then of_int (round_div n (d * 2 ^ nat e) * 2 ^ nat e)
           else of_int (round_div (n * 2 ^ nat (- e)) d) / of_int (2 ^ nat (- e)))"
proof (cases "quotient_of x")
  case (Pair n d)
  note q = quotient_of_pos [OF Pair]
  show ?thesis
  proof (cases "0 \<le> ulp_exp x")
    case True
    have "x / 2 powi ulp_exp x = of_int n / of_int (d * 2 ^ nat (ulp_exp x))"
      using True q by (simp add: power_int_def)
    moreover have "0 < d * 2 ^ nat (ulp_exp x)" using q by simp
    ultimately have "round_half_even (x / 2 powi ulp_exp x) = round_div n (d * 2 ^ nat (ulp_exp x))"
      by (simp only: round_half_even_div)
    then show ?thesis using True Pair by (simp add: rnd_pos_def Let_def power_int_def)
  next
    case False
    have p: "2 powi ulp_exp x = 1 / (2 ^ nat (- ulp_exp x) :: rat)"
      using False by (simp add: power_int_def power_one_over)
    have "x / 2 powi ulp_exp x = of_int (n * 2 ^ nat (- ulp_exp x)) / of_int d"
      unfolding p using q by simp
    then have "round_half_even (x / 2 powi ulp_exp x) = round_div (n * 2 ^ nat (- ulp_exp x)) d"
      using q by (simp only: round_half_even_div)
    then show ?thesis using False Pair by (simp add: rnd_pos_def Let_def p)
  qed
qed

end
