(* ===== verification/Rates.thy ===== *)
theory Rates
  imports Float64
begin

text \<open>
  The pay-per-share rate and the caches it is published through:
  \<open>pool-core/src/types.rs\<close> (\<open>PpsRate\<close>), \<open>pool-core/src/pps.rs\<close>
  (\<open>compute\<close>) and \<open>pool-core/src/cache.rs\<close> (\<open>RateCache\<close>, \<open>FeeCache\<close>,
  \<open>effective_pool_fee\<close>). All arithmetic is the rounded \<open>f64\<close> arithmetic of
  the source.
\<close>

section \<open>The rate of types.rs\<close>

record PpsRate =
  atomic_xmr_per_diff :: f64
  effective_from :: int

definition PpsRate_credit :: "PpsRate \<Rightarrow> u64 \<Rightarrow> u128" where
  "PpsRate_credit r diff =
     (let raw = fmul (atomic_xmr_per_diff r) (f64_of_word diff)
      in if flt raw (Fin 0) then 0 else f64_to_word raw)"

section \<open>The rate formula of pps.rs\<close>

record PpsInputs =
  block_reward_atomic :: f64
  network_difficulty :: f64
  upstream_fee :: f64
  pool_fee :: f64
  risk_buffer :: f64
  operational_cost_atomic_per_second :: f64
  pool_hashrate :: f64

record PpsBreakdown =
  raw_per_diff :: f64
  after_margin :: f64
  op_cost_term :: f64
  net_rate :: f64
  fee_per_diff :: f64

definition compute :: "PpsInputs \<Rightarrow> PpsBreakdown" where
  "compute i =
     (let net = fmax (network_difficulty i) (Fin 1);
          hash = fmax (pool_hashrate i) (Fin 1);
          raw = fdiv (fmul (block_reward_atomic i) (fsub (Fin 1) (upstream_fee i))) net;
          margin = fmul raw (fsub (fsub (Fin 1) (pool_fee i)) (risk_buffer i));
          op = fdiv (operational_cost_atomic_per_second i) hash;
          rt = fmax (fsub margin op) (Fin 0);
          fee = fmul raw (fmax (pool_fee i) (Fin 0))
      in \<lparr>raw_per_diff = raw, after_margin = margin, op_cost_term = op, net_rate = rt,
          fee_per_diff = fee\<rparr>)"

section \<open>The caches of cache.rs\<close>

record RateCache =
  rate_bits :: f64
  rate_fee_bits :: f64
  rate_set_at_unix :: int

definition RateCache_new :: RateCache where
  "RateCache_new = \<lparr>rate_bits = Fin 0, rate_fee_bits = Fin 0, rate_set_at_unix = 0\<rparr>"

definition RateCache_get :: "RateCache \<Rightarrow> f64" where
  "RateCache_get c = rate_bits c"

definition fee_rate :: "RateCache \<Rightarrow> f64" where
  "fee_rate c = rate_fee_bits c"

definition set_fee_rate :: "f64 \<Rightarrow> RateCache \<Rightarrow> RateCache" where
  "set_fee_rate fee c = c\<lparr>rate_fee_bits := fee\<rparr>"

definition RateCache_set :: "f64 \<Rightarrow> int \<Rightarrow> RateCache \<Rightarrow> RateCache" where
  "RateCache_set r now_unix c = c\<lparr>rate_bits := r, rate_set_at_unix := now_unix\<rparr>"

record FeeCache =
  fee_cache_bits :: f64

definition FeeCache_new :: "f64 \<Rightarrow> FeeCache" where
  "FeeCache_new initial = \<lparr>fee_cache_bits = initial\<rparr>"

definition FeeCache_get :: "FeeCache \<Rightarrow> f64" where
  "FeeCache_get c = fee_cache_bits c"

definition FeeCache_set :: "f64 \<Rightarrow> FeeCache \<Rightarrow> FeeCache" where
  "FeeCache_set fee c = c\<lparr>fee_cache_bits := fee\<rparr>"

definition f99 :: f64 where "f99 = f64_round (99 / 100)"

definition effective_pool_fee :: "u128 \<Rightarrow> u128 \<Rightarrow> u128 \<Rightarrow> f64 \<Rightarrow> f64 \<Rightarrow> f64" where
  "effective_pool_fee reservoir_wei critical_wei healthy_wei fee_min fee_max =
     (let (lo, hi) = (if fle fee_min fee_max then (fee_min, fee_max) else (fee_max, fee_min))
      in if healthy_wei \<le> critical_wei then fclamp (Fin 0) f99 hi
         else
           let p = (if reservoir_wei \<ge> healthy_wei then Fin 0
                    else if reservoir_wei \<le> critical_wei then Fin 1
                    else fdiv (f64_of_word (healthy_wei - reservoir_wei))
                              (f64_of_word (healthy_wei - critical_wei)))
           in fclamp (Fin 0) f99 (fadd lo (fmul p (fsub hi lo))))"

section \<open>Rounding error\<close>

lemma round_half_even_upper: "of_int (round_half_even x) \<le> x + 1 / 2"
  by (auto simp: round_half_even_def Let_def) linarith+

lemma rnd_pos_upper:
  assumes "0 < x" shows "rnd_pos x \<le> x * (1 + 1 / 2 ^ 53) + 2 powi (- 1075)"
proof -
  define e where "e = ulp_exp x"
  have "rnd_pos x \<le> (x / 2 powi e + 1 / 2) * 2 powi e"
    unfolding rnd_pos_def Let_def e_def [symmetric]
    by (rule mult_right_mono [OF round_half_even_upper]) simp
  also have "\<dots> = x + 2 powi e / 2" by (simp add: algebra_simps)
  also have "2 powi e / 2 \<le> x / 2 ^ 53 + 2 powi (- 1075)"
  proof (cases "e = - 1074")
    case True
    have "(2 :: rat) powi (- 1074) / 2 = 2 powi (- 1075)" by (simp add: power_int_minus)
    with True assms show ?thesis by simp
  next
    case False
    then have "rat_log2 x = e + 52" by (auto simp: e_def ulp_exp_def)
    then have "2 powi (e + 52) \<le> x" using rat_log2_bounds(1) [OF assms] by simp
    then have "2 powi e / 2 \<le> x / 2 ^ 53" by (simp add: power_int_add)
    then show ?thesis by (simp add: add_increasing2)
  qed
  finally show ?thesis by (simp add: algebra_simps)
qed

lemma rnd_upper:
  assumes "0 \<le> x" shows "rnd x \<le> x * (1 + 1 / 2 ^ 53) + 2 powi (- 1075)"
proof (cases "x = 0")
  case False
  with assms show ?thesis using rnd_pos_upper [of x] by (simp add: rnd_def)
qed (simp add: rnd_def)

section \<open>What the formula can return\<close>

text \<open>Operator settings and measurements for which the formula is meant: finite
  values, fees and buffer in the unit interval, amounts and costs of any
  realistic size.\<close>

definition pps_sane :: "PpsInputs \<Rightarrow> bool" where
  "pps_sane i \<longleftrightarrow>
     (\<exists>rw nd uf pf rb oc hr.
        i = \<lparr>block_reward_atomic = Fin rw, network_difficulty = Fin nd, upstream_fee = Fin uf,
             pool_fee = Fin pf, risk_buffer = Fin rb,
             operational_cost_atomic_per_second = Fin oc, pool_hashrate = Fin hr\<rparr>
        \<and> 0 \<le> rw \<and> rw \<le> 2 ^ 100 \<and> 0 \<le> uf \<and> uf \<le> 1 \<and> 0 \<le> pf \<and> pf \<le> 1
        \<and> 0 \<le> rb \<and> rb \<le> 1 \<and> 0 \<le> oc \<and> oc \<le> 2 ^ 100)"

definition fin_val :: "f64 \<Rightarrow> rat" where
  "fin_val a = (case a of Fin x \<Rightarrow> x | _ \<Rightarrow> 0)"

lemma fin_val_Fin [simp]: "fin_val (Fin x) = x"
  by (simp add: fin_val_def)

lemma pow_small: "\<bar>x :: rat\<bar> \<le> 2 ^ 100 \<Longrightarrow> \<bar>x\<bar> \<le> 2 ^ 1000"
  using power_increasing [of 100 1000 "2 :: rat"] by linarith

lemma unit_small: "0 \<le> x \<Longrightarrow> x \<le> 1 \<Longrightarrow> \<bar>x :: rat\<bar> \<le> 2 ^ 100"
  using one_le_power [of "2 :: rat" 100] by linarith

lemma rnd_unit:
  assumes "0 \<le> x" "x \<le> 1" shows "0 \<le> rnd x" and "rnd x \<le> 1"
  using assms by (auto intro: b64.rd_nonneg b64.rd_le [OF repr_one])

lemma rnd_small:
  assumes "0 \<le> x" "x \<le> 2 ^ 100" shows "0 \<le> rnd x" and "rnd x \<le> 2 ^ 100"
  using assms b64.rd_le [of "2 powi 100" x] repr_pow2 [of 100]
  by (auto intro: b64.rd_nonneg)

lemma compute_values:
  assumes "pps_sane i"
  obtains r a oc pf rb where
    "pool_fee i = Fin pf" "risk_buffer i = Fin rb" "0 \<le> pf" "pf \<le> 1" "0 \<le> rb" "rb \<le> 1"
    "0 \<le> r" "r \<le> 2 ^ 100" "repr r" "0 \<le> oc"
    "a = rnd (r * rnd (rnd (1 - pf) - rb))"
    "compute i = \<lparr>raw_per_diff = Fin r, after_margin = Fin a, op_cost_term = Fin oc,
       net_rate = Fin (max (rnd (a - oc)) 0), fee_per_diff = Fin (rnd (r * pf))\<rparr>"
proof -
  obtain rw nd uf pf rb oc hr where
    i: "i = \<lparr>block_reward_atomic = Fin rw, network_difficulty = Fin nd, upstream_fee = Fin uf,
             pool_fee = Fin pf, risk_buffer = Fin rb,
             operational_cost_atomic_per_second = Fin oc, pool_hashrate = Fin hr\<rparr>"
    and rw: "0 \<le> rw" "rw \<le> 2 ^ 100" and uf: "0 \<le> uf" "uf \<le> 1" and pf: "0 \<le> pf" "pf \<le> 1"
    and rb: "0 \<le> rb" "rb \<le> 1" and oc: "0 \<le> oc" "oc \<le> 2 ^ 100"
    using assms unfolding pps_sane_def by blast
  define g where "g = rnd (1 - uf)"
  have g: "0 \<le> g" "g \<le> 1" using rnd_unit [of "1 - uf"] uf by (auto simp: g_def)
  have fg: "fsub (Fin 1) (Fin uf) = Fin g"
    using uf by (simp add: fsub_def g_def f64_round_Fin pow_small unit_small)
  have rwg: "0 \<le> rw * g" "rw * g \<le> 2 ^ 100"
    using rw g mult_mono [of rw "2 ^ 100" g 1] by auto
  define h where "h = rnd (rw * g)"
  have h: "0 \<le> h" "h \<le> 2 ^ 100" using rnd_small [OF rwg] by (simp_all add: h_def)
  have fh: "fmul (Fin rw) (Fin g) = Fin h"
    using rwg by (simp add: h_def f64_round_Fin pow_small)
  define n where "n = max nd 1"
  have n: "1 \<le> n" and fn: "fmax (Fin nd) (Fin 1) = Fin n" by (auto simp: n_def fmax_def)
  have hn: "0 \<le> h / n" "h / n \<le> 2 ^ 100"
    using h n mult_left_mono [of 1 n h] by (auto simp: divide_le_eq)
  define r where "r = rnd (h / n)"
  have r: "0 \<le> r" "r \<le> 2 ^ 100" "repr r"
    using rnd_small [OF hn] by (simp_all add: r_def repr_rnd)
  have fr: "fdiv (Fin h) (Fin n) = Fin r"
    using hn n by (simp add: r_def f64_round_Fin pow_small)
  define m where "m = rnd (rnd (1 - pf) - rb)"
  have pf1: "0 \<le> rnd (1 - pf)" "rnd (1 - pf) \<le> 1" using rnd_unit [of "1 - pf"] pf by auto
  have fm: "fsub (fsub (Fin 1) (Fin pf)) (Fin rb) = Fin m"
  proof -
    have "\<bar>rnd (1 - pf) - rb\<bar> \<le> 2 ^ 100"
      using pf1 rb one_le_power [of "2 :: rat" 100] by (auto simp: abs_le_iff)
    then show ?thesis
      using pf by (simp add: fsub_def m_def f64_round_Fin pow_small unit_small)
  qed
  have m: "- 1 \<le> m" "m \<le> 1"
    using pf1 rb unfolding m_def
    by (auto intro!: b64.rd_ge b64.rd_le simp: repr_one repr_uminus)
  define a where "a = rnd (r * m)"
  have rm: "\<bar>r * m\<bar> \<le> 2 ^ 100"
    using r m mult_left_mono [of m 1 r] mult_left_mono [of "- 1" m r] by (auto simp: abs_le_iff)
  have fa: "fmul (Fin r) (Fin m) = Fin a"
    using rm by (simp add: a_def f64_round_Fin pow_small)
  define k where "k = max hr 1"
  have k: "1 \<le> k" and fk: "fmax (Fin hr) (Fin 1) = Fin k" by (auto simp: k_def fmax_def)
  have ock: "0 \<le> oc / k" "oc / k \<le> 2 ^ 100"
    using oc k mult_left_mono [of 1 k oc] by (auto simp: divide_le_eq)
  define c where "c = rnd (oc / k)"
  have c: "0 \<le> c" "c \<le> 2 ^ 100" using rnd_small [OF ock] by (simp_all add: c_def)
  have fc: "fdiv (Fin oc) (Fin k) = Fin c"
    using ock k by (simp add: c_def f64_round_Fin pow_small)
  have "\<bar>a - c\<bar> \<le> 2 ^ 1000"
  proof -
    have "a \<le> r" using b64.rd_scale_le [OF r(3) r(1) m(2)] by (simp add: a_def mult.commute)
    moreover have "- r \<le> a" using r m mult_left_mono [of "- 1" m r] unfolding a_def
      by (intro b64.rd_ge) (auto simp: repr_uminus)
    moreover have "(2 :: rat) ^ 100 + 2 ^ 100 \<le> 2 ^ 1000" by simp
    ultimately show ?thesis using r c by (auto simp: abs_le_iff)
  qed
  then have fd: "fsub (Fin a) (Fin c) = Fin (rnd (a - c))"
    by (simp add: fsub_def f64_round_Fin)
  have rp: "0 \<le> r * pf" "r * pf \<le> 2 ^ 100"
    using r pf mult_mono [of r "2 ^ 100" pf 1] by auto
  have fp: "fmul (Fin r) (Fin (max pf 0)) = Fin (rnd (r * pf))"
    using rp pf by (simp add: max_def f64_round_Fin pow_small)
  have mx: "fmax (Fin z) (Fin 0) = Fin (max z 0)" for z by (simp add: fmax_def max_def)
  show thesis
  proof (rule that [of pf rb r c a])
    show "compute i = \<lparr>raw_per_diff = Fin r, after_margin = Fin a, op_cost_term = Fin c,
       net_rate = Fin (max (rnd (a - c)) 0), fee_per_diff = Fin (rnd (r * pf))\<rparr>"
      by (simp only: compute_def Let_def i PpsInputs.select_convs fg fh fn fr fm fa fk fc fd fp mx)
  qed (use i pf rb r c in \<open>simp_all add: a_def m_def\<close>)
qed

lemma rnd_unit_upper:
  assumes "0 \<le> x" "x \<le> 1" shows "rnd x \<le> x + 1 / 2 ^ 53 + 2 powi (- 1075)"
  using rnd_upper [of x] assms by (simp add: algebra_simps)

lemma rnd_mult_unit_upper:
  assumes "0 \<le> r" "0 \<le> x" "x \<le> 1"
  shows "rnd (r * x) \<le> r * x + r / 2 ^ 53 + 2 powi (- 1075)"
proof -
  have "r * x \<le> r" using assms by (simp add: mult_left_le)
  then have "r * x / 2 ^ 53 \<le> r / 2 ^ 53" by (rule divide_right_mono) simp
  then show ?thesis using rnd_upper [of "r * x"] assms by (simp add: algebra_simps)
qed

lemma solvent_split:
  assumes r: "1 / 2 ^ 900 \<le> r" and pf: "0 \<le> pf" and rb: "1 / 2 ^ 40 \<le> rb"
    and sum1: "pf + rb \<le> 1" and oc: "0 \<le> oc"
    and a: "a = rnd (r * rnd (rnd (1 - pf) - rb))"
  shows "max (rnd (a - oc)) 0 + rnd (r * pf) \<le> r * (1 - rb / 2)"
proof -
  define u t :: rat where "u = 1 / 2 ^ 53" and "t = 2 powi (- 1075)"
  define m where "m = rnd (rnd (1 - pf) - rb)"
  have r0: "0 \<le> r" using r by (rule order_trans [rotated]) simp
  have rb0: "0 \<le> rb" using rb by (rule order_trans [rotated]) simp
  have pf1: "pf \<le> 1" using sum1 rb0 by linarith
  have t0: "0 \<le> t" and u0: "0 \<le> u" by (simp_all add: t_def u_def)
  have tu: "t \<le> u" by (simp add: t_def u_def power_int_minus)
  have small_u: "24 * u \<le> rb" using rb by (rule order_trans [rotated]) (simp add: u_def)
  have "8 * t \<le> (1 / 2 ^ 900) * (1 / 2 ^ 40)" by (simp add: t_def power_int_minus)
  also have "\<dots> \<le> r * rb" using r rb r0 by (intro mult_mono) simp_all
  finally have small_t: "8 * t \<le> r * rb" .
  have fee: "rnd (r * pf) \<le> r * pf + r * u + t"
    using rnd_mult_unit_upper [OF r0 pf pf1] by (simp add: u_def t_def)
  have net: "max (rnd (a - oc)) 0 \<le> r * (1 - pf - rb) + r * (3 * u + 2 * t) + t"
  proof (cases "0 \<le> rnd (1 - pf) - rb")
    case True
    have m1: "rnd (1 - pf) \<le> 1 - pf + u + t"
      using rnd_unit_upper [of "1 - pf"] pf pf1 by (simp add: u_def t_def)
    have le1: "rnd (1 - pf) \<le> 1" using pf pf1 by (intro rnd_unit) simp_all
    have m2: "m \<le> rnd (1 - pf) - rb + u + t"
      using rnd_unit_upper [of "rnd (1 - pf) - rb"] True le1 rb0 by (simp add: m_def u_def t_def)
    have m01: "0 \<le> m" "m \<le> 1" using True le1 rb0 unfolding m_def by (intro rnd_unit; simp)+
    have "a \<le> r * m + r * u + t"
      using rnd_mult_unit_upper [OF r0 m01] by (simp add: a m_def u_def t_def)
    moreover have "r * m \<le> r * (1 - pf - rb + 2 * u + 2 * t)"
      using m1 m2 r0 by (intro mult_left_mono) linarith
    moreover have "rnd (a - oc) \<le> a" using oc unfolding a by (intro b64.rd_diff_le repr_rnd)
    moreover have "0 \<le> a" using r0 m01 unfolding a m_def [symmetric] by (intro b64.rd_nonneg) simp
    ultimately show ?thesis by (simp add: algebra_simps)
  next
    case False
    then have "m \<le> 0" unfolding m_def by (intro b64.rd_nonpos) simp
    then have "a \<le> 0" using r0 unfolding a m_def [symmetric]
      by (intro b64.rd_nonpos) (simp add: mult_nonneg_nonpos)
    then have "rnd (a - oc) \<le> 0" using oc by (intro b64.rd_nonpos) simp
    moreover have "0 \<le> r * (1 - pf - rb)" using r0 sum1 by simp
    moreover have "0 \<le> r * (3 * u + 2 * t)" using r0 u0 t0 by simp
    ultimately show ?thesis using t0 by simp
  qed
  have "r * (4 * u + 2 * t) \<le> r * (rb / 4)"
    using tu small_u r0 by (intro mult_left_mono) linarith
  then have "max (rnd (a - oc)) 0 + rnd (r * pf) \<le> r * (1 - rb) + r * (rb / 4) + 2 * t"
    using fee net by (simp add: algebra_simps)
  also have "\<dots> \<le> r * (1 - rb / 2)" using small_t by (simp add: algebra_simps)
  finally show ?thesis .
qed

lemma compute_rate_fee:
  assumes "pps_sane i"
  shows "\<exists>r n f. raw_per_diff (compute i) = Fin r \<and> net_rate (compute i) = Fin n
    \<and> fee_per_diff (compute i) = Fin f \<and> 0 \<le> n \<and> n \<le> r \<and> 0 \<le> f \<and> f \<le> r \<and> r \<le> 2 ^ 100"
  using assms
proof (rule compute_values)
  fix r a oc pf rb
  assume *: "0 \<le> pf" "pf \<le> 1" "0 \<le> rb" "rb \<le> 1" "0 \<le> r" "r \<le> 2 ^ 100" "repr r" "0 \<le> oc"
    "a = rnd (r * rnd (rnd (1 - pf) - rb))"
    and c: "compute i = \<lparr>raw_per_diff = Fin r, after_margin = Fin a, op_cost_term = Fin oc,
       net_rate = Fin (max (rnd (a - oc)) 0), fee_per_diff = Fin (rnd (r * pf))\<rparr>"
  have "rnd (1 - pf) \<le> 1" using * by (intro rnd_unit) simp_all
  then have "rnd (rnd (1 - pf) - rb) \<le> 1" using * by (intro b64.rd_le repr_one) simp
  then have "a \<le> r" using * b64.rd_scale_le [of r "rnd (rnd (1 - pf) - rb)"] by (simp add: mult.commute)
  moreover have "rnd (a - oc) \<le> a" using * by (intro b64.rd_diff_le) (simp_all add: repr_rnd)
  moreover have "rnd (r * pf) \<le> r" using * b64.rd_scale_le [of r pf] by (simp add: mult.commute)
  moreover have "0 \<le> rnd (r * pf)" using * by (intro b64.rd_nonneg) simp
  ultimately show ?thesis using c * by simp
qed

text \<open>C2: for sane settings, a risk buffer of at least \<open>2^-40\<close> and a pool fee and
  buffer that together do not exceed the whole, what the formula credits a miner
  per unit of difficulty plus what it accrues as the pool's fee stays below the
  raw value of that unit by at least half the risk buffer, rounding included.\<close>

theorem compute_solvent:
  assumes "pps_sane i" and "pool_fee i = Fin pf" and "risk_buffer i = Fin rb"
    and "1 / 2 ^ 40 \<le> rb" and "pf + rb \<le> 1"
    and "raw_per_diff (compute i) = Fin r" and "1 / 2 ^ 900 \<le> r"
  shows "\<exists>n f. net_rate (compute i) = Fin n \<and> fee_per_diff (compute i) = Fin f
    \<and> 0 \<le> n \<and> 0 \<le> f \<and> n + f \<le> r * (1 - rb / 2)"
  using assms(1)
proof (rule compute_values)
  fix r' a oc pf' rb'
  assume *: "pool_fee i = Fin pf'" "risk_buffer i = Fin rb'" "0 \<le> pf'" "0 \<le> r'" "0 \<le> oc"
    "a = rnd (r' * rnd (rnd (1 - pf') - rb'))"
    and c: "compute i = \<lparr>raw_per_diff = Fin r', after_margin = Fin a, op_cost_term = Fin oc,
       net_rate = Fin (max (rnd (a - oc)) 0), fee_per_diff = Fin (rnd (r' * pf'))\<rparr>"
  then have eq: "pf' = pf" "rb' = rb" "r' = r" using assms by simp_all
  have "max (rnd (a - oc)) 0 + rnd (r * pf) \<le> r * (1 - rb / 2)"
    using * assms by (intro solvent_split) (simp_all add: eq)
  moreover have "0 \<le> rnd (r * pf)" using * by (intro b64.rd_nonneg) (simp add: eq)
  ultimately show ?thesis using c by (simp add: eq)
qed

definition pps_example :: PpsInputs where
  "pps_example = \<lparr>block_reward_atomic = Fin 600000000000, network_difficulty = Fin 300000000000,
     upstream_fee = Fin 0, pool_fee = Fin (1 / 4), risk_buffer = Fin (1 / 8),
     operational_cost_atomic_per_second = Fin 10000, pool_hashrate = Fin 1000000\<rparr>"

theorem compute_solvent_witness:
  "net_rate (compute pps_example) = Fin (fin_val (net_rate (compute pps_example)))
   \<and> fin_val (net_rate (compute pps_example)) + fin_val (fee_per_diff (compute pps_example))
       \<le> 2 * (1 - (1 / 8) / 2)"
proof -
  have s: "pps_sane pps_example" unfolding pps_sane_def pps_example_def
    by (rule exI [of _ 600000000000], rule exI [of _ 300000000000], rule exI [of _ 0],
        rule exI [of _ "1 / 4"], rule exI [of _ "1 / 8"], rule exI [of _ 10000],
        rule exI [of _ 1000000]) simp
  have r: "raw_per_diff (compute pps_example) = Fin 2" by code_simp
  obtain n f where "net_rate (compute pps_example) = Fin n" "fee_per_diff (compute pps_example) = Fin f"
    "n + f \<le> 2 * (1 - (1 / 8) / 2)"
    using compute_solvent [OF s, of "1 / 4" "1 / 8" 2] r by (auto simp: pps_example_def)
  then show ?thesis by simp
qed

section \<open>The adaptive fee\<close>

lemma fclamp_mono:
  assumes "fle a b" "fle (Fin l) (Fin h)"
  shows "fle (fclamp (Fin l) (Fin h) a) (fclamp (Fin l) (Fin h) b)"
  using assms by (cases a; cases b) (auto simp: fclamp_def Let_def)

lemma word_rat_ge_one: "c < h \<Longrightarrow> 1 \<le> rnd (word_rat (h - c))"
proof (rule b64.rd_ge [OF repr_one])
  assume "c < h"
  then have "h - c \<noteq> 0" by simp
  then have "uint (h - c) \<noteq> 0" by (simp add: unsigned_eq_0_iff)
  with uint_ge_0 [of "h - c"] have "1 \<le> uint (h - c)" by linarith
  then show "1 \<le> word_rat (h - c)" unfolding word_rat_def of_int_1_le_iff .
qed

lemma word_sub_antimono: "(r :: 'a::len word) \<le> r' \<Longrightarrow> r' \<le> h \<Longrightarrow> h - r' \<le> h - r"
  unfolding word_le_nat_alt by (simp add: unat_sub word_le_nat_alt)

lemma f64_of_word_u128: "f64_of_word (w :: u128) = Fin (rnd (word_rat w))"
  by (rule f64_of_word_Fin) simp

definition fee_pressure :: "u128 \<Rightarrow> u128 \<Rightarrow> u128 \<Rightarrow> rat" where
  "fee_pressure r c h =
     (if r \<ge> h then 0 else if r \<le> c then 1
      else rnd (rnd (word_rat (h - r)) / rnd (word_rat (h - c))))"

lemma fee_pressure_unit:
  assumes "c < h" shows "0 \<le> fee_pressure r c h" "fee_pressure r c h \<le> 1"
proof -
  have *: "rnd (word_rat (h - r)) \<le> rnd (word_rat (h - c))" if "c < r" "r < h"
    using that by (intro b64.rd_mono word_rat_mono word_sub_antimono) simp_all
  show "0 \<le> fee_pressure r c h" "fee_pressure r c h \<le> 1"
    using * word_rat_ge_one [OF assms] rnd_word_rat_nonneg [of "h - r"]
    by (auto simp: fee_pressure_def not_le intro!: b64.rd_nonneg b64.rd_le [OF repr_one])
qed

lemma fee_pressure_antimono:
  assumes "c < h" "r \<le> r'" shows "fee_pressure r' c h \<le> fee_pressure r c h"
proof (cases "c < r \<and> r' < h")
  case True
  then have "rnd (word_rat (h - r')) \<le> rnd (word_rat (h - r))"
    using assms by (intro b64.rd_mono word_rat_mono word_sub_antimono) (auto intro: less_imp_le)
  with True assms word_rat_ge_one [OF assms(1)] show ?thesis
    by (auto simp: fee_pressure_def intro!: b64.rd_mono divide_right_mono)
next
  case False
  then show ?thesis using assms fee_pressure_unit [OF assms(1), of r] fee_pressure_unit [OF assms(1), of r']
    by (auto simp: fee_pressure_def not_less)
qed

lemma fee_pressure_value:
  assumes "c < h"
  shows "(if r \<ge> h then Fin 0 else if r \<le> c then Fin 1
          else fdiv (f64_of_word (h - r)) (f64_of_word (h - c))) = Fin (fee_pressure r c h)"
proof -
  let ?q = "rnd (word_rat (h - r)) / rnd (word_rat (h - c))"
  have "fdiv (Fin (rnd (word_rat (h - r)))) (Fin (rnd (word_rat (h - c)))) = Fin (rnd ?q)"
    if "c < r" "r < h"
  proof -
    have "rnd (word_rat (h - r)) \<le> rnd (word_rat (h - c))"
      using that by (intro b64.rd_mono word_rat_mono word_sub_antimono) simp_all
    then have "0 \<le> ?q" "?q \<le> 1"
      using word_rat_ge_one [OF assms] rnd_word_rat_nonneg [of "h - r"] by simp_all
    then have "\<bar>?q\<bar> \<le> 2 ^ 1000" by (intro pow_small unit_small)
    with word_rat_ge_one [OF assms] show ?thesis by (simp add: f64_round_Fin)
  qed
  then show ?thesis by (auto simp del: fdiv.simps simp: fee_pressure_def f64_of_word_u128 not_le)
qed

definition fee_line :: "rat \<Rightarrow> rat \<Rightarrow> rat \<Rightarrow> rat" where
  "fee_line lo hi q = rnd (lo + rnd (q * rnd (hi - lo)))"

lemma fee_line_mono: "lo \<le> hi \<Longrightarrow> p \<le> q \<Longrightarrow> fee_line lo hi p \<le> fee_line lo hi q"
  unfolding fee_line_def
  by (intro b64.rd_mono add_left_mono mult_right_mono b64.rd_nonneg) simp_all

lemma fee_line_value:
  assumes "0 \<le> lo" "lo \<le> hi" "hi \<le> 2 ^ 90" "0 \<le> q" "q \<le> 1"
  shows "fadd (Fin lo) (fmul (Fin q) (fsub (Fin hi) (Fin lo))) = Fin (fee_line lo hi q)"
proof -
  have b: "x \<le> 2 ^ 90 \<Longrightarrow> 0 \<le> x \<Longrightarrow> \<bar>x\<bar> \<le> 2 ^ 1000" for x :: rat
    using power_increasing [of 90 1000 "2 :: rat"] by linarith
  have le: "0 \<le> rnd x \<and> rnd x \<le> 2 ^ 90" if "0 \<le> x" "x \<le> 2 ^ 90" for x
    using that b64.rd_le [of "2 powi 90" x] repr_pow2 [of 90] by (auto intro: b64.rd_nonneg)
  have d: "0 \<le> hi - lo" "hi - lo \<le> 2 ^ 90" using assms by simp_all
  have m: "0 \<le> q * rnd (hi - lo)" "q * rnd (hi - lo) \<le> 2 ^ 90"
    using le [OF d] assms mult_mono [of q 1 "rnd (hi - lo)" "2 ^ 90"] by simp_all
  have "\<bar>lo + rnd (q * rnd (hi - lo))\<bar> \<le> 2 ^ 1000"
    using le [OF m] assms power_increasing [of 91 1000 "2 :: rat"] by simp
  then show ?thesis using b [OF d(2,1)] b [OF m(2,1)]
    by (simp add: fsub_def fee_line_def f64_round_Fin)
qed

lemma effective_pool_fee_value:
  assumes "0 \<le> lo" "lo \<le> hi" "hi \<le> 2 ^ 90" "c < h"
  shows "effective_pool_fee r c h (Fin lo) (Fin hi)
    = fclamp (Fin 0) f99 (Fin (fee_line lo hi (fee_pressure r c h)))"
proof -
  have "\<not> h \<le> c" using assms(4) by simp
  moreover have "fle (Fin lo) (Fin hi)" using assms(2) by simp
  ultimately show ?thesis
    unfolding effective_pool_fee_def Let_def using assms(1-3) fee_pressure_unit [OF assms(4), of r]
    by (simp only: if_True if_False prod.case fee_pressure_value [OF assms(4)] fee_line_value)
qed

lemma f99_Fin: "f99 = Fin (rnd (99 / 100))"
  unfolding f99_def by (rule f64_round_Fin) (use one_le_power [of "2 :: rat" 1000] in linarith)

lemma f99_nonneg: "0 \<le> rnd (99 / 100)"
  by (rule b64.rd_nonneg) simp

lemma effective_pool_fee_swap:
  "effective_pool_fee r c h (Fin a) (Fin b) = effective_pool_fee r c h (Fin (min a b)) (Fin (max a b))"
  by (simp add: effective_pool_fee_def min_def max_def)

text \<open>C3: take two finite fee settings between 0 and \<open>2 ^ 90\<close>, in either order. The adaptive
  pool fee lies in [0, 0.99] whatever the reservoir and the window, and never rises when
  the reservoir grows: rent pressure only ever raises the fee. In a proper window, with the critical level
  below the healthy one, it is the clamped lower fee once the reservoir is healthy; in a degenerate
  window it is the clamped higher fee whatever the reservoir.\<close>

theorem effective_pool_fee_ramp:
  assumes "0 \<le> fee_min" "fee_min \<le> 2 ^ 90" "repr fee_min" "0 \<le> fee_max" "fee_max \<le> 2 ^ 90" "repr fee_max"
  shows "fle (Fin 0) (effective_pool_fee r critical healthy (Fin fee_min) (Fin fee_max))
    \<and> fle (effective_pool_fee r critical healthy (Fin fee_min) (Fin fee_max)) f99
    \<and> (r \<le> r' \<longrightarrow> fle (effective_pool_fee r' critical healthy (Fin fee_min) (Fin fee_max))
                     (effective_pool_fee r critical healthy (Fin fee_min) (Fin fee_max)))
    \<and> (critical < healthy \<and> healthy \<le> r \<longrightarrow>
         effective_pool_fee r critical healthy (Fin fee_min) (Fin fee_max) = fclamp (Fin 0) f99 (Fin (min fee_min fee_max)))
    \<and> (healthy \<le> critical \<longrightarrow>
         effective_pool_fee r critical healthy (Fin fee_min) (Fin fee_max) = fclamp (Fin 0) f99 (Fin (max fee_min fee_max)))"
proof -
  define lo hi where "lo = min fee_min fee_max" and "hi = max fee_min fee_max"
  have b: "0 \<le> lo" "lo \<le> hi" "hi \<le> 2 ^ 90" "repr lo"
    using assms by (auto simp: lo_def hi_def min_def max_def)
  have e: "effective_pool_fee q critical healthy (Fin fee_min) (Fin fee_max) = effective_pool_fee q critical healthy (Fin lo) (Fin hi)" for q
    unfolding lo_def hi_def by (rule effective_pool_fee_swap)
  show ?thesis
  proof (cases "critical < healthy")
    case True
    have mono: "fle (Fin (fee_line lo hi (fee_pressure r' critical healthy)))
                    (Fin (fee_line lo hi (fee_pressure r critical healthy)))" if "r \<le> r'"
      using b True that by (simp add: fee_line_mono fee_pressure_antimono)
    have "fee_line lo hi (fee_pressure r critical healthy) = lo" if "healthy \<le> r"
      using that b by (simp add: fee_pressure_def fee_line_def b64.rd_zero b64.rd_fixed)
    then show ?thesis
      using fclamp_mono [OF mono, of 0 "rnd (99 / 100)"] f99_nonneg True
        fclamp_bounds [of "Fin 0" "Fin (rnd (99 / 100))" "Fin (fee_line lo hi (fee_pressure r critical healthy))"]
      unfolding e lo_def [symmetric] hi_def [symmetric]
      by (auto simp: effective_pool_fee_value [OF b(1-3) True] f99_Fin)
  next
    case False
    then have "healthy \<le> critical" by simp
    then have "effective_pool_fee q critical healthy (Fin lo) (Fin hi) = fclamp (Fin 0) f99 (Fin hi)" for q
      using b(2) by (simp add: effective_pool_fee_def)
    then show ?thesis
      using fclamp_bounds [of "Fin 0" "Fin (rnd (99 / 100))" "Fin hi"] f99_nonneg False
        fclamp_mono [of "Fin hi" "Fin hi" 0 "rnd (99 / 100)"]
      unfolding e lo_def [symmetric] hi_def [symmetric] by (auto simp: f99_Fin)
  qed
qed

theorem effective_pool_fee_ramp_witness:
  "fle (effective_pool_fee 90 10 110 (Fin (1 / 64)) (Fin (1 / 8))) f99
   \<and> effective_pool_fee 200 10 110 (Fin (1 / 8)) (Fin (1 / 64)) = fclamp (Fin 0) f99 (Fin (1 / 64))
   \<and> effective_pool_fee 200 110 10 (Fin (1 / 64)) (Fin (1 / 8)) = fclamp (Fin 0) f99 (Fin (1 / 8))
   \<and> fle (effective_pool_fee 90 10 110 (Fin (1 / 64)) (Fin (1 / 8)))
         (effective_pool_fee 40 10 110 (Fin (1 / 64)) (Fin (1 / 8)))"
proof -
  have "(2 :: rat) powi (- 6) = 1 / 64" "(2 :: rat) powi (- 3) = 1 / 8" by (simp_all add: power_int_def power_divide)
  moreover have "repr (2 powi (- 6))" "repr (2 powi (- 3))" by (rule repr_pow2, simp)+
  ultimately have r: "repr (1 / 64)" "repr (1 / 8)" by (simp_all only:)
  have h: "(0 :: rat) \<le> 1 / 64" "(1 / 64 :: rat) \<le> 2 ^ 90" "(0 :: rat) \<le> 1 / 8" "(1 / 8 :: rat) \<le> 2 ^ 90"
    "(10 :: u128) < 110" "(10 :: u128) \<le> 110" "(40 :: u128) \<le> 90" "(110 :: u128) \<le> 200"
    "min (1 / 8) (1 / 64) = (1 / 64 :: rat)" "max (1 / 64) (1 / 8) = (1 / 8 :: rat)" by simp_all
  note up = effective_pool_fee_ramp [OF h(1,2) r(1) h(3,4) r(2)]
    and down = effective_pool_fee_ramp [OF h(3,4) r(2) h(1,2) r(1)]
  show ?thesis
    using up [of 90 10 110 90] down [of 200 10 110 200] up [of 200 110 10 200] up [of 40 10 110 90] h(5-10) by (simp only:)
qed

end
