(* ===== verification/Redemption.thy ===== *)
theory Redemption
  imports Prelude
begin

text \<open>
  Payout stamping (\<open>pool-core/src/redemption.rs\<close>): the redemption id goes into the
  low sixteen bits of the amount paid, so that a wallet restored from its seed
  still shows which redemptions it paid.
\<close>

definition STAMP_BITS :: nat where "STAMP_BITS = 16"

definition STAMP_MOD :: u128 where "STAMP_MOD = push_bit STAMP_BITS 1"

definition stamp_tag :: "u64 \<Rightarrow> u128" where
  "stamp_tag i = ucast i mod STAMP_MOD"

definition stamp_amount :: "u128 \<Rightarrow> u64 \<Rightarrow> u128" where
  "stamp_amount payout i =
     (let tag = stamp_tag i;
          base = payout AND NOT (STAMP_MOD - 1);
          stamped = base OR tag
      in if stamped > payout then stamped - STAMP_MOD else stamped)"

definition matches_stamp :: "u128 \<Rightarrow> u64 \<Rightarrow> bool" where
  "matches_stamp amount i \<longleftrightarrow> amount mod STAMP_MOD = stamp_tag i"

section \<open>The stamp on the naturals\<close>

lemma STAMP_MOD_eq: "STAMP_MOD = 65536"
  by (simp add: STAMP_MOD_def STAMP_BITS_def)

lemma unat_STAMP_MOD [word_unat]: "unat STAMP_MOD = 65536"
  by (simp add: STAMP_MOD_eq)

lemma unat_stamp_tag [word_unat]: "unat (stamp_tag i) = unat i mod 65536"
  by (simp add: stamp_tag_def STAMP_MOD_eq unat_mod unat_ucast_up)

lemma stamp_amount_nat:
  assumes "STAMP_MOD \<le> p"
  shows "unat (stamp_amount p i) =
     (let s = unat p - unat p mod 65536 + unat i mod 65536
      in if unat p < s then s - 65536 else s)"
proof -
  let ?s = "(p AND NOT (STAMP_MOD - 1)) OR stamp_tag i"
  have m: "STAMP_MOD - 1 = mask 16" by (simp add: STAMP_MOD_eq mask_numeral)
  have s: "unat ?s = unat p - unat p mod 65536 + unat i mod 65536"
    using unat_or_low [of "stamp_tag i" 16 p] by (simp add: m unat_stamp_tag)
  have "65536 \<le> unat p"
    using assms by (simp add: word_le_nat_alt unat_STAMP_MOD)
  then have "65536 \<le> unat p - unat p mod 65536"
    by (simp add: minus_mod_eq_mult_div div_greater_zero_iff Suc_le_eq)
  then have "STAMP_MOD \<le> ?s"
    using s by (simp add: word_le_nat_alt unat_STAMP_MOD)
  then show ?thesis
    using s by (auto simp: stamp_amount_def Let_def word_less_nat_alt unat_sub unat_STAMP_MOD)
qed

lemma matches_stamp_nat:
  "matches_stamp a i \<longleftrightarrow> unat a mod 65536 = unat i mod 65536"
  by (simp add: matches_stamp_def word_unat_eq_iff unat_mod unat_stamp_tag unat_STAMP_MOD)

lemma low_bits_replaced:
  fixes p t :: nat
  assumes p: "65536 \<le> p" and t: "t < 65536"
  defines "s \<equiv> p - p mod 65536 + t"
  defines "r \<equiv> (if p < s then s - 65536 else s)"
  shows "r \<le> p" and "r mod 65536 = t" and "p - r < 65536" and "0 < r"
proof -
  define q where "q = p div 65536"
  have pq: "p = 65536 * q + p mod 65536" and q: "1 \<le> q"
    using p by (simp_all add: q_def Suc_le_eq div_greater_zero_iff)
  then have s: "s = 65536 * q + t" by (simp add: s_def)
  have m: "p mod 65536 < 65536" by simp
  show "r \<le> p" and "p - r < 65536" and "0 < r"
    using pq q s t m by (auto simp: r_def)
  obtain k where k: "q = Suc k" using q by (cases q) auto
  have "s - 65536 = 65536 * k + t" by (simp add: s k)
  then show "r mod 65536 = t" using s t by (simp add: r_def)
qed

lemma stamp_amount_bounds:
  assumes "STAMP_MOD \<le> p"
  shows "stamp_amount p i \<le> p"
    and "unat p - unat (stamp_amount p i) < 65536"
    and "0 < stamp_amount p i"
    and "unat (stamp_amount p i) mod 65536 = unat i mod 65536"
proof -
  have p: "65536 \<le> unat p"
    using assms by (simp add: word_le_nat_alt unat_STAMP_MOD)
  have t: "unat i mod 65536 < 65536" by simp
  note low = low_bits_replaced [OF p t] and st = stamp_amount_nat [OF assms, unfolded Let_def]
  show "stamp_amount p i \<le> p"
    unfolding word_le_nat_alt st by (rule low(1))
  show "unat p - unat (stamp_amount p i) < 65536"
    unfolding st by (rule low(3))
  show "0 < stamp_amount p i"
    unfolding word_less_nat_alt st using low(4) by (simp only: unat_0)
  show "unat (stamp_amount p i) mod 65536 = unat i mod 65536"
    unfolding st by (rule low(2))
qed

lemma matches_stamp_amount:
  "STAMP_MOD \<le> p \<Longrightarrow>
     matches_stamp (stamp_amount p i) j \<longleftrightarrow> unat i mod 65536 = unat j mod 65536"
  by (simp add: matches_stamp_nat stamp_amount_bounds(4))

section \<open>The contract of the stamp\<close>

text \<open>C1: for every payout of at least one stamp unit, the stamped amount never
  exceeds the payout, gives up less than one stamp unit of it, is still a
  positive amount, carries the id it was stamped with, and carries another id
  exactly when the two ids agree modulo 65536.\<close>

theorem stamp_amount_correct:
  assumes "STAMP_MOD \<le> payout"
  shows "stamp_amount payout i \<le> payout
    \<and> unat payout - unat (stamp_amount payout i) < unat STAMP_MOD
    \<and> 0 < stamp_amount payout i
    \<and> matches_stamp (stamp_amount payout i) i
    \<and> (matches_stamp (stamp_amount payout i) j \<longleftrightarrow> stamp_tag i = stamp_tag j)"
  using stamp_amount_bounds [OF assms] matches_stamp_amount [OF assms]
  by (simp add: unat_STAMP_MOD word_unat_eq_iff unat_stamp_tag)

theorem stamp_amount_correct_witness:
  "STAMP_MOD \<le> (196609 :: u128) \<and> stamp_amount 196609 5 = 131077
    \<and> matches_stamp (stamp_amount 196609 5) 5
    \<and> (matches_stamp (stamp_amount 196609 5) 65541 \<longleftrightarrow> stamp_tag 5 = stamp_tag 65541)"
proof -
  have h: "STAMP_MOD \<le> (196609 :: u128)" by (simp add: STAMP_MOD_eq)
  have e: "stamp_amount 196609 5 = 131077"
    by (simp add: stamp_amount_def stamp_tag_def STAMP_MOD_eq)
  show ?thesis using stamp_amount_correct [OF h, of 5 65541] h e by simp
qed

end
