(* ===== verification/Store.thy ===== *)
theory Store
  imports Float64
begin

text \<open>
  \<open>pool-core/src/store.rs\<close>: the persistent state. Redis is a record with one
  field per key of the store's layout; every operation is a function on it. A
  round trip takes its outcome as an argument: it succeeds, it fails before the
  server executed it, or the server executed it and the reply was lost. Numbers
  inside Lua scripts are binary64, so a script sees a stored integer through
  \<open>lua_num\<close>. \<open>INCRBY\<close> and \<open>DECRBY\<close> fail instead of overflowing.
\<close>

section \<open>Data\<close>

datatype io = IoOk | IoLost | IoFail

datatype RedemptionState = Pending | InFlight | Sent | Paused | Failed

record TreasurySnapshot =
  monero_balance_atomic :: u128
  monero_unlocked_atomic :: u128
  pending_redemptions_atomic :: u128
  pending_redemptions_count :: u64
  mining_pool_token_total_supply :: u128
  as_of_unix :: int

record 'addr stream_entry =
  en_no :: nat
  en_id :: u64
  en_from :: 'addr
  en_amount :: int
  en_xmr_addr :: string

record 'addr Store =
  st_earned :: "'addr \<Rightarrow> int option"
  st_last_voucher :: "'addr \<Rightarrow> int option"
  st_fee_accrued :: "int option"
  st_state :: "u64 \<Rightarrow> RedemptionState option"
  st_txid :: "u64 \<Rightarrow> string option"
  st_amount :: "u64 \<Rightarrow> int option"
  st_pending_atomic :: "int option"
  st_pending_count :: "int option"
  st_stream :: "'addr stream_entry list"
  st_next_no :: nat
  st_group_next :: nat
  st_pel :: "(nat \<times> int) list"
  st_cursors :: "string \<Rightarrow> u64 option"
  st_snapshot :: "TreasurySnapshot option"

record BalanceState =
  bs_earned :: int
  bs_last_voucher_cumulative :: int

definition BALANCE_TTL_SECS :: int where "BALANCE_TTL_SECS = 30 * 24 * 3600"

section \<open>Redis\<close>

text \<open>\<open>round_trip io f s\<close>: \<open>f\<close> is the server's command, returning its reply or an
  error reply.\<close>

definition round_trip :: "io \<Rightarrow> ('s \<Rightarrow> 'r option \<times> 's) \<Rightarrow> 's \<Rightarrow> 'r option \<times> 's" where
  "round_trip io f s =
     (case io of IoOk \<Rightarrow> f s | IoLost \<Rightarrow> (None, snd (f s)) | IoFail \<Rightarrow> (None, s))"

definition incr_by :: "int option \<Rightarrow> int \<Rightarrow> int option" where
  "incr_by cur d = (let t = (case cur of None \<Rightarrow> 0 | Some v \<Rightarrow> v) + d in if in_i64 t then Some t else None)"

definition lua_num :: "int \<Rightarrow> int" where
  "lua_num x = \<lfloor>rnd (of_int x)\<rfloor>"

definition or_zero :: "int option \<Rightarrow> int" where
  "or_zero v = (case v of None \<Rightarrow> 0 | Some x \<Rightarrow> x)"

section \<open>Balances\<close>

definition add_earned :: "io \<Rightarrow> 'addr \<Rightarrow> int \<Rightarrow> 'addr Store \<Rightarrow> int option \<times> 'addr Store" where
  "add_earned io miner delta =
     round_trip io (\<lambda>s. case incr_by (st_earned s miner) delta of
        None \<Rightarrow> (None, s)
      | Some t \<Rightarrow> (Some t, s\<lparr>st_earned := (st_earned s)(miner := Some t)\<rparr>))"

definition earned :: "io \<Rightarrow> 'addr \<Rightarrow> 'addr Store \<Rightarrow> int option \<times> 'addr Store" where
  "earned io miner = round_trip io (\<lambda>s. (Some (or_zero (st_earned s miner)), s))"

definition add_fee_accrued :: "io \<Rightarrow> int \<Rightarrow> 'addr Store \<Rightarrow> int option \<times> 'addr Store" where
  "add_fee_accrued io delta =
     round_trip io (\<lambda>s. case incr_by (st_fee_accrued s) delta of
        None \<Rightarrow> (None, s)
      | Some t \<Rightarrow> (Some t, s\<lparr>st_fee_accrued := Some t\<rparr>))"

definition fee_accrued :: "io \<Rightarrow> 'addr Store \<Rightarrow> int option \<times> 'addr Store" where
  "fee_accrued io = round_trip io (\<lambda>s. (Some (or_zero (st_fee_accrued s)), s))"

definition last_voucher_cumulative :: "io \<Rightarrow> 'addr \<Rightarrow> 'addr Store \<Rightarrow> int option \<times> 'addr Store" where
  "last_voucher_cumulative io miner = round_trip io (\<lambda>s. (Some (or_zero (st_last_voucher s miner)), s))"

definition set_last_voucher_cumulative ::
  "io \<Rightarrow> 'addr \<Rightarrow> int \<Rightarrow> 'addr Store \<Rightarrow> unit option \<times> 'addr Store" where
  "set_last_voucher_cumulative io miner v =
     round_trip io (\<lambda>s. (Some (), s\<lparr>st_last_voucher := (st_last_voucher s)(miner := Some v)\<rparr>))"

definition balance_state :: "io \<Rightarrow> 'addr \<Rightarrow> 'addr Store \<Rightarrow> BalanceState option \<times> 'addr Store" where
  "balance_state io miner =
     round_trip io (\<lambda>s. (Some \<lparr>bs_earned = or_zero (st_earned s miner),
       bs_last_voucher_cumulative = or_zero (st_last_voucher s miner)\<rparr>, s))"

definition restore_cumulative ::
  "io \<Rightarrow> 'addr \<Rightarrow> int \<Rightarrow> 'addr Store \<Rightarrow> (int \<times> int) option \<times> 'addr Store" where
  "restore_cumulative io miner cumulative =
     round_trip io (\<lambda>s.
       let v = lua_num cumulative;
           e0 = lua_num (or_zero (st_earned s miner));
           e = (if v > e0 then v else e0);
           lv0 = lua_num (or_zero (st_last_voucher s miner));
           lv = (if v > lv0 then v else lv0)
       in (Some (e, lv), s\<lparr>st_earned := (st_earned s)(miner := Some e),
            st_last_voucher := (st_last_voucher s)(miner := Some lv)\<rparr>))"

text \<open>Expiry or eviction of a miner's balance keys.\<close>

definition evict_balance :: "'addr \<Rightarrow> 'addr Store \<Rightarrow> 'addr Store" where
  "evict_balance miner s = s\<lparr>st_earned := (st_earned s)(miner := None),
     st_last_voucher := (st_last_voucher s)(miner := None)\<rparr>"

section \<open>Redemptions\<close>

text \<open>The script claims the slot, records the amount and bumps the counters; its
  \<open>INCRBY\<close> can fail on overflow, which aborts the script after the two \<open>HSET\<close>s.\<close>

definition enqueue_script :: "u64 \<Rightarrow> int \<Rightarrow> 'addr Store \<Rightarrow> bool option \<times> 'addr Store" where
  "enqueue_script rid amount s =
     (if st_state s rid \<noteq> None then (Some False, s)
      else let s1 = s\<lparr>st_state := (st_state s)(rid := Some Pending),
                      st_amount := (st_amount s)(rid := Some amount)\<rparr>
           in case incr_by (st_pending_atomic s1) (lua_num amount) of
                None \<Rightarrow> (None, s1)
              | Some t \<Rightarrow>
                  let s2 = s1\<lparr>st_pending_atomic := Some t\<rparr>
                  in case incr_by (st_pending_count s2) 1 of
                       None \<Rightarrow> (None, s2)
                     | Some n \<Rightarrow> (Some True, s2\<lparr>st_pending_count := Some n\<rparr>))"

definition xadd :: "u64 \<Rightarrow> 'addr \<Rightarrow> int \<Rightarrow> string \<Rightarrow> 'addr Store \<Rightarrow> unit option \<times> 'addr Store" where
  "xadd rid from amount xmr s =
     (Some (), s\<lparr>st_stream := st_stream s @
        [\<lparr>en_no = st_next_no s, en_id = rid, en_from = from, en_amount = amount, en_xmr_addr = xmr\<rparr>],
      st_next_no := Suc (st_next_no s)\<rparr>)"

definition enqueue_redemption ::
  "io \<Rightarrow> io \<Rightarrow> u64 \<Rightarrow> 'addr \<Rightarrow> int \<Rightarrow> string \<Rightarrow> 'addr Store \<Rightarrow> bool option \<times> 'addr Store" where
  "enqueue_redemption io1 io2 rid from amount xmr s =
     (case round_trip io1 (enqueue_script rid amount) s of
        (None, s1) \<Rightarrow> (None, s1)
      | (Some False, s1) \<Rightarrow> (Some False, s1)
      | (Some True, s1) \<Rightarrow>
          (case round_trip io2 (xadd rid from amount xmr) s1 of
             (None, s2) \<Rightarrow> (None, s2)
           | (Some _, s2) \<Rightarrow> (Some True, s2)))"

definition get_cursor :: "io \<Rightarrow> string \<Rightarrow> 'addr Store \<Rightarrow> u64 option option \<times> 'addr Store" where
  "get_cursor io name = round_trip io (\<lambda>s. (Some (st_cursors s name), s))"

definition set_cursor :: "io \<Rightarrow> string \<Rightarrow> u64 \<Rightarrow> 'addr Store \<Rightarrow> unit option \<times> 'addr Store" where
  "set_cursor io name v = round_trip io (\<lambda>s. (Some (), s\<lparr>st_cursors := (st_cursors s)(name := Some v)\<rparr>))"

definition redemption_state :: "io \<Rightarrow> u64 \<Rightarrow> 'addr Store \<Rightarrow> RedemptionState option option \<times> 'addr Store" where
  "redemption_state io rid = round_trip io (\<lambda>s. (Some (st_state s rid), s))"

text \<open>The unconditional \<open>HSET redemptions:state\<close> the consumer does itself.\<close>

definition hset_state :: "io \<Rightarrow> u64 \<Rightarrow> RedemptionState \<Rightarrow> 'addr Store \<Rightarrow> unit option \<times> 'addr Store" where
  "hset_state io rid v = round_trip io (\<lambda>s. (Some (), s\<lparr>st_state := (st_state s)(rid := Some v)\<rparr>))"

definition hsetnx_state :: "io \<Rightarrow> u64 \<Rightarrow> RedemptionState \<Rightarrow> 'addr Store \<Rightarrow> bool option \<times> 'addr Store" where
  "hsetnx_state io rid v =
     round_trip io (\<lambda>s. if st_state s rid = None
                        then (Some True, s\<lparr>st_state := (st_state s)(rid := Some v)\<rparr>) else (Some False, s))"

definition try_mark_redemption_in_flight :: "io \<Rightarrow> u64 \<Rightarrow> 'addr Store \<Rightarrow> bool option \<times> 'addr Store" where
  "try_mark_redemption_in_flight io rid =
     round_trip io (\<lambda>s. if st_state s rid = Some Pending
                        then (Some True, s\<lparr>st_state := (st_state s)(rid := Some InFlight)\<rparr>)
                        else (Some False, s))"

definition sent_script :: "u64 \<Rightarrow> string \<Rightarrow> 'addr Store \<Rightarrow> unit option \<times> 'addr Store" where
  "sent_script rid txid s =
     (let cur = st_state s rid
      in if cur = Some Sent then (Some (), s)
         else let s1 = s\<lparr>st_state := (st_state s)(rid := Some Sent), st_txid := (st_txid s)(rid := Some txid)\<rparr>
              in if cur = Some Pending \<or> cur = Some InFlight then
                   (let amt = lua_num (or_zero (st_amount s1 rid))
                    in if amt > 0 then
                         (case incr_by (st_pending_atomic s1) (- amt) of
                            None \<Rightarrow> (None, s1)
                          | Some t \<Rightarrow>
                              let s2 = s1\<lparr>st_pending_atomic := Some t\<rparr>
                              in case incr_by (st_pending_count s2) (- 1) of
                                   None \<Rightarrow> (None, s2)
                                 | Some n \<Rightarrow> (Some (), s2\<lparr>st_pending_count := Some n\<rparr>))
                       else (Some (), s1))
                 else (Some (), s1))"

definition mark_redemption_sent :: "io \<Rightarrow> u64 \<Rightarrow> string \<Rightarrow> 'addr Store \<Rightarrow> unit option \<times> 'addr Store" where
  "mark_redemption_sent io rid txid = round_trip io (sent_script rid txid)"

definition pending_atomic :: "io \<Rightarrow> 'addr Store \<Rightarrow> int option \<times> 'addr Store" where
  "pending_atomic io = round_trip io (\<lambda>s. (Some (max (or_zero (st_pending_atomic s)) 0), s))"

definition pending_count :: "io \<Rightarrow> 'addr Store \<Rightarrow> int option \<times> 'addr Store" where
  "pending_count io = round_trip io (\<lambda>s. (Some (max (or_zero (st_pending_count s)) 0), s))"

definition set_treasury_snapshot :: "io \<Rightarrow> TreasurySnapshot \<Rightarrow> 'addr Store \<Rightarrow> unit option \<times> 'addr Store" where
  "set_treasury_snapshot io snap = round_trip io (\<lambda>s. (Some (), s\<lparr>st_snapshot := Some snap\<rparr>))"

definition treasury_snapshot :: "io \<Rightarrow> 'addr Store \<Rightarrow> TreasurySnapshot option option \<times> 'addr Store" where
  "treasury_snapshot io = round_trip io (\<lambda>s. (Some (st_snapshot s), s))"

section \<open>The redemption stream\<close>

text \<open>The consumer group of the stream: entries from \<open>st_group_next\<close> on are undelivered,
  \<open>st_pel\<close> holds the delivered and unacknowledged ones with their delivery time in
  milliseconds. \<open>XAUTOCLAIM\<close> with \<open>COUNT 16\<close> looks at the first 160 pending entries.\<close>

definition entries_of :: "'addr Store \<Rightarrow> nat list \<Rightarrow> 'addr stream_entry list" where
  "entries_of s nos = filter (\<lambda>e. en_no e \<in> set nos) (st_stream s)"

definition xautoclaim :: "int \<Rightarrow> 'addr Store \<Rightarrow> 'addr stream_entry list option \<times> 'addr Store" where
  "xautoclaim now s =
     (let nos = map fst (take 16 (filter (\<lambda>(no, t). 60000 \<le> now - t) (take 160 (st_pel s))))
      in (Some (entries_of s nos),
          s\<lparr>st_pel := map (\<lambda>(no, t). (no, if no \<in> set nos then now else t)) (st_pel s)\<rparr>))"

definition xreadgroup :: "int \<Rightarrow> 'addr Store \<Rightarrow> 'addr stream_entry list option \<times> 'addr Store" where
  "xreadgroup now s =
     (let es = take 16 (filter (\<lambda>e. st_group_next s \<le> en_no e) (st_stream s))
      in (Some es,
          s\<lparr>st_group_next := (if es = [] then st_group_next s else Suc (en_no (last es))),
            st_pel := st_pel s @ map (\<lambda>e. (en_no e, now)) es\<rparr>))"

definition xack :: "io \<Rightarrow> nat \<Rightarrow> 'addr Store \<Rightarrow> unit option \<times> 'addr Store" where
  "xack io no = round_trip io (\<lambda>s. (Some (), s\<lparr>st_pel := filter (\<lambda>p. fst p \<noteq> no) (st_pel s)\<rparr>))"

section \<open>Lua numbers\<close>

lemma lua_num_exact: "\<bar>x\<bar> \<le> 2 ^ 53 \<Longrightarrow> lua_num x = x"
  using repr_int [of x] by (simp add: lua_num_def rnd_repr_fixed)

lemma lua_num_mono: "x \<le> y \<Longrightarrow> lua_num x \<le> lua_num y"
  by (auto simp: lua_num_def intro!: floor_mono rnd_mono)

lemma lua_num_0 [simp]: "lua_num 0 = 0"
  by (simp add: lua_num_exact)

lemma lua_num_nonneg: "0 \<le> x \<Longrightarrow> 0 \<le> lua_num x"
  using lua_num_mono [of 0 x] by simp

lemma or_zero_simps [simp]: "or_zero None = 0" "or_zero (Some x) = x"
  by (simp_all add: or_zero_def)

lemma incr_by_Some: "incr_by v d = Some t \<longleftrightarrow> t = or_zero v + d \<and> in_i64 t"
  by (auto simp: incr_by_def or_zero_def Let_def)

lemma incr_by_None: "incr_by v d = None \<longleftrightarrow> \<not> in_i64 (or_zero v + d)"
  by (auto simp: incr_by_def or_zero_def Let_def)

lemma round_trip_reply: "round_trip io f s = (Some r, s') \<Longrightarrow> io = IoOk \<and> f s = (Some r, s')"
  by (cases io) (simp_all add: round_trip_def)

lemma round_trip_state: "snd (round_trip io f s) = s \<or> snd (round_trip io f s) = snd (f s)"
  by (cases io) (simp_all add: round_trip_def)

section \<open>The obligation ledger\<close>

text \<open>What the pool owes: the recorded amounts of the redemptions that are pending, in
  flight or paused. The counters never fall below it.\<close>

definition owing :: "RedemptionState option \<Rightarrow> bool" where
  "owing v \<longleftrightarrow> v = Some Pending \<or> v = Some InFlight \<or> v = Some Paused"

definition owed :: "'addr Store \<Rightarrow> u64 \<Rightarrow> int" where
  "owed s rid = (if owing (st_state s rid) then lua_num (or_zero (st_amount s rid)) else 0)"

definition obligations :: "'addr Store \<Rightarrow> int" where
  "obligations s = (\<Sum>rid\<in>UNIV. owed s rid)"

definition open_count :: "'addr Store \<Rightarrow> int" where
  "open_count s = (\<Sum>rid\<in>UNIV. if owing (st_state s rid) then 1 else 0)"

definition ledger :: "'addr Store \<Rightarrow> bool" where
  "ledger s \<longleftrightarrow> obligations s \<le> or_zero (st_pending_atomic s) \<and>
     open_count s \<le> or_zero (st_pending_count s) \<and>
     (\<forall>rid. 0 \<le> or_zero (st_amount s rid)) \<and>
     in_i64 (or_zero (st_pending_atomic s)) \<and> in_i64 (or_zero (st_pending_count s))"

lemma owing_simps [simp]:
  "\<not> owing None" "owing (Some Pending)" "owing (Some InFlight)" "owing (Some Paused)"
  "\<not> owing (Some Sent)" "\<not> owing (Some Failed)"
  by (simp_all add: owing_def)

lemma owed_nonneg: "ledger s \<Longrightarrow> 0 \<le> owed s rid"
  by (simp add: ledger_def owed_def lua_num_nonneg)

lemma owed_le_obligations:
  assumes "ledger s"
  shows "owed s rid \<le> obligations s"
  unfolding obligations_def using owed_nonneg [OF assms]
  by (intro member_le_sum) auto

lemma open_pos:
  assumes "owing (st_state s rid)"
  shows "1 \<le> open_count s"
proof -
  have "(if owing (st_state s rid) then 1 else 0 :: int) \<le> open_count s"
    unfolding open_count_def by (intro member_le_sum) auto
  with assms show ?thesis by simp
qed

text \<open>Writing one redemption's state and amount moves the totals by its difference.\<close>

lemma totals_upd:
  assumes "\<And>r. r \<noteq> rid \<Longrightarrow> st_state s' r = st_state s r \<and> st_amount s' r = st_amount s r"
  shows "obligations s' = obligations s - owed s rid + owed s' rid"
    and "open_count s' = open_count s - (if owing (st_state s rid) then 1 else 0)
                                      + (if owing (st_state s' rid) then 1 else 0)"
proof -
  show "obligations s' = obligations s - owed s rid + owed s' rid"
    unfolding obligations_def by (rule sum_upd) (simp add: owed_def assms)
  show "open_count s' = open_count s - (if owing (st_state s rid) then 1 else 0)
                                      + (if owing (st_state s' rid) then 1 else 0)"
    unfolding open_count_def by (rule sum_upd) (simp add: assms)
qed

lemma ledger_state_write:
  assumes "ledger s" "owing (Some v) \<longrightarrow> owing (st_state s rid)"
  shows "ledger (s\<lparr>st_state := (st_state s)(rid := Some v)\<rparr>)" (is "ledger ?s'")
proof -
  have o: "obligations ?s' = obligations s - owed s rid + owed ?s' rid"
    and c: "open_count ?s' = open_count s - (if owing (st_state s rid) then 1 else 0)
       + (if owing (st_state ?s' rid) then 1 else 0)"
    by (rule totals_upd; simp)+
  have "owed ?s' rid \<le> owed s rid"
    using assms owed_nonneg [OF assms(1), of rid] by (auto simp: owed_def)
  with o have "obligations ?s' \<le> obligations s" by simp
  moreover have "open_count ?s' \<le> open_count s" using c assms(2) by simp
  ultimately show ?thesis using assms(1) by (auto simp: ledger_def)
qed

lemma ledger_enqueue_script:
  assumes "ledger s" "0 \<le> amount"
    and "in_i64 (or_zero (st_pending_atomic s) + lua_num amount)"
    and "in_i64 (or_zero (st_pending_count s) + 1)"
  shows "ledger (snd (enqueue_script rid amount s))"
proof (cases "st_state s rid")
  case None
  let ?s' = "snd (enqueue_script rid amount s)"
  have s': "?s' = s\<lparr>st_state := (st_state s)(rid := Some Pending), st_amount := (st_amount s)(rid := Some amount),
      st_pending_atomic := Some (or_zero (st_pending_atomic s) + lua_num amount),
      st_pending_count := Some (or_zero (st_pending_count s) + 1)\<rparr>"
    using None assms(3,4) by (simp add: enqueue_script_def Let_def incr_by_def or_zero_def)
  have "obligations ?s' = obligations s - owed s rid + owed ?s' rid"
    and "open_count ?s' = open_count s - (if owing (st_state s rid) then 1 else 0)
       + (if owing (st_state ?s' rid) then 1 else 0)"
    by (rule totals_upd; simp add: s')+
  then have "obligations ?s' = obligations s + lua_num amount" "open_count ?s' = open_count s + 1"
    using None by (simp_all add: owed_def s')
  with assms show ?thesis by (auto simp: ledger_def s')
qed (use assms in \<open>simp add: enqueue_script_def\<close>)

lemma sent_script_debit:
  assumes "ledger s" "st_state s rid = Some Pending \<or> st_state s rid = Some InFlight"
    "0 < lua_num (or_zero (st_amount s rid))"
  shows "sent_script rid txid s =
    (Some (), s\<lparr>st_state := (st_state s)(rid := Some Sent), st_txid := (st_txid s)(rid := Some txid),
       st_pending_atomic := Some (or_zero (st_pending_atomic s) - lua_num (or_zero (st_amount s rid))),
       st_pending_count := Some (or_zero (st_pending_count s) - 1)\<rparr>)"
proof -
  have "owed s rid = lua_num (or_zero (st_amount s rid))" using assms(2) by (auto simp: owed_def)
  then have "lua_num (or_zero (st_amount s rid)) \<le> or_zero (st_pending_atomic s)"
    using owed_le_obligations [OF assms(1), of rid] assms(1) by (simp add: ledger_def)
  moreover have "1 \<le> or_zero (st_pending_count s)"
    using open_pos [of s rid] assms(1,2) by (auto simp: ledger_def)
  ultimately have "in_i64 (or_zero (st_pending_atomic s) - lua_num (or_zero (st_amount s rid)))"
    "in_i64 (or_zero (st_pending_count s) - 1)"
    using assms(1,3) by (auto simp: ledger_def in_i64_def i64_min_def)
  then show ?thesis using assms(2,3)
    by (auto simp: sent_script_def Let_def incr_by_def or_zero_def [symmetric])
qed

lemma sent_script_plain:
  assumes "st_state s rid \<noteq> Some Sent"
    "\<not> ((st_state s rid = Some Pending \<or> st_state s rid = Some InFlight) \<and> 0 < lua_num (or_zero (st_amount s rid)))"
  shows "sent_script rid txid s =
    (Some (), s\<lparr>st_state := (st_state s)(rid := Some Sent), st_txid := (st_txid s)(rid := Some txid)\<rparr>)"
  using assms by (auto simp: sent_script_def Let_def)

lemma ledger_frame:
  assumes "ledger s" "st_state s' = st_state s" "st_amount s' = st_amount s"
    "st_pending_atomic s' = st_pending_atomic s" "st_pending_count s' = st_pending_count s"
  shows "ledger s'"
  using assms(1) by (simp add: ledger_def obligations_def open_count_def owed_def assms(2-) cong: if_cong)

lemma ledger_sent_script:
  assumes "ledger s"
  shows "ledger (snd (sent_script rid txid s))"
proof -
  consider "st_state s rid = Some Sent"
    | "(st_state s rid = Some Pending \<or> st_state s rid = Some InFlight) \<and> 0 < lua_num (or_zero (st_amount s rid))"
    | "st_state s rid \<noteq> Some Sent"
      "\<not> ((st_state s rid = Some Pending \<or> st_state s rid = Some InFlight) \<and> 0 < lua_num (or_zero (st_amount s rid)))"
    by blast
  then show ?thesis
  proof cases
    case 1
    then show ?thesis using assms by (simp add: sent_script_def)
  next
    case 2
    let ?s' = "snd (sent_script rid txid s)"
    note eq = sent_script_debit [OF assms conjunct1 [OF 2] conjunct2 [OF 2], of txid]
    have "obligations ?s' = obligations s - owed s rid + owed ?s' rid"
      and "open_count ?s' = open_count s - (if owing (st_state s rid) then 1 else 0)
         + (if owing (st_state ?s' rid) then 1 else 0)"
      by (rule totals_upd; simp add: eq)+
    then have "obligations ?s' = obligations s - lua_num (or_zero (st_amount s rid))" "open_count ?s' = open_count s - 1"
      using 2 by (auto simp: owed_def eq)
    moreover have "0 \<le> obligations ?s'" "0 \<le> open_count ?s'"
      using assms unfolding obligations_def open_count_def
      by (auto intro!: sum_nonneg simp: owed_def eq ledger_def lua_num_nonneg)
    ultimately show ?thesis using assms 2 by (auto simp: ledger_def eq in_i64_def i64_min_def)
  next
    case 3
    have "ledger (s\<lparr>st_state := (st_state s)(rid := Some Sent)\<rparr>)"
      by (rule ledger_state_write [OF assms]) simp
    then show ?thesis by (rule ledger_frame) (simp_all add: sent_script_plain [OF 3])
  qed
qed

lemma round_trip_keeps: "P s \<Longrightarrow> P (snd (f s)) \<Longrightarrow> P (snd (round_trip io f s))"
  by (cases io) (simp_all add: round_trip_def)

lemma ledger_mark_redemption_sent: "ledger s \<Longrightarrow> ledger (snd (mark_redemption_sent io rid txid s))"
  unfolding mark_redemption_sent_def by (rule round_trip_keeps, assumption, rule ledger_sent_script)

lemma ledger_hset_state:
  "ledger s \<Longrightarrow> owing (Some v) \<longrightarrow> owing (st_state s rid) \<Longrightarrow> ledger (snd (hset_state io rid v s))"
  unfolding hset_state_def by (rule round_trip_keeps, assumption) (simp add: ledger_state_write)

lemma ledger_try_mark: "ledger s \<Longrightarrow> ledger (snd (try_mark_redemption_in_flight io rid s))"
  unfolding try_mark_redemption_in_flight_def
  by (rule round_trip_keeps, assumption) (simp add: ledger_state_write)

section \<open>Restoring a balance\<close>

text \<open>C19: as long as the amounts involved are integers a double represents
  exactly (at most \<open>2 ^ 53\<close> atomic units), restoring a voucher raises both of the
  miner's counters to at least its cumulative amount and lowers neither, touches no
  other miner, and replaying the same or an older voucher afterwards changes nothing.\<close>

theorem restore_cumulative_max_merge:
  fixes s :: "'addr Store"
  assumes "\<bar>v\<bar> \<le> 2 ^ 53" "\<bar>or_zero (st_earned s a)\<bar> \<le> 2 ^ 53" "\<bar>or_zero (st_last_voucher s a)\<bar> \<le> 2 ^ 53"
    and "w \<le> v" "\<bar>w\<bar> \<le> 2 ^ 53" "restore_cumulative IoOk a v s = (r, s')"
  shows "r = Some (max (or_zero (st_earned s a)) v, max (or_zero (st_last_voucher s a)) v) \<and>
    st_earned s' = (st_earned s)(a := Some (max (or_zero (st_earned s a)) v)) \<and>
    st_last_voucher s' = (st_last_voucher s)(a := Some (max (or_zero (st_last_voucher s a)) v)) \<and>
    snd (restore_cumulative io a w s') = s'"
proof -
  define e l where "e = max (or_zero (st_earned s a)) v" and "l = max (or_zero (st_last_voucher s a)) v"
  have s': "s' = s\<lparr>st_earned := (st_earned s)(a := Some e), st_last_voucher := (st_last_voucher s)(a := Some l)\<rparr>"
    and r: "r = Some (e, l)"
    using assms(1-3,6) by (auto simp: restore_cumulative_def round_trip_def Let_def lua_num_exact max_def e_def l_def)
  have "lua_num e = e" "lua_num l = l" "lua_num w = w"
    using assms(1-3,5) by (auto simp: max_def lua_num_exact e_def l_def)
  moreover have "\<not> e < w" "\<not> l < w" using assms(4) by (auto simp: e_def l_def)
  ultimately have "snd (restore_cumulative IoOk a w s') = s'"
    by (simp add: restore_cumulative_def round_trip_def Let_def s')
  then have "snd (restore_cumulative io a w s') = s'"
    by (cases io) (simp_all add: restore_cumulative_def round_trip_def)
  then show ?thesis by (simp add: s' r e_def l_def)
qed

definition empty_store :: "'addr Store" where
  "empty_store = \<lparr>st_earned = (\<lambda>_. None), st_last_voucher = (\<lambda>_. None), st_fee_accrued = None,
     st_state = (\<lambda>_. None), st_txid = (\<lambda>_. None), st_amount = (\<lambda>_. None), st_pending_atomic = None,
     st_pending_count = None, st_stream = [], st_next_no = 0, st_group_next = 0, st_pel = [], st_cursors = (\<lambda>_. None), st_snapshot = None\<rparr>"

theorem restore_cumulative_max_merge_witness:
  "st_earned (snd (restore_cumulative IoOk (7 :: nat) 900
      (empty_store\<lparr>st_earned := [7 \<mapsto> 250]\<rparr>))) 7 = Some 900 \<and>
   snd (restore_cumulative IoLost 7 300 (snd (restore_cumulative IoOk (7 :: nat) 900
      (empty_store\<lparr>st_earned := [7 \<mapsto> 250]\<rparr>)))) =
   snd (restore_cumulative IoOk (7 :: nat) 900 (empty_store\<lparr>st_earned := [7 \<mapsto> 250]\<rparr>))"
  using restore_cumulative_max_merge [of 900 "empty_store\<lparr>st_earned := [7 :: nat \<mapsto> 250]\<rparr>" 7 300
      "fst (restore_cumulative IoOk (7 :: nat) 900 (empty_store\<lparr>st_earned := [7 \<mapsto> 250]\<rparr>))"
      "snd (restore_cumulative IoOk (7 :: nat) 900 (empty_store\<lparr>st_earned := [7 \<mapsto> 250]\<rparr>))"]
  by (simp add: empty_store_def)

text \<open>Above \<open>2 ^ 53\<close> the script rounds: restoring an old voucher can take an atomic unit
  away from a balance.\<close>

lemma restore_can_lower:
  "st_earned (snd (restore_cumulative IoOk (7 :: nat) 1
      (empty_store\<lparr>st_earned := [7 \<mapsto> 9007199254740993]\<rparr>))) 7 = Some 9007199254740992"
proof -
  have "lua_num 9007199254740993 = 9007199254740992" by code_simp
  then show ?thesis by (simp add: restore_cumulative_def round_trip_def Let_def lua_num_exact)
qed

end
