(* ===== verification/Json.thy ===== *)
theory Json
  imports Float64
begin

text \<open>
  What the sources use of \<open>serde_json\<close> values and of the parsing functions of the
  standard library: a value as a datatype, the accessors \<open>get\<close>, \<open>pointer\<close> and
  \<open>as_*\<close>, decimal integers, and substring search.
\<close>

datatype json = JNull | JBool bool | JNum int | JFloat f64 | JStr string
  | JArr "json list" | JObj "(string \<times> json) list"

definition json_get :: "string \<Rightarrow> json \<Rightarrow> json option" where
  "json_get k j = (case j of JObj kv \<Rightarrow> map_of kv k | _ \<Rightarrow> None)"

text \<open>A pointer is the list of its tokens; the ones in the sources name object fields.\<close>

fun json_pointer :: "string list \<Rightarrow> json \<Rightarrow> json option" where
  "json_pointer [] j = Some j"
| "json_pointer (k # ks) j = (case json_get k j of None \<Rightarrow> None | Some v \<Rightarrow> json_pointer ks v)"

definition as_u64 :: "json \<Rightarrow> u64 option" where
  "as_u64 j = (case j of JNum n \<Rightarrow> if 0 \<le> n \<and> n < 2 ^ 64 then Some (word_of_int n) else None | _ \<Rightarrow> None)"

definition as_i64 :: "json \<Rightarrow> int option" where
  "as_i64 j = (case j of JNum n \<Rightarrow> if in_i64 n then Some n else None | _ \<Rightarrow> None)"

definition as_f64 :: "json \<Rightarrow> f64 option" where
  "as_f64 j = (case j of JNum n \<Rightarrow> Some (f64_of_int n) | JFloat x \<Rightarrow> Some x | _ \<Rightarrow> None)"

definition as_bool :: "json \<Rightarrow> bool option" where
  "as_bool j = (case j of JBool b \<Rightarrow> Some b | _ \<Rightarrow> None)"

definition as_str :: "json \<Rightarrow> string option" where
  "as_str j = (case j of JStr s \<Rightarrow> Some s | _ \<Rightarrow> None)"

definition as_array :: "json \<Rightarrow> json list option" where
  "as_array j = (case j of JArr xs \<Rightarrow> Some xs | _ \<Rightarrow> None)"

definition get_u64 :: "string \<Rightarrow> json \<Rightarrow> u64 option" where
  "get_u64 k j = Option.bind (json_get k j) as_u64"

definition get_str :: "string \<Rightarrow> json \<Rightarrow> string option" where
  "get_str k j = Option.bind (json_get k j) as_str"

section \<open>Decimal integers\<close>

definition digit_value :: "char \<Rightarrow> int option" where
  "digit_value c = (let n = of_char c :: int in if 48 \<le> n \<and> n \<le> 57 then Some (n - 48) else None)"

fun parse_digits :: "int \<Rightarrow> int \<Rightarrow> string \<Rightarrow> int option" where
  "parse_digits bound acc [] = Some acc"
| "parse_digits bound acc (c # cs) =
     (case digit_value c of
        None \<Rightarrow> None
      | Some d \<Rightarrow> let a = acc * 10 + d in if a > bound then None else parse_digits bound a cs)"

text \<open>\<open>str::parse\<close> for an unsigned type: one optional \<open>+\<close>, at least one digit, no overflow.\<close>

definition parse_uint :: "int \<Rightarrow> string \<Rightarrow> int option" where
  "parse_uint bound s =
     (let t = (case s of CHR ''+'' # r \<Rightarrow> r | _ \<Rightarrow> s) in if t = [] then None else parse_digits bound 0 t)"

definition parse_u128 :: "string \<Rightarrow> u128 option" where
  "parse_u128 s = map_option word_of_int (parse_uint (2 ^ 128 - 1) s)"

definition parse_u64 :: "string \<Rightarrow> u64 option" where
  "parse_u64 s = map_option word_of_int (parse_uint (2 ^ 64 - 1) s)"

section \<open>Substrings\<close>

definition starts_with :: "string \<Rightarrow> string \<Rightarrow> bool" where
  "starts_with h n \<longleftrightarrow> take (length n) h = n"

fun str_contains :: "string \<Rightarrow> string \<Rightarrow> bool" where
  "str_contains [] n \<longleftrightarrow> n = []"
| "str_contains (c # h) n \<longleftrightarrow> starts_with (c # h) n \<or> str_contains h n"

section \<open>Bounds of what parses\<close>

lemma digit_value_bounds: "digit_value c = Some d \<Longrightarrow> 0 \<le> d \<and> d \<le> 9"
  by (auto simp: digit_value_def Let_def split: if_splits)

lemma parse_digits_bounds:
  "parse_digits bound acc s = Some n \<Longrightarrow> 0 \<le> acc \<Longrightarrow> acc \<le> bound \<Longrightarrow> 0 \<le> n \<and> n \<le> bound"
proof (induction bound acc s rule: parse_digits.induct)
  case (2 bound acc c cs)
  then show ?case
    by (auto simp: Let_def split: option.splits if_splits dest!: digit_value_bounds)
qed simp

lemma parse_uint_bounds: "parse_uint bound s = Some n \<Longrightarrow> 0 \<le> bound \<Longrightarrow> 0 \<le> n \<and> n \<le> bound"
  using parse_digits_bounds [of bound 0] by (auto simp: parse_uint_def Let_def split: if_splits)

lemma str_contains_iff: "str_contains h n \<longleftrightarrow> (\<exists>p q. h = p @ n @ q)"
proof (induction h)
  case (Cons c h)
  have "starts_with (c # h) n \<longleftrightarrow> (\<exists>q. c # h = n @ q)"
    unfolding starts_with_def by (metis append_eq_conv_conj append_take_drop_id)
  moreover have "(\<exists>p q. c # h = p @ n @ q) \<longleftrightarrow> (\<exists>q. c # h = n @ q) \<or> (\<exists>p q. h = p @ n @ q)"
    by (metis append_Cons append_Nil list.exhaust list.inject)
  ultimately show ?case using Cons.IH by simp
qed auto

end
