(* ===== verification/Payouts.thy ===== *)
theory Payouts
  imports Redemption Store Json
begin

text \<open>
  \<open>redemption-watcher/src/payouts.rs\<close>: the consumer of the redemption stream. One
  delivered entry is the function \<open>pay_entry\<close>: it returns how the loop goes on, the
  new Redis state and the effects outside Redis (calls of the wallet's \<open>transfer\<close>
  and of the on-chain marker, and the log line of a reconciled payout) in order. The replies of the wallet, of the chain, of
  each Redis round trip and the clock are the record \<open>entry_env\<close>. Whether a
  \<open>transfer\<close> call put a transaction on the network is part of that record, apart
  from the reply the pool sees.
\<close>

section \<open>Configuration and replies\<close>

record MoneroConfig =
  per_tx_cap_atomic :: u64
  max_payout_premium_bp :: u32
  confirm_wait_secs :: u64

datatype site = SHset | SHset2 | SHsetnx | SXack | SMarkSent | SClaim | SState | SSnapshot | SPending

record entry_env =
  ev_io :: "site \<Rightarrow> io"
  ev_processed :: "bool option"
  ev_height :: "json option"
  ev_transfers :: "json option"
  ev_now_unix :: int
  ev_transfer :: "json option"
  ev_broadcast :: bool
  ev_polls :: "nat \<Rightarrow> json option"
  ev_poll_ns :: "nat \<Rightarrow> nat"
  ev_unspent :: "json option"

datatype effect = Transfer u64 u128 string bool | MarkProcessed u64 string u64 | Reconciled u64 string

datatype ctl = Continue | Break | Bail

type_synonym 'addr outcome = "ctl \<times> 'addr Store \<times> effect list"

definition or_bail :: "'r option \<times> 'addr Store \<Rightarrow> ('r \<Rightarrow> 'addr Store \<Rightarrow> 'addr outcome) \<Rightarrow> 'addr outcome" where
  "or_bail x k = (case x of (None, s) \<Rightarrow> (Bail, s, []) | (Some r, s) \<Rightarrow> k r s)"

definition emit :: "effect list \<Rightarrow> 'addr outcome \<Rightarrow> 'addr outcome" where
  "emit es out = (case out of (c, s, l) \<Rightarrow> (c, s, es @ l))"

section \<open>Wallet replies\<close>

definition RECONCILE_WINDOW_BLOCKS :: u64 where "RECONCILE_WINDOW_BLOCKS = 4320"

definition transfer_amount :: "json \<Rightarrow> u128" where
  "transfer_amount t =
     (case json_get ''amount'' t of
        None \<Rightarrow> 0
      | Some v \<Rightarrow>
          (case as_u64 v of
             Some n \<Rightarrow> ucast n
           | None \<Rightarrow> (case Option.bind (as_str v) parse_u128 of Some n \<Rightarrow> n | None \<Rightarrow> 0)))"

definition in_window :: "bool \<Rightarrow> u64 \<Rightarrow> json \<Rightarrow> bool" where
  "in_window confirmed min_height t \<longleftrightarrow>
     \<not> (confirmed \<and> (case get_u64 ''height'' t of Some h \<Rightarrow> h | None \<Rightarrow> 0) < min_height)"

definition stamp_matches_of :: "json \<Rightarrow> u64 \<Rightarrow> u64 \<Rightarrow> string \<Rightarrow> (string \<times> bool) list" where
  "stamp_matches_of result rid min_height key =
     (let confirmed = (key = ''out'')
      in case Option.bind (json_get key result) as_array of
           None \<Rightarrow> []
         | Some arr \<Rightarrow>
             map (\<lambda>t. (case get_str ''txid'' t of Some x \<Rightarrow> x | None \<Rightarrow> [], confirmed))
               (filter (\<lambda>t. in_window confirmed min_height t \<and> transfer_amount t > 0 \<and>
                            matches_stamp (transfer_amount t) rid) arr))"

text \<open>The outer option is the Rust \<open>Result\<close>: more than one candidate is an error.\<close>

definition stamp_match_in_result :: "json \<Rightarrow> u64 \<Rightarrow> u64 \<Rightarrow> (string \<times> bool) option option" where
  "stamp_match_in_result result rid min_height =
     (case concat (map (stamp_matches_of result rid min_height) [''out'', ''pending'', ''pool'']) of
        [] \<Rightarrow> Some None
      | [x] \<Rightarrow> Some (Some x)
      | _ \<Rightarrow> None)"

definition wallet_height :: "json option \<Rightarrow> u64 option" where
  "wallet_height reply =
     (case reply of
        None \<Rightarrow> None
      | Some raw \<Rightarrow> Some (case Option.bind (json_pointer [''result'', ''height''] raw) as_u64 of
                            Some h \<Rightarrow> h | None \<Rightarrow> 0))"

definition find_paid_tx :: "json option \<Rightarrow> json option \<Rightarrow> u64 \<Rightarrow> (string \<times> bool) option option" where
  "find_paid_tx height_reply transfers_reply rid =
     (let tip = (case wallet_height height_reply of Some h \<Rightarrow> h | None \<Rightarrow> 0);
          min_height = sat_sub tip RECONCILE_WINDOW_BLOCKS
      in case transfers_reply of
           None \<Rightarrow> None
         | Some raw \<Rightarrow>
             stamp_match_in_result (case json_get ''result'' raw of Some r \<Rightarrow> r | None \<Rightarrow> JNull) rid min_height)"

definition is_permanent_transfer_error :: "json \<Rightarrow> bool" where
  "is_permanent_transfer_error err \<longleftrightarrow>
     (if Option.bind (json_get ''code'' err) as_i64 = Some (- 2) then True
      else let msg = to_ascii_lowercase (case get_str ''message'' err of Some m \<Rightarrow> m | None \<Rightarrow> [])
           in str_contains msg ''wrong address'' \<or> str_contains msg ''invalid address'' \<or>
              str_contains msg ''invalid destination'' \<or> str_contains msg ''wrong network'' \<or>
              str_contains msg ''wrong_address'')"

definition optional_u128 :: "string \<Rightarrow> json \<Rightarrow> bool" where
  "optional_u128 k j = (case json_get k j of None \<Rightarrow> True | Some v \<Rightarrow> as_u64 v \<noteq> None)"

text \<open>Decoding \<open>Rpc<TransferResp>\<close>: the transaction hash, or an error.\<close>

definition decode_transfer_resp :: "json \<Rightarrow> string option" where
  "decode_transfer_resp raw =
     (case json_get ''result'' raw of
        None \<Rightarrow> None
      | Some r \<Rightarrow> if optional_u128 ''fee'' r \<and> optional_u128 ''amount'' r then get_str ''tx_hash'' r else None)"

definition unspent_heights :: "json list \<Rightarrow> u64 list" where
  "unspent_heights ts =
     List.map_filter (get_u64 ''block_height'')
       (filter (\<lambda>t. Option.bind (json_get ''spent'' t) as_bool = Some False) ts)"

definition oldest_unspent_height :: "json option \<Rightarrow> u64 option" where
  "oldest_unspent_height reply =
     (case reply of
        None \<Rightarrow> None
      | Some raw \<Rightarrow>
          (case Option.bind (json_pointer [''result'', ''transfers''] raw) as_array of
             None \<Rightarrow> Some 0
           | Some ts \<Rightarrow> Some (case unspent_heights ts of [] \<Rightarrow> 0 | h # hs \<Rightarrow> fold min hs h)))"

section \<open>Waiting for a confirmation\<close>

definition poll_height :: "json \<Rightarrow> u64" where
  "poll_height raw =
     (case Option.bind (json_pointer [''result'', ''transfer'', ''height''] raw) as_u64 of
        Some h \<Rightarrow> h | None \<Rightarrow> 0)"

text \<open>Nanoseconds since the start when poll \<open>i\<close> has been answered: every poll takes
  its own time and is followed by ten seconds of sleep.\<close>

definition poll_clock :: "(nat \<Rightarrow> nat) \<Rightarrow> nat \<Rightarrow> int" where
  "poll_clock ns i = int (sum_list (map ns [0..<Suc i])) + int i * 10000000000"

function wait_from :: "(nat \<Rightarrow> json option) \<Rightarrow> (nat \<Rightarrow> nat) \<Rightarrow> int \<Rightarrow> nat \<Rightarrow> bool option" where
  "wait_from polls ns deadline i =
     (case polls i of
        None \<Rightarrow> None
      | Some raw \<Rightarrow>
          if poll_height raw > 0 then Some True
          else if deadline \<le> poll_clock ns i then Some False
          else wait_from polls ns deadline (Suc i))"
  by pat_completeness auto
termination
  by (relation "measure (\<lambda>(polls, ns, deadline, i). nat deadline - i)") (auto simp: poll_clock_def)

text \<open>Time is unbounded, so that the deadline always exists (\<open>Instant + Duration\<close> panics for a \<open>max_secs\<close> beyond
  the clock's range), and each poll returns, with an answer or an error.\<close>

definition wait_confirmed :: "(nat \<Rightarrow> json option) \<Rightarrow> (nat \<Rightarrow> nat) \<Rightarrow> u64 \<Rightarrow> bool option" where
  "wait_confirmed polls ns max_secs = wait_from polls ns (uint max_secs * 1000000000) 0"

section \<open>The amount to pay\<close>

datatype price = Unpriceable | Dust | Locked u128 | Pay u128

definition payout_denom :: "TreasurySnapshot \<Rightarrow> u128 \<Rightarrow> u128" where
  "payout_denom snap pending_now = sat_add (mining_pool_token_total_supply snap) pending_now"

definition payout_cap :: "MoneroConfig \<Rightarrow> u128 \<Rightarrow> u128" where
  "payout_cap cfg denom = sat_add denom (sat_mul denom (ucast (max_payout_premium_bp cfg)) div 10000)"

definition payout_u256 :: "MoneroConfig \<Rightarrow> TreasurySnapshot \<Rightarrow> u128 \<Rightarrow> u128 \<Rightarrow> u256" where
  "payout_u256 cfg snap denom amount =
     (let effective_balance = min (monero_balance_atomic snap) (payout_cap cfg denom)
      in sat_mul (ucast amount) (ucast effective_balance) div ucast denom)"

definition payout_price :: "MoneroConfig \<Rightarrow> TreasurySnapshot \<Rightarrow> u128 \<Rightarrow> u128 \<Rightarrow> price" where
  "payout_price cfg snap pending_now amount =
     (let denom = payout_denom snap pending_now
      in if denom = 0 \<or> monero_balance_atomic snap = 0 then Unpriceable
         else let payout = payout_u256 cfg snap denom amount
              in if drop_bit 128 payout \<noteq> 0 then Unpriceable
                 else let payout_atomic = ucast payout
                      in if payout_atomic < STAMP_MOD then Dust
                         else if payout_atomic > monero_unlocked_atomic snap then Locked payout_atomic
                         else Pay payout_atomic)"

section \<open>One stream entry\<close>

text \<open>The consumer reads the amount back as an unsigned number: a negative one does not
  parse and becomes 0.\<close>

definition entry_amount :: "'addr stream_entry \<Rightarrow> u128" where
  "entry_amount e = (if en_amount e < 0 then 0 else word_of_int (en_amount e))"

definition ack_entry :: "entry_env \<Rightarrow> 'addr stream_entry \<Rightarrow> 'addr Store \<Rightarrow> 'addr outcome" where
  "ack_entry ev e s = or_bail (xack (ev_io ev SXack) (en_no e) s) (\<lambda>_ s1. (Continue, s1, []))"

definition close_as ::
  "entry_env \<Rightarrow> 'addr stream_entry \<Rightarrow> RedemptionState \<Rightarrow> 'addr Store \<Rightarrow> 'addr outcome" where
  "close_as ev e v s = or_bail (hset_state (ev_io ev SHset) (en_id e) v s) (\<lambda>_ s1. ack_entry ev e s1)"

definition defer_entry :: "entry_env \<Rightarrow> 'addr stream_entry \<Rightarrow> 'addr Store \<Rightarrow> 'addr outcome" where
  "defer_entry ev e s = or_bail (hset_state (ev_io ev SHset) (en_id e) Pending s) (\<lambda>_ s1. (Break, s1, []))"

text \<open>The payout exceeds the unlocked balance: \<open>paused\<close>, then back to \<open>pending\<close>, and no
  acknowledgement.\<close>

definition leave_for_unlock :: "entry_env \<Rightarrow> 'addr stream_entry \<Rightarrow> 'addr Store \<Rightarrow> 'addr outcome" where
  "leave_for_unlock ev e s =
     or_bail (hset_state (ev_io ev SHset) (en_id e) Paused s) (\<lambda>_ s1.
     let s2 = snd (hsetnx_state (ev_io ev SHsetnx) (en_id e) Pending s1)
     in or_bail (hset_state (ev_io ev SHset2) (en_id e) Pending s2) (\<lambda>_ s3. (Continue, s3, [])))"

definition mark_when :: "bool \<Rightarrow> u64 \<Rightarrow> string \<Rightarrow> u64 \<Rightarrow> effect list" where
  "mark_when c rid txid rh = (if c then [MarkProcessed rid txid rh] else [])"

definition confirm_effects :: "MoneroConfig \<Rightarrow> bool \<Rightarrow> entry_env \<Rightarrow> u64 \<Rightarrow> string \<Rightarrow> effect list" where
  "confirm_effects cfg marker ev rid txid =
     (if marker \<and> wait_confirmed (ev_polls ev) (ev_poll_ns ev) (confirm_wait_secs cfg) = Some True
      then [MarkProcessed rid txid (case oldest_unspent_height (ev_unspent ev) of Some h \<Rightarrow> h | None \<Rightarrow> 0)]
      else [])"

definition transfer_rejected ::
  "bool \<Rightarrow> entry_env \<Rightarrow> 'addr stream_entry \<Rightarrow> json \<Rightarrow> 'addr Store \<Rightarrow> 'addr outcome" where
  "transfer_rejected marker ev e err s =
     (if is_permanent_transfer_error err then
        emit (mark_when marker (en_id e) ''FAILED:permanent'' 0)
          (ack_entry ev e (snd (hset_state (ev_io ev SHset) (en_id e) Failed s)))
      else (Bail, snd (hset_state (ev_io ev SHset) (en_id e) Pending s), []))"

definition transfer_done ::
  "MoneroConfig \<Rightarrow> bool \<Rightarrow> entry_env \<Rightarrow> 'addr stream_entry \<Rightarrow> json \<Rightarrow> 'addr Store \<Rightarrow> 'addr outcome" where
  "transfer_done cfg marker ev e raw s =
     (case decode_transfer_resp raw of
        None \<Rightarrow> (Bail, s, [])
      | Some txid \<Rightarrow>
          or_bail (mark_redemption_sent (ev_io ev SMarkSent) (en_id e) txid s) (\<lambda>_ s1.
          emit (confirm_effects cfg marker ev (en_id e) txid) (ack_entry ev e s1)))"

definition rpc_error :: "json \<Rightarrow> json option" where
  "rpc_error raw = (case json_get ''error'' raw of
     None \<Rightarrow> None | Some err \<Rightarrow> if err = JNull then None else Some err)"

text \<open>An amount above \<open>u64::MAX\<close> cannot be put into the request: \<open>json!\<close> panics before the wallet is called, and
  the redemption stays in flight. The panic ends the consumer; here it ends the drain.\<close>

definition send_payout ::
  "MoneroConfig \<Rightarrow> bool \<Rightarrow> entry_env \<Rightarrow> 'addr stream_entry \<Rightarrow> u128 \<Rightarrow> 'addr Store \<Rightarrow> 'addr outcome" where
  "send_payout cfg marker ev e payout_atomic s =
     (let stamped = stamp_amount payout_atomic (en_id e)
      in if drop_bit 64 stamped \<noteq> 0 then (Bail, s, [])
         else emit [Transfer (en_id e) stamped (en_xmr_addr e) (ev_broadcast ev)]
           (case ev_transfer ev of
              None \<Rightarrow> (Bail, s, [])
            | Some raw \<Rightarrow>
                (case rpc_error raw of
                   Some err \<Rightarrow> transfer_rejected marker ev e err s
                 | None \<Rightarrow> transfer_done cfg marker ev e raw s)))"

definition snap_fresh :: "entry_env \<Rightarrow> TreasurySnapshot \<Rightarrow> bool" where
  "snap_fresh ev snap \<longleftrightarrow> \<bar>i64_wrap (ev_now_unix ev - as_of_unix snap)\<bar> \<le> 120"

definition pay_claimed ::
  "MoneroConfig \<Rightarrow> bool \<Rightarrow> entry_env \<Rightarrow> 'addr stream_entry \<Rightarrow> 'addr Store \<Rightarrow> 'addr outcome" where
  "pay_claimed cfg marker ev e s =
     (case treasury_snapshot (ev_io ev SSnapshot) s of
        (Some (Some snap), s1) \<Rightarrow>
          if \<not> snap_fresh ev snap then defer_entry ev e s1
          else or_bail (pending_atomic (ev_io ev SPending) s1) (\<lambda>p s2.
            case payout_price cfg snap (word_of_int (max p 0)) (entry_amount e) of
              Unpriceable \<Rightarrow> close_as ev e Paused s2
            | Dust \<Rightarrow> emit (mark_when marker (en_id e) ''dust-skipped'' 0) (close_as ev e Failed s2)
            | Locked _ \<Rightarrow> leave_for_unlock ev e s2
            | Pay payout_atomic \<Rightarrow> send_payout cfg marker ev e payout_atomic s2)
      | (_, s1) \<Rightarrow> defer_entry ev e s1)"

definition claim_and_pay ::
  "MoneroConfig \<Rightarrow> bool \<Rightarrow> entry_env \<Rightarrow> 'addr stream_entry \<Rightarrow> 'addr Store \<Rightarrow> 'addr outcome" where
  "claim_and_pay cfg marker ev e s =
     or_bail (try_mark_redemption_in_flight (ev_io ev SClaim) (en_id e) s) (\<lambda>claimed s1.
     if \<not> claimed then ack_entry ev e (snd (redemption_state (ev_io ev SState) (en_id e) s1))
     else pay_claimed cfg marker ev e s1)"

definition reconcile ::
  "MoneroConfig \<Rightarrow> bool \<Rightarrow> entry_env \<Rightarrow> 'addr stream_entry \<Rightarrow> 'addr Store \<Rightarrow> 'addr outcome" where
  "reconcile cfg marker ev e s =
     (case find_paid_tx (ev_height ev) (ev_transfers ev) (en_id e) of
        None \<Rightarrow> (Break, s, [])
      | Some (Some (txid, confirmed)) \<Rightarrow>
          emit (Reconciled (en_id e) txid # mark_when (confirmed \<and> marker) (en_id e) txid 0)
            (ack_entry ev e (snd (mark_redemption_sent (ev_io ev SMarkSent) (en_id e) txid s)))
      | Some None \<Rightarrow> claim_and_pay cfg marker ev e s)"

definition pay_entry ::
  "MoneroConfig \<Rightarrow> bool \<Rightarrow> entry_env \<Rightarrow> 'addr stream_entry \<Rightarrow> 'addr Store \<Rightarrow> 'addr outcome" where
  "pay_entry cfg marker ev e s =
     (if entry_amount e > ucast (per_tx_cap_atomic cfg) then close_as ev e Paused s
      else if marker then
        (case ev_processed ev of
           Some True \<Rightarrow> close_as ev e Sent s
         | Some False \<Rightarrow> reconcile cfg marker ev e s
         | None \<Rightarrow> (Break, s, []))
      else reconcile cfg marker ev e s)"

section \<open>One drain of the stream\<close>

record drain_env =
  de_now_ms :: int
  de_claim_io :: io
  de_read_io :: io
  de_entry :: "nat \<Rightarrow> entry_env"

fun drain_entries ::
  "MoneroConfig \<Rightarrow> bool \<Rightarrow> (nat \<Rightarrow> entry_env) \<Rightarrow> nat \<Rightarrow> 'addr stream_entry list \<Rightarrow> 'addr Store \<Rightarrow>
   nat option \<times> 'addr Store \<times> effect list" where
  "drain_entries cfg marker envs n [] s = (Some n, s, [])"
| "drain_entries cfg marker envs n (e # es) s =
     (case pay_entry cfg marker (envs (en_no e)) e s of
        (Continue, s1, l) \<Rightarrow>
          (case drain_entries cfg marker envs (Suc n) es s1 of (r, s2, l2) \<Rightarrow> (r, s2, l @ l2))
      | (Break, s1, l) \<Rightarrow> (Some n, s1, l)
      | (Bail, s1, l) \<Rightarrow> (None, s1, l))"

definition drain_once ::
  "MoneroConfig \<Rightarrow> bool \<Rightarrow> drain_env \<Rightarrow> 'addr Store \<Rightarrow> nat option \<times> 'addr Store \<times> effect list" where
  "drain_once cfg marker de s =
     (case round_trip (de_claim_io de) (xautoclaim (de_now_ms de)) s of
        (claim_reply, s1) \<Rightarrow>
          let reclaimed = (case claim_reply of None \<Rightarrow> [] | Some es \<Rightarrow> es)
          in case round_trip (de_read_io de) (xreadgroup (de_now_ms de)) s1 of
               (None, s2) \<Rightarrow> (None, s2, [])
             | (Some es, s2) \<Rightarrow> drain_entries cfg marker (de_entry de) 0 (reclaimed @ es) s2)"

record loop_tick =
  lt_cancelled :: bool
  lt_drain :: drain_env
  lt_cancelled_in_backoff :: bool

fun run_loop_with_shutdown ::
  "MoneroConfig \<Rightarrow> bool \<Rightarrow> loop_tick list \<Rightarrow> 'addr Store \<Rightarrow> 'addr Store \<times> effect list" where
  "run_loop_with_shutdown cfg marker [] s = (s, [])"
| "run_loop_with_shutdown cfg marker (t # ts) s =
     (if lt_cancelled t then (s, [])
      else case drain_once cfg marker (lt_drain t) s of
             (r, s1, l) \<Rightarrow>
               if r = None \<and> lt_cancelled_in_backoff t then (s1, l)
               else (case run_loop_with_shutdown cfg marker ts s1 of (s2, l2) \<Rightarrow> (s2, l @ l2)))"

section \<open>Lemmas: the amount\<close>

lemma payout_u256_nat:
  "unat (payout_u256 cfg snap denom amount) =
     unat amount * unat (min (monero_balance_atomic snap) (payout_cap cfg denom)) div unat denom"
proof -
  let ?b = "min (monero_balance_atomic snap) (payout_cap cfg denom)"
  have "unat amount * unat ?b \<le> (2 ^ 128 - 1) * (2 ^ 128 - 1)"
    using unat_bound [of amount] unat_bound [of ?b] by (intro mult_le_mono) auto
  then have "unat (sat_mul (ucast amount :: u256) (ucast ?b)) = unat amount * unat ?b"
    by (simp add: unat_sat_mul unat_ucast_up)
  then show ?thesis by (simp add: payout_u256_def unat_div unat_ucast_up Let_def)
qed

lemma payout_cap_le:
  "10000 * unat (payout_cap cfg denom) \<le> unat denom * (10000 + unat (max_payout_premium_bp cfg))"
proof -
  define x where "x = sat_mul denom (ucast (max_payout_premium_bp cfg))"
  have x: "unat x \<le> unat denom * unat (max_payout_premium_bp cfg)"
    unfolding x_def unat_sat_mul by (simp add: unat_ucast_up)
  have "unat (x div 10000) = unat x div 10000" by (simp add: unat_div)
  then have "10000 * unat (x div 10000) \<le> unat x" by simp
  moreover have "unat (payout_cap cfg denom) \<le> unat denom + unat (x div 10000)"
    unfolding payout_cap_def x_def unat_sat_add by (rule min.cobounded1)
  ultimately have "10000 * unat (payout_cap cfg denom) \<le> 10000 * unat denom + unat x" by linarith
  with x show ?thesis by (simp add: distrib_left)
qed

lemma ucast_u256_small: "drop_bit 128 (w :: u256) = 0 \<Longrightarrow> unat (ucast w :: u128) = unat w"
  by (rule unat_ucast_drop) simp

lemma payout_price_Pay:
  assumes "payout_price cfg snap p amount = Pay q"
  shows "0 < unat (payout_denom snap p)" "STAMP_MOD \<le> q" "q \<le> monero_unlocked_atomic snap"
    "unat q = unat amount * unat (min (monero_balance_atomic snap) (payout_cap cfg (payout_denom snap p)))
        div unat (payout_denom snap p)"
proof -
  let ?d = "payout_denom snap p"
  have *: "?d \<noteq> 0" "drop_bit 128 (payout_u256 cfg snap ?d amount) = 0"
    "q = ucast (payout_u256 cfg snap ?d amount)" "\<not> q < STAMP_MOD" "\<not> q > monero_unlocked_atomic snap"
    using assms by (auto simp: payout_price_def Let_def split: if_splits)
  show "0 < unat ?d" using *(1) by (simp add: unat_gt_0)
  show "STAMP_MOD \<le> q" "q \<le> monero_unlocked_atomic snap" using *(4,5) by simp_all
  show "unat q = unat amount * unat (min (monero_balance_atomic snap) (payout_cap cfg ?d)) div unat ?d"
    using ucast_u256_small [OF *(2)] by (simp add: *(3) payout_u256_nat)
qed

text \<open>The payout respects the pro-rata share and the premium.\<close>

lemma payout_share:
  assumes "payout_price cfg snap p amount = Pay q"
  shows "unat q * unat (payout_denom snap p) \<le> unat amount * unat (monero_balance_atomic snap)"
    and "10000 * unat q \<le> unat amount * (10000 + unat (max_payout_premium_bp cfg))"
proof -
  let ?D = "unat (payout_denom snap p)" and ?W = "unat (monero_balance_atomic snap)"
  let ?cap = "unat (payout_cap cfg (payout_denom snap p))"
  note P = payout_price_Pay [OF assms]
  have "unat (min (monero_balance_atomic snap) (payout_cap cfg (payout_denom snap p))) = min ?W ?cap"
    by (simp add: min_def word_le_nat_alt)
  then have "unat q * ?D \<le> unat amount * min ?W ?cap" using P(4) by (simp add: div_times_less_eq_dividend)
  then have qD: "unat q * ?D \<le> unat amount * ?W" "unat q * ?D \<le> unat amount * ?cap"
    by (meson le_trans min.cobounded1 min.cobounded2 mult_le_mono2)+
  then have "10000 * (unat q * ?D) \<le> unat amount * (10000 * ?cap)" by simp
  also have "\<dots> \<le> unat amount * (?D * (10000 + unat (max_payout_premium_bp cfg)))"
    by (rule mult_le_mono2 [OF payout_cap_le])
  finally have "10000 * unat q * ?D \<le> unat amount * (10000 + unat (max_payout_premium_bp cfg)) * ?D"
    by (simp add: ac_simps)
  then show "10000 * unat q \<le> unat amount * (10000 + unat (max_payout_premium_bp cfg))" using P(1) by simp
  show "unat q * ?D \<le> unat amount * ?W" by (rule qD(1))
qed

section \<open>Lemmas: what one entry can do\<close>

fun broadcast_ids :: "effect list \<Rightarrow> u64 list" where
  "broadcast_ids [] = []"
| "broadcast_ids (Transfer rid a x b # l) = (if b then [rid] else []) @ broadcast_ids l"
| "broadcast_ids (MarkProcessed rid t h # l) = broadcast_ids l"
| "broadcast_ids (Reconciled rid t # l) = broadcast_ids l"

lemma broadcast_ids_append [simp]: "broadcast_ids (l @ l') = broadcast_ids l @ broadcast_ids l'"
  by (induction l rule: broadcast_ids.induct) auto

lemma broadcast_marks [simp]:
  "broadcast_ids (mark_when c r t h) = []" "broadcast_ids (confirm_effects cfg m ev r t) = []"
  by (simp_all add: mark_when_def confirm_effects_def)

lemma emit_simp [simp]: "emit es (c, s, l) = (c, s, es @ l)"
  by (simp add: emit_def)

text \<open>What no step on redemption \<open>rid\<close> touches.\<close>

definition keeps :: "u64 \<Rightarrow> 'addr Store \<Rightarrow> 'addr Store \<Rightarrow> bool" where
  "keeps rid s s' \<longleftrightarrow> (\<forall>r. r \<noteq> rid \<longrightarrow> st_state s' r = st_state s r) \<and> st_amount s' = st_amount s \<and>
     st_stream s' = st_stream s \<and> st_next_no s' = st_next_no s \<and> st_group_next s' = st_group_next s \<and>
     st_cursors s' = st_cursors s"

text \<open>\<open>reaches rid V s s'\<close>: the step keeps the rest and leaves the state of \<open>rid\<close> alone
  or makes it one of \<open>V\<close>.\<close>

definition reaches :: "u64 \<Rightarrow> RedemptionState set \<Rightarrow> 'addr Store \<Rightarrow> 'addr Store \<Rightarrow> bool" where
  "reaches rid V s s' \<longleftrightarrow> keeps rid s s' \<and>
     (st_state s' rid = st_state s rid \<or> (\<exists>v\<in>V. st_state s' rid = Some v))"

definition quiet :: "u64 \<Rightarrow> RedemptionState set \<Rightarrow> 'addr Store \<Rightarrow> 'addr outcome \<Rightarrow> bool" where
  "quiet rid V s out \<longleftrightarrow> (case out of (c, s', l) \<Rightarrow> reaches rid V s s' \<and> broadcast_ids l = [])"

lemma reaches_refl [simp, intro]: "reaches rid V s s"
  by (simp add: reaches_def keeps_def)

lemma reaches_trans: "reaches rid V s t \<Longrightarrow> reaches rid V t u \<Longrightarrow> reaches rid V s u"
  by (auto simp: reaches_def keeps_def)

lemma reaches_mono: "reaches rid V s t \<Longrightarrow> V \<subseteq> W \<Longrightarrow> reaches rid W s t"
  by (auto simp: reaches_def)

lemma reaches_round_trip: "reaches rid V s (snd (f s)) \<Longrightarrow> reaches rid V s (snd (round_trip io f s))"
  by (cases io) (simp_all add: round_trip_def)

lemma reaches_ops [intro]:
  "v \<in> V \<Longrightarrow> reaches rid V s (snd (hset_state io rid v s))"
  "v \<in> V \<Longrightarrow> reaches rid V s (snd (hsetnx_state io rid v s))"
  "reaches rid V s (snd (xack io no s))"
  "reaches rid V s (snd (redemption_state io r s))"
  "reaches rid V s (snd (treasury_snapshot io s))"
  "reaches rid V s (snd (pending_atomic io s))"
  unfolding hset_state_def hsetnx_state_def xack_def redemption_state_def treasury_snapshot_def pending_atomic_def
  by (rule reaches_round_trip; auto simp: reaches_def keeps_def)+

lemma sent_script_frame:
  "keeps rid s (snd (sent_script rid txid s)) \<and>
   (st_state (snd (sent_script rid txid s)) rid = Some Sent) \<and>
   st_snapshot (snd (sent_script rid txid s)) = st_snapshot s \<and> st_pel (snd (sent_script rid txid s)) = st_pel s"
  by (auto simp: sent_script_def keeps_def Let_def split: option.splits)

lemma reaches_mark_sent [intro]: "Sent \<in> V \<Longrightarrow> reaches rid V s (snd (mark_redemption_sent io rid txid s))"
  unfolding mark_redemption_sent_def using sent_script_frame [of rid s txid]
  by (intro reaches_round_trip) (auto simp: reaches_def)

lemma quiet_stop [simp]: "quiet rid V s (c, s', []) \<longleftrightarrow> reaches rid V s s'"
  by (simp add: quiet_def)

lemma quiet_bind:
  assumes "reaches rid V s (snd x)" "\<And>r. fst x = Some r \<Longrightarrow> quiet rid V (snd x) (k r (snd x))"
  shows "quiet rid V s (or_bail x k)"
  using assms reaches_trans [OF assms(1)]
  by (cases x; cases "fst x") (auto simp: or_bail_def quiet_def split: prod.splits)

lemma quiet_after: "reaches rid V s s1 \<Longrightarrow> quiet rid V s1 out \<Longrightarrow> quiet rid V s out"
  using reaches_trans by (fastforce simp: quiet_def split: prod.splits)

lemma quiet_emit: "broadcast_ids es = [] \<Longrightarrow> quiet rid V s (emit es out) \<longleftrightarrow> quiet rid V s out"
  by (cases out) (simp add: quiet_def)

lemma quiet_mono: "quiet rid V s out \<Longrightarrow> V \<subseteq> W \<Longrightarrow> quiet rid W s out"
  by (auto simp: quiet_def intro: reaches_mono split: prod.splits)

lemma quiet_ack: "quiet rid V s (ack_entry ev e s)"
  unfolding ack_entry_def by (rule quiet_bind) auto

lemma quiet_close: "v \<in> V \<Longrightarrow> quiet (en_id e) V s (close_as ev e v s)"
  unfolding close_as_def by (rule quiet_bind) (auto intro: quiet_ack)

lemma quiet_defer: "Pending \<in> V \<Longrightarrow> quiet (en_id e) V s (defer_entry ev e s)"
  unfolding defer_entry_def by (rule quiet_bind) auto

lemma quiet_leave:
  assumes "{Pending, Paused} \<subseteq> V"
  shows "quiet (en_id e) V s (leave_for_unlock ev e s)"
proof -
  have V: "Pending \<in> V" "Paused \<in> V" using assms by auto
  let ?rest = "\<lambda>s1. or_bail (hset_state (ev_io ev SHset2) (en_id e) Pending
      (snd (hsetnx_state (ev_io ev SHsetnx) (en_id e) Pending s1))) (\<lambda>_ s3. (Continue, s3, []))"
  have "quiet (en_id e) V (snd (hsetnx_state (ev_io ev SHsetnx) (en_id e) Pending s1)) (?rest s1)" for s1
    by (rule quiet_bind) (simp_all add: reaches_ops(1) V)
  then have "quiet (en_id e) V s1 (?rest s1)" for s1
    by (rule quiet_after [OF reaches_ops(2) [OF V(1)]])
  then show ?thesis
    unfolding leave_for_unlock_def Let_def by (rule quiet_bind [OF reaches_ops(1) [OF V(2)]])
qed

lemma quiet_rejected:
  assumes "{Pending, Failed} \<subseteq> V"
  shows "quiet (en_id e) V s (transfer_rejected marker ev e err s)"
proof -
  have "quiet (en_id e) V s (ack_entry ev e (snd (hset_state io (en_id e) Failed s)))" for io
    using assms by (intro quiet_after [OF reaches_ops(1) quiet_ack]) simp
  then show ?thesis using assms by (simp add: transfer_rejected_def quiet_emit reaches_ops(1))
qed

lemma quiet_done: "Sent \<in> V \<Longrightarrow> quiet (en_id e) V s (transfer_done cfg marker ev e raw s)"
  unfolding transfer_done_def
  by (auto simp: quiet_emit split: option.splits intro!: quiet_bind [OF reaches_mark_sent] quiet_ack)

text \<open>The wallet's documented behaviour: a \<open>transfer\<close> answered with an error object has
  not put a transaction on the network.\<close>

definition wallet_honest :: "entry_env \<Rightarrow> bool" where
  "wallet_honest ev \<longleftrightarrow>
     (case ev_transfer ev of None \<Rightarrow> True | Some raw \<Rightarrow> rpc_error raw \<noteq> None \<longrightarrow> \<not> ev_broadcast ev)"

definition pays_or_quiet :: "u64 \<Rightarrow> 'addr Store \<Rightarrow> 'addr outcome \<Rightarrow> bool" where
  "pays_or_quiet rid s out \<longleftrightarrow> quiet rid UNIV s out \<or>
     (case out of (c, s', l) \<Rightarrow> reaches rid {Sent} s s' \<and> broadcast_ids l = [rid])"

lemma quiet_UNIV: "quiet rid V s out \<Longrightarrow> quiet rid UNIV s out"
  by (rule quiet_mono) simp_all

lemma pays_quiet: "quiet rid UNIV s out \<Longrightarrow> pays_or_quiet rid s out"
  by (simp add: pays_or_quiet_def)

lemma pays_emit: "broadcast_ids es = [] \<Longrightarrow> pays_or_quiet rid s (emit es out) \<longleftrightarrow> pays_or_quiet rid s out"
  by (cases out) (simp add: pays_or_quiet_def quiet_def)

lemma send_payout_pays:
  assumes "wallet_honest ev"
  shows "pays_or_quiet (en_id e) s (send_payout cfg marker ev e q s)"
proof -
  have sent: "pays_or_quiet (en_id e) s (emit [Transfer (en_id e) a x b] out)"
    if "quiet (en_id e) {Sent} s out" for a x b out
    using that reaches_mono [OF _ subset_UNIV]
    by (cases out; cases b) (auto simp: pays_or_quiet_def quiet_def)
  have err: "pays_or_quiet (en_id e) s (emit [Transfer (en_id e) a x False] (transfer_rejected marker ev e err s))"
    for a x err
    using quiet_rejected [of UNIV e s marker ev err]
    by (intro pays_quiet) (simp add: quiet_emit)
  have stop: "pays_or_quiet (en_id e) s (Bail, s, [])" by (intro pays_quiet) (simp add: quiet_def)
  show ?thesis
  proof (cases "ev_transfer ev")
    case None
    then show ?thesis using sent [of "(Bail, s, [])"] stop
      by (simp add: send_payout_def Let_def del: emit_simp)
  next
    case (Some raw)
    then show ?thesis
    proof (cases "rpc_error raw")
      case None
      then show ?thesis using Some stop by (auto simp: send_payout_def Let_def intro: sent quiet_done)
    next
      case (Some er)
      then have "\<not> ev_broadcast ev" using assms \<open>ev_transfer ev = Some raw\<close> by (simp add: wallet_honest_def)
      then show ?thesis using Some \<open>ev_transfer ev = Some raw\<close> err stop by (simp add: send_payout_def Let_def)
    qed
  qed
qed

lemma read_ops [simp]:
  "snd (treasury_snapshot io s) = s" "snd (pending_atomic io s) = s" "snd (redemption_state io r s) = s"
  by (cases io; simp add: treasury_snapshot_def pending_atomic_def redemption_state_def round_trip_def)+

lemma snapshot_read: "treasury_snapshot io s = (Some x, s') \<longleftrightarrow> io = IoOk \<and> x = st_snapshot s \<and> s' = s"
  by (cases io) (auto simp: treasury_snapshot_def round_trip_def)

lemma pending_read:
  "pending_atomic io s = (Some x, s') \<longleftrightarrow> io = IoOk \<and> x = max (or_zero (st_pending_atomic s)) 0 \<and> s' = s"
  by (cases io) (auto simp: pending_atomic_def round_trip_def)

lemma read_ops_state:
  "treasury_snapshot io s = (x, s') \<Longrightarrow> s' = s" "pending_atomic io s = (y, s') \<Longrightarrow> s' = s"
  using read_ops(1,2) [of io s] by simp_all

text \<open>What \<open>pay_claimed\<close> comes to, by the snapshot it reads.\<close>

lemma pay_claimed_cases:
  obtains "pay_claimed cfg marker ev e s = defer_entry ev e s"
  | "pay_claimed cfg marker ev e s = (Bail, s, [])"
  | (priced) snap where "st_snapshot s = Some snap" "snap_fresh ev snap"
      "pay_claimed cfg marker ev e s =
         (case payout_price cfg snap (word_of_int (max (or_zero (st_pending_atomic s)) 0)) (entry_amount e) of
            Unpriceable \<Rightarrow> close_as ev e Paused s
          | Dust \<Rightarrow> emit (mark_when marker (en_id e) ''dust-skipped'' 0) (close_as ev e Failed s)
          | Locked _ \<Rightarrow> leave_for_unlock ev e s
          | Pay payout_atomic \<Rightarrow> send_payout cfg marker ev e payout_atomic s)"
proof (cases "treasury_snapshot (ev_io ev SSnapshot) s")
  case (Pair r s1)
  then have s1: "s1 = s" by (rule read_ops_state)
  show ?thesis
  proof (cases "\<exists>snap. r = Some (Some snap) \<and> snap_fresh ev snap")
    case False
    then have "pay_claimed cfg marker ev e s = defer_entry ev e s"
      using Pair s1 by (auto simp: pay_claimed_def split: option.splits)
    then show ?thesis by (rule that(1))
  next
    case True
    then obtain snap where snap: "r = Some (Some snap)" "snap_fresh ev snap" by blast
    obtain p s2 where p: "pending_atomic (ev_io ev SPending) s = (p, s2)" by fastforce
    then have s2: "s2 = s" by (rule read_ops_state)
    show ?thesis
    proof (cases p)
      case None
      then show ?thesis using that(2) Pair s1 snap p s2 by (simp add: pay_claimed_def or_bail_def)
    next
      case (Some v)
      then have "v = max (or_zero (st_pending_atomic s)) 0" using p by (simp add: pending_read)
      then show ?thesis
        using that(3) [of snap] Pair s1 snap p s2 Some snapshot_read [of "ev_io ev SSnapshot" s "Some snap" s]
        by (simp add: pay_claimed_def or_bail_def)
    qed
  qed
qed

lemma pay_claimed_pays:
  assumes "wallet_honest ev"
  shows "pays_or_quiet (en_id e) s (pay_claimed cfg marker ev e s)"
proof (cases rule: pay_claimed_cases [of cfg marker ev e s])
  case 1
  then show ?thesis by (simp add: pays_quiet quiet_defer)
next
  case 2
  then show ?thesis by (simp add: pays_quiet)
next
  case (priced snap)
  then show ?thesis using send_payout_pays [OF assms]
    by (auto simp: pays_emit quiet_close quiet_leave split: price.splits intro: pays_quiet)
qed

definition entry_result :: "u64 \<Rightarrow> 'addr Store \<Rightarrow> 'addr outcome \<Rightarrow> bool" where
  "entry_result rid s out \<longleftrightarrow>
     (case out of (c, s', l) \<Rightarrow>
        keeps rid s s' \<and> (st_state s rid \<noteq> None \<longrightarrow> st_state s' rid \<noteq> None) \<and>
        (broadcast_ids l = [] \<and> (st_state s' rid = Some Pending \<longrightarrow> st_state s rid = Some Pending) \<or>
         broadcast_ids l = [rid] \<and> st_state s rid = Some Pending \<and>
           (st_state s' rid = Some InFlight \<or> st_state s' rid = Some Sent)))"

lemma entry_result_quiet: "quiet rid V s out \<Longrightarrow> Pending \<notin> V \<Longrightarrow> entry_result rid s out"
  by (auto simp: quiet_def entry_result_def reaches_def split: prod.splits)

lemma try_mark_frame:
  assumes "try_mark_redemption_in_flight io rid s = (r, s1)"
  shows "s1 = s \<and> (r = Some False \<longrightarrow> st_state s rid \<noteq> Some Pending) \<and> r \<noteq> Some True \<or>
    r \<noteq> Some False \<and> st_state s rid = Some Pending \<and> s1 = s\<lparr>st_state := (st_state s)(rid := Some InFlight)\<rparr>"
  using assms by (cases io) (auto simp: try_mark_redemption_in_flight_def round_trip_def split: if_splits)

lemma entry_result_claimed:
  assumes "st_state s rid = Some Pending" "pays_or_quiet rid (s\<lparr>st_state := (st_state s)(rid := Some InFlight)\<rparr>) out"
  shows "entry_result rid s out"
  using assms by (auto simp: pays_or_quiet_def quiet_def entry_result_def reaches_def keeps_def split: prod.splits)

lemma claim_and_pay_result:
  assumes "wallet_honest ev"
  shows "entry_result (en_id e) s (claim_and_pay cfg marker ev e s)"
proof -
  obtain r s1 where tm: "try_mark_redemption_in_flight (ev_io ev SClaim) (en_id e) s = (r, s1)" by fastforce
  show ?thesis
  proof (cases "s1 = s \<and> r \<noteq> Some True")
    case True
    then have "quiet (en_id e) {} s (claim_and_pay cfg marker ev e s)"
      using tm by (cases r) (auto simp: claim_and_pay_def or_bail_def quiet_ack)
    then show ?thesis by (rule entry_result_quiet) simp
  next
    case False
    then have s1: "r \<noteq> Some False" "st_state s (en_id e) = Some Pending"
      "s1 = s\<lparr>st_state := (st_state s)(en_id e := Some InFlight)\<rparr>"
      using try_mark_frame [OF tm] by auto
    have "pays_or_quiet (en_id e) s1 (claim_and_pay cfg marker ev e s)"
      using tm s1(1) pay_claimed_pays [OF assms, of e s1 cfg marker]
      by (cases r) (auto simp: claim_and_pay_def or_bail_def intro: pays_quiet)
    then show ?thesis unfolding s1(3) by (rule entry_result_claimed [OF s1(2)])
  qed
qed

lemma reconcile_result:
  assumes "wallet_honest ev"
  shows "entry_result (en_id e) s (reconcile cfg marker ev e s)"
proof -
  have "quiet (en_id e) {Sent} s (ack_entry ev e (snd (mark_redemption_sent io (en_id e) txid s)))" for io txid
    by (rule quiet_after [OF reaches_mark_sent quiet_ack]) simp
  then have "entry_result (en_id e) s (emit (Reconciled (en_id e) txid # mark_when c (en_id e) txid 0)
      (ack_entry ev e (snd (mark_redemption_sent io (en_id e) txid s))))" for c io txid
    by (intro entry_result_quiet [of _ "{Sent}"]) (simp_all add: quiet_emit)
  moreover have "entry_result (en_id e) s (Break, s, [])"
    by (rule entry_result_quiet [of _ "{}"]) simp_all
  ultimately show ?thesis using claim_and_pay_result [OF assms]
    by (auto simp: reconcile_def split: option.splits)
qed

lemma pay_entry_result:
  assumes "wallet_honest ev"
  shows "entry_result (en_id e) s (pay_entry cfg marker ev e s)"
proof -
  have "entry_result (en_id e) s (close_as ev e v s)" if "v \<noteq> Pending" for v
    using quiet_close [of v "{v}"] that by (intro entry_result_quiet [of _ "{v}"]) auto
  moreover have "entry_result (en_id e) s (Break, s, [])"
    by (rule entry_result_quiet [of _ "{}"]) simp_all
  ultimately show ?thesis using reconcile_result [OF assms]
    by (auto simp: pay_entry_def split: option.splits bool.splits)
qed

section \<open>Lemmas: the ledger across one entry\<close>

abbreviation store_of :: "'addr outcome \<Rightarrow> 'addr Store" where
  "store_of out \<equiv> fst (snd out)"

lemma store_of_emit [simp]: "store_of (emit es out) = store_of out"
  by (cases out) simp

lemma ledger_bind:
  assumes "ledger (snd x)" "\<And>r. fst x = Some r \<Longrightarrow> ledger (store_of (k r (snd x)))"
  shows "ledger (store_of (or_bail x k))"
  using assms by (cases x; cases "fst x") (auto simp: or_bail_def)

lemma ledger_xack: "ledger s \<Longrightarrow> ledger (snd (xack io no s))"
  unfolding xack_def by (rule round_trip_keeps, assumption) (erule ledger_frame; simp)

lemma ledger_ack: "ledger s \<Longrightarrow> ledger (store_of (ack_entry ev e s))"
  unfolding ack_entry_def by (rule ledger_bind) (simp_all add: ledger_xack)

lemma ledger_close:
  "ledger s \<Longrightarrow> owing (Some v) \<longrightarrow> owing (st_state s (en_id e)) \<Longrightarrow> ledger (store_of (close_as ev e v s))"
  unfolding close_as_def by (rule ledger_bind) (simp_all add: ledger_hset_state ledger_ack)

lemma ledger_defer: "ledger s \<Longrightarrow> owing (st_state s (en_id e)) \<Longrightarrow> ledger (store_of (defer_entry ev e s))"
  unfolding defer_entry_def by (rule ledger_bind) (simp_all add: ledger_hset_state)

lemma owing_hset: "owing (st_state s rid) \<Longrightarrow> owing (Some v) \<Longrightarrow> owing (st_state (snd (hset_state io rid v s)) rid)"
  unfolding hset_state_def by (rule round_trip_keeps) simp_all

lemma hsetnx_noop: "st_state s rid \<noteq> None \<Longrightarrow> snd (hsetnx_state io rid v s) = s"
  by (cases io) (auto simp: hsetnx_state_def round_trip_def)

lemma ledger_leave:
  assumes "ledger s" "owing (st_state s (en_id e))"
  shows "ledger (store_of (leave_for_unlock ev e s))"
proof -
  let ?s1 = "snd (hset_state (ev_io ev SHset) (en_id e) Paused s)"
  have l: "ledger ?s1" using assms by (simp add: ledger_hset_state)
  have o: "owing (st_state ?s1 (en_id e))" using assms by (simp add: owing_hset)
  then have "st_state ?s1 (en_id e) \<noteq> None" by (metis owing_simps(1))
  then have "snd (hsetnx_state (ev_io ev SHsetnx) (en_id e) Pending ?s1) = ?s1" by (rule hsetnx_noop)
  then show ?thesis unfolding leave_for_unlock_def Let_def
    by (intro ledger_bind) (simp_all add: l o ledger_hset_state)
qed

lemma ledger_rejected:
  "ledger s \<Longrightarrow> owing (st_state s (en_id e)) \<Longrightarrow> ledger (store_of (transfer_rejected marker ev e err s))"
  by (simp add: transfer_rejected_def ledger_hset_state ledger_ack)

lemma ledger_done: "ledger s \<Longrightarrow> ledger (store_of (transfer_done cfg marker ev e raw s))"
  unfolding transfer_done_def
  by (auto split: option.splits intro!: ledger_bind ledger_ack ledger_mark_redemption_sent)

lemma ledger_send:
  "ledger s \<Longrightarrow> owing (st_state s (en_id e)) \<Longrightarrow> ledger (store_of (send_payout cfg marker ev e q s))"
  unfolding send_payout_def Let_def by (auto split: option.splits simp: ledger_rejected ledger_done)

lemma ledger_pay_claimed:
  assumes "ledger s" "owing (st_state s (en_id e))"
  shows "ledger (store_of (pay_claimed cfg marker ev e s))"
proof (cases rule: pay_claimed_cases [of cfg marker ev e s])
  case (priced snap)
  then show ?thesis using assms
    by (auto simp: ledger_close ledger_leave ledger_send split: price.splits)
qed (simp_all add: assms ledger_defer)

lemma ledger_claim_and_pay:
  assumes "ledger s"
  shows "ledger (store_of (claim_and_pay cfg marker ev e s))"
  unfolding claim_and_pay_def
proof (rule ledger_bind)
  let ?x = "try_mark_redemption_in_flight (ev_io ev SClaim) (en_id e) s"
  show l: "ledger (snd ?x)" by (rule ledger_try_mark [OF assms])
  show "ledger (store_of (if \<not> r then ack_entry ev e (snd (redemption_state (ev_io ev SState) (en_id e) (snd ?x)))
      else pay_claimed cfg marker ev e (snd ?x)))" if "fst ?x = Some r" for r
    using that l try_mark_frame [OF surjective_pairing, of "ev_io ev SClaim" "en_id e" s]
    by (auto simp: ledger_ack intro!: ledger_pay_claimed)
qed

lemma ledger_pay_entry:
  assumes "ledger s" "entry_amount e > ucast (per_tx_cap_atomic cfg) \<Longrightarrow> owing (st_state s (en_id e))"
  shows "ledger (store_of (pay_entry cfg marker ev e s))"
proof -
  have "ledger (store_of (reconcile cfg marker ev e s))"
    unfolding reconcile_def using assms(1)
    by (auto split: option.splits simp: ledger_ack ledger_mark_redemption_sent ledger_claim_and_pay)
  then show ?thesis using assms
    by (auto simp: pay_entry_def ledger_close split: option.splits bool.splits)
qed

section \<open>Lemmas: what is acknowledged\<close>

text \<open>An entry leaves the pending list only with a redemption that is no longer
  \<open>pending\<close>.\<close>

definition ack_safe :: "'addr stream_entry \<Rightarrow> (nat \<times> int) list \<Rightarrow> 'addr outcome \<Rightarrow> bool" where
  "ack_safe e pel out \<longleftrightarrow> st_pel (store_of out) = pel \<or>
     st_pel (store_of out) = filter (\<lambda>p. fst p \<noteq> en_no e) pel \<and> st_state (store_of out) (en_id e) \<noteq> Some Pending"

lemma pel_ops [simp]:
  "st_pel (snd (hset_state io rid v s)) = st_pel s" "st_pel (snd (hsetnx_state io rid v s)) = st_pel s"
  "st_pel (snd (mark_redemption_sent io rid txid s)) = st_pel s"
  "st_pel (snd (try_mark_redemption_in_flight io rid s)) = st_pel s"
  using sent_script_frame [of rid s txid]
  by (cases io; simp add: hset_state_def hsetnx_state_def mark_redemption_sent_def
      try_mark_redemption_in_flight_def round_trip_def)+

lemma ack_safe_bind:
  assumes "st_pel (snd x) = pel" "\<And>r. fst x = Some r \<Longrightarrow> ack_safe e pel (k r (snd x))"
  shows "ack_safe e pel (or_bail x k)"
  using assms by (cases x; cases "fst x") (auto simp: or_bail_def ack_safe_def)

lemma ack_safe_emit [simp]: "ack_safe e pel (emit es out) \<longleftrightarrow> ack_safe e pel out"
  by (simp add: ack_safe_def)

lemma ack_safe_stop [simp]: "st_pel s = pel \<Longrightarrow> ack_safe e pel (c, s, l)"
  by (simp add: ack_safe_def)

lemma ack_safe_ack: "st_state s (en_id e) \<noteq> Some Pending \<Longrightarrow> st_pel s = pel \<Longrightarrow> ack_safe e pel (ack_entry ev e s)"
  by (cases "ev_io ev SXack") (auto simp: ack_entry_def or_bail_def xack_def round_trip_def ack_safe_def)

lemma hset_reply: "fst (hset_state io rid v s) = Some r \<Longrightarrow> st_state (snd (hset_state io rid v s)) rid = Some v"
  by (cases io) (simp_all add: hset_state_def round_trip_def)

lemma hset_not_pending:
  "v \<noteq> Pending \<Longrightarrow> st_state s rid \<noteq> Some Pending \<Longrightarrow> st_state (snd (hset_state io rid v s)) rid \<noteq> Some Pending"
  by (cases io) (simp_all add: hset_state_def round_trip_def)

lemma mark_reply: "fst (mark_redemption_sent io rid txid s) = Some r \<Longrightarrow>
  st_state (snd (mark_redemption_sent io rid txid s)) rid = Some Sent"
  using sent_script_frame [of rid s txid] by (cases io) (simp_all add: mark_redemption_sent_def round_trip_def)

lemma ack_safe_close: "v \<noteq> Pending \<Longrightarrow> ack_safe e (st_pel s) (close_as ev e v s)"
  unfolding close_as_def by (rule ack_safe_bind) (auto dest!: hset_reply intro: ack_safe_ack)

lemma ack_safe_no_ack:
  "ack_safe e (st_pel s) (defer_entry ev e s)" "ack_safe e (st_pel s) (leave_for_unlock ev e s)"
  unfolding defer_entry_def leave_for_unlock_def Let_def by (intro ack_safe_bind ack_safe_stop; simp)+

lemma ack_safe_rejected:
  "st_state s (en_id e) \<noteq> Some Pending \<Longrightarrow> ack_safe e (st_pel s) (transfer_rejected marker ev e err s)"
  by (simp add: transfer_rejected_def ack_safe_ack hset_not_pending)

lemma ack_safe_done: "ack_safe e (st_pel s) (transfer_done cfg marker ev e raw s)"
  unfolding transfer_done_def
  by (auto split: option.splits intro!: ack_safe_bind ack_safe_ack simp: mark_reply)

lemma ack_safe_send:
  "st_state s (en_id e) \<noteq> Some Pending \<Longrightarrow> ack_safe e (st_pel s) (send_payout cfg marker ev e q s)"
  unfolding send_payout_def Let_def by (auto split: option.splits simp: ack_safe_rejected ack_safe_done)

lemma ack_safe_pay_claimed:
  assumes "st_state s (en_id e) \<noteq> Some Pending"
  shows "ack_safe e (st_pel s) (pay_claimed cfg marker ev e s)"
proof (cases rule: pay_claimed_cases [of cfg marker ev e s])
  case (priced snap)
  then show ?thesis using assms
    by (auto simp: ack_safe_close ack_safe_no_ack ack_safe_send split: price.splits)
qed (simp_all add: ack_safe_no_ack)

lemma ack_safe_claim_and_pay: "ack_safe e (st_pel s) (claim_and_pay cfg marker ev e s)"
  unfolding claim_and_pay_def
proof (rule ack_safe_bind)
  let ?x = "try_mark_redemption_in_flight (ev_io ev SClaim) (en_id e) s"
  show "ack_safe e (st_pel s) (if \<not> r then ack_entry ev e (snd (redemption_state (ev_io ev SState) (en_id e) (snd ?x)))
      else pay_claimed cfg marker ev e (snd ?x))" if "fst ?x = Some r" for r
    using that try_mark_frame [OF surjective_pairing, of "ev_io ev SClaim" "en_id e" s]
      ack_safe_pay_claimed [of "snd ?x" e cfg marker ev]
    by (auto intro: ack_safe_ack)
qed simp

abbreviation effects_of :: "'addr outcome \<Rightarrow> effect list" where
  "effects_of out \<equiv> snd (snd out)"

lemma effects_of_emit [simp]: "effects_of (emit es out) = es @ effects_of out"
  by (cases out) simp

lemma ack_pel:
  "st_pel (store_of (ack_entry ev e s)) = st_pel s \<or>
   st_pel (store_of (ack_entry ev e s)) = filter (\<lambda>p. fst p \<noteq> en_no e) (st_pel s)"
  by (cases "ev_io ev SXack") (auto simp: ack_entry_def or_bail_def xack_def round_trip_def)

lemma pay_entry_pel:
  fixes s cfg marker ev e
  defines "out \<equiv> pay_entry cfg marker ev e s"
  shows "ack_safe e (st_pel s) out \<or>
    (\<exists>t. Reconciled (en_id e) t \<in> set (effects_of out)) \<and>
    st_pel (store_of out) \<in> {st_pel s, filter (\<lambda>p. fst p \<noteq> en_no e) (st_pel s)}"
proof -
  have "ack_safe e (st_pel s) (reconcile cfg m ev e s) \<or>
    (\<exists>t. Reconciled (en_id e) t \<in> set (effects_of (reconcile cfg m ev e s))) \<and>
    st_pel (store_of (reconcile cfg m ev e s)) \<in> {st_pel s, filter (\<lambda>p. fst p \<noteq> en_no e) (st_pel s)}" for m
    using ack_pel [of ev e "snd (mark_redemption_sent (ev_io ev SMarkSent) (en_id e) _ s)"]
    by (auto simp: reconcile_def ack_safe_claim_and_pay split: option.splits)
  then show ?thesis
    unfolding out_def pay_entry_def
    by (auto simp: ack_safe_close split: option.splits bool.splits)
qed

lemma pay_entry_others_pending:
  assumes "p \<in> set (st_pel s)" "fst p \<noteq> en_no e"
  shows "p \<in> set (st_pel (store_of (pay_entry cfg marker ev e s)))"
  using pay_entry_pel [of e s cfg marker ev] assms by (auto simp: ack_safe_def)

section \<open>The watcher's runs\<close>

text \<open>The state of a run: Redis and every effect so far, newest first. A run
  interleaves enqueueing a redemption, the deliveries of the stream, the handling of
  a delivered entry, and writes to the other keys, with any outcome of every round
  trip. Enqueued amounts are not negative and the counters have room for them.\<close>

record 'addr PaySys =
  ps_store :: "'addr Store"
  ps_effects :: "effect list"

definition counters_fit :: "int \<Rightarrow> 'addr Store \<Rightarrow> bool" where
  "counters_fit amount s \<longleftrightarrow> 0 \<le> amount \<and> in_i64 (or_zero (st_pending_atomic s) + lua_num amount) \<and>
     in_i64 (or_zero (st_pending_count s) + 1)"

definition same_queue :: "'addr Store \<Rightarrow> 'addr Store \<Rightarrow> bool" where
  "same_queue s s' \<longleftrightarrow> st_state s' = st_state s \<and> st_amount s' = st_amount s \<and>
     st_pending_atomic s' = st_pending_atomic s \<and> st_pending_count s' = st_pending_count s \<and>
     st_stream s' = st_stream s \<and> st_next_no s' = st_next_no s \<and>
     st_group_next s' = st_group_next s \<and> st_pel s' = st_pel s"

inductive pay_step :: "MoneroConfig \<Rightarrow> bool \<Rightarrow> 'addr PaySys \<Rightarrow> 'addr PaySys \<Rightarrow> bool"
  for cfg marker where
  enqueue: "counters_fit amount s \<Longrightarrow>
     pay_step cfg marker \<lparr>ps_store = s, ps_effects = l\<rparr>
       \<lparr>ps_store = snd (enqueue_redemption io1 io2 rid from amount xmr s), ps_effects = l\<rparr>"
| claim: "pay_step cfg marker \<lparr>ps_store = s, ps_effects = l\<rparr>
       \<lparr>ps_store = snd (round_trip io (xautoclaim now) s), ps_effects = l\<rparr>"
| read: "pay_step cfg marker \<lparr>ps_store = s, ps_effects = l\<rparr>
       \<lparr>ps_store = snd (round_trip io (xreadgroup now) s), ps_effects = l\<rparr>"
| entry: "e \<in> set (st_stream s) \<Longrightarrow> wallet_honest ev \<Longrightarrow> pay_entry cfg marker ev e s = (c, s', l') \<Longrightarrow>
     pay_step cfg marker \<lparr>ps_store = s, ps_effects = l\<rparr> \<lparr>ps_store = s', ps_effects = rev l' @ l\<rparr>"
| other: "same_queue s s' \<Longrightarrow>
     pay_step cfg marker \<lparr>ps_store = s, ps_effects = l\<rparr> \<lparr>ps_store = s', ps_effects = l\<rparr>"

inductive watch_step :: "MoneroConfig \<Rightarrow> bool \<Rightarrow> 'addr PaySys \<Rightarrow> 'addr PaySys \<Rightarrow> bool"
  for cfg marker where
  watch_enqueue: "counters_fit amount s \<Longrightarrow>
     watch_step cfg marker \<lparr>ps_store = s, ps_effects = l\<rparr>
       \<lparr>ps_store = snd (enqueue_redemption io1 io2 rid from amount xmr s), ps_effects = l\<rparr>"
| watch_drain: "(\<And>n. wallet_honest (de_entry de n)) \<Longrightarrow> drain_once cfg marker de s = (r, s', l') \<Longrightarrow>
     watch_step cfg marker \<lparr>ps_store = s, ps_effects = l\<rparr> \<lparr>ps_store = s', ps_effects = rev l' @ l\<rparr>"
| watch_other: "same_queue s s' \<Longrightarrow>
     watch_step cfg marker \<lparr>ps_store = s, ps_effects = l\<rparr> \<lparr>ps_store = s', ps_effects = l\<rparr>"

lemma pay_entry_keeps:
  assumes "wallet_honest ev" "pay_entry cfg marker ev e s = (c, s', l)"
  shows "keeps (en_id e) s s'"
  using pay_entry_result [OF assms(1), of e s cfg marker] assms(2) by (simp add: entry_result_def)

lemma drain_entries_steps:
  assumes "\<And>n. wallet_honest (envs n)" "set es \<subseteq> set (st_stream s)"
    "drain_entries cfg marker envs n es s = (r, s', l')"
  shows "(pay_step cfg marker)\<^sup>*\<^sup>* \<lparr>ps_store = s, ps_effects = l\<rparr> \<lparr>ps_store = s', ps_effects = rev l' @ l\<rparr>"
  using assms(2,3)
proof (induction es arbitrary: n s r s' l l')
  case Nil
  then show ?case by simp
next
  case (Cons e es)
  obtain c s1 l1 where p: "pay_entry cfg marker (envs (en_no e)) e s = (c, s1, l1)"
    by (metis prod_cases3)
  have one: "pay_step cfg marker \<lparr>ps_store = s, ps_effects = l\<rparr> \<lparr>ps_store = s1, ps_effects = rev l1 @ l\<rparr>"
    using Cons.prems(1) p assms(1) by (intro pay_step.entry) auto
  show ?case
  proof (cases "c = Continue")
    case True
    obtain r2 s2 l2 where d: "drain_entries cfg marker envs (Suc n) es s1 = (r2, s2, l2)"
      by (metis prod_cases3)
    have "set es \<subseteq> set (st_stream s1)"
      using Cons.prems(1) pay_entry_keeps [OF assms(1) p] by (simp add: keeps_def)
    from Cons.IH [OF this d, of "rev l1 @ l"] one show ?thesis
      using Cons.prems(2) p True d by (auto intro: converse_rtranclp_into_rtranclp)
  next
    case False
    then show ?thesis using one Cons.prems(2) p by (cases c) auto
  qed
qed

lemma claim_entries:
  assumes "round_trip io (xautoclaim now) s = (r, s1)"
  shows "st_stream s1 = st_stream s" "set (case r of None \<Rightarrow> [] | Some es \<Rightarrow> es) \<subseteq> set (st_stream s)"
proof -
  have x: "st_stream (snd (xautoclaim now s)) = st_stream s" "fst (xautoclaim now s) = Some es \<Longrightarrow> set es \<subseteq> set (st_stream s)" for es
    by (auto simp: xautoclaim_def entries_of_def Let_def)
  show "st_stream s1 = st_stream s" using assms x(1) by (cases io) (auto simp: round_trip_def)
  show "set (case r of None \<Rightarrow> [] | Some es \<Rightarrow> es) \<subseteq> set (st_stream s)"
    using assms x(2) by (cases io; cases r) (auto simp: round_trip_def)
qed

lemma read_entries:
  assumes "round_trip io (xreadgroup now) s = (r, s1)"
  shows "st_stream s1 = st_stream s" "r = Some es \<Longrightarrow> set es \<subseteq> set (st_stream s)"
proof -
  have x: "st_stream (snd (xreadgroup now s)) = st_stream s"
    "fst (xreadgroup now s) = Some es \<Longrightarrow> set es \<subseteq> set (st_stream s)" for es
    by (auto simp: xreadgroup_def Let_def dest!: in_set_takeD)
  show "st_stream s1 = st_stream s" using assms x(1) by (cases io) (auto simp: round_trip_def)
  show "set es \<subseteq> set (st_stream s)" if "r = Some es"
    using assms x(2) [of es] that by (cases io) (auto simp: round_trip_def)
qed

lemma drain_once_steps:
  assumes "\<And>n. wallet_honest (de_entry de n)" "drain_once cfg marker de s = (r, s', l')"
  shows "(pay_step cfg marker)\<^sup>*\<^sup>* \<lparr>ps_store = s, ps_effects = l\<rparr> \<lparr>ps_store = s', ps_effects = rev l' @ l\<rparr>"
proof -
  obtain cr s1 where c: "round_trip (de_claim_io de) (xautoclaim (de_now_ms de)) s = (cr, s1)" by fastforce
  obtain rr s2 where rd: "round_trip (de_read_io de) (xreadgroup (de_now_ms de)) s1 = (rr, s2)" by fastforce
  have "pay_step cfg marker \<lparr>ps_store = s, ps_effects = l\<rparr> \<lparr>ps_store = s1, ps_effects = l\<rparr>"
    using pay_step.claim [of cfg marker s l "de_claim_io de" "de_now_ms de"] c by simp
  moreover have "pay_step cfg marker \<lparr>ps_store = s1, ps_effects = l\<rparr> \<lparr>ps_store = s2, ps_effects = l\<rparr>"
    using pay_step.read [of cfg marker s1 l "de_read_io de" "de_now_ms de"] rd by simp
  ultimately have two: "(pay_step cfg marker)\<^sup>*\<^sup>* \<lparr>ps_store = s, ps_effects = l\<rparr> \<lparr>ps_store = s2, ps_effects = l\<rparr>"
    by simp
  show ?thesis
  proof (cases rr)
    case None
    then show ?thesis using assms(2) c rd two by (simp add: drain_once_def)
  next
    case (Some es)
    let ?re = "case cr of None \<Rightarrow> [] | Some es \<Rightarrow> es"
    have "set (?re @ es) \<subseteq> set (st_stream s2)"
      using claim_entries [OF c] read_entries [OF rd] Some by simp
    from drain_entries_steps [OF assms(1) this] show ?thesis
      using assms(2) c rd Some two by (auto simp: drain_once_def intro: rtranclp_trans)
  qed
qed

lemma watch_step_pay_steps: "watch_step cfg marker t t' \<Longrightarrow> (pay_step cfg marker)\<^sup>*\<^sup>* t t'"
  by (induction rule: watch_step.induct) (auto intro: pay_step.intros drain_once_steps)

lemma watch_steps_pay_steps: "(watch_step cfg marker)\<^sup>*\<^sup>* t t' \<Longrightarrow> (pay_step cfg marker)\<^sup>*\<^sup>* t t'"
  by (induction rule: rtranclp_induct) (auto intro: rtranclp_trans watch_step_pay_steps)

section \<open>Invariants of a run\<close>

lemma enqueue_script_frame:
  "(st_state s rid = None \<longrightarrow> st_state (snd (enqueue_script rid amount s)) = (st_state s)(rid := Some Pending)) \<and>
   (st_state s rid \<noteq> None \<longrightarrow> enqueue_script rid amount s = (Some False, s)) \<and>
   st_stream (snd (enqueue_script rid amount s)) = st_stream s \<and>
   st_next_no (snd (enqueue_script rid amount s)) = st_next_no s \<and>
   st_group_next (snd (enqueue_script rid amount s)) = st_group_next s \<and>
   st_pel (snd (enqueue_script rid amount s)) = st_pel s"
  by (auto simp: enqueue_script_def Let_def split: option.splits)

text \<open>Enqueueing does nothing, claims the id without adding an entry, or does both.\<close>

lemma enqueue_cases:
  fixes s :: "'addr Store"
  obtains (none) "snd (enqueue_redemption io1 io2 rid from amount xmr s) = s"
  | (claimed) s1 where "s1 = snd (enqueue_script rid amount s)" "st_state s rid = None"
      "snd (enqueue_redemption io1 io2 rid from amount xmr s) = s1"
  | (added) s1 where "s1 = snd (enqueue_script rid amount s)" "st_state s rid = None"
      "snd (enqueue_redemption io1 io2 rid from amount xmr s) = snd (xadd rid from amount xmr s1)"
proof -
  let ?s1 = "snd (enqueue_script rid amount s)"
  note f = enqueue_script_frame [of s rid amount]
  show ?thesis
  proof (cases "st_state s rid = None")
    case False
    then have "enqueue_script rid amount s = (Some False, s)" by (simp add: enqueue_script_def)
    then have "snd (enqueue_redemption io1 io2 rid from amount xmr s) = s"
      by (cases io1) (simp_all add: enqueue_redemption_def round_trip_def)
    then show ?thesis by (rule none)
  next
    case True
    have "snd (enqueue_redemption io1 io2 rid from amount xmr s) \<in> {s, ?s1, snd (xadd rid from amount xmr ?s1)}"
      by (cases io1; cases io2)
        (auto simp: enqueue_redemption_def round_trip_def xadd_def split: prod.splits option.splits bool.splits)
    then show ?thesis using True that by blast
  qed
qed

definition paid_inv :: "'addr PaySys \<Rightarrow> bool" where
  "paid_inv t \<longleftrightarrow> (\<forall>rid \<in> set (broadcast_ids (ps_effects t)).
     st_state (ps_store t) rid \<noteq> None \<and> st_state (ps_store t) rid \<noteq> Some Pending)"

lemma broadcast_ids_rev: "broadcast_ids (rev l) = rev (broadcast_ids l)"
  by (induction l rule: broadcast_ids.induct) auto

lemma enqueue_states:
  "st_state s rid' \<noteq> None \<Longrightarrow>
   st_state (snd (enqueue_redemption io1 io2 rid from amount xmr s)) rid' = st_state s rid'"
  using enqueue_script_frame [of s rid amount]
  by (cases rule: enqueue_cases [of io1 io2 rid "from" amount xmr s]) (auto simp: xadd_def)

lemma delivery_states [simp]:
  "st_state (snd (round_trip io (xautoclaim now) s)) = st_state s"
  "st_state (snd (round_trip io (xreadgroup now) s)) = st_state s"
  by (cases io; simp add: round_trip_def xautoclaim_def xreadgroup_def Let_def)+

lemma paid_step:
  assumes "pay_step cfg marker t t'" "paid_inv t"
  shows "paid_inv t' \<and> (broadcast_ids (ps_effects t') = broadcast_ids (ps_effects t) \<or>
    (\<exists>k. k \<notin> set (broadcast_ids (ps_effects t)) \<and>
      broadcast_ids (ps_effects t') = k # broadcast_ids (ps_effects t)))"
  using assms
proof (induction rule: pay_step.induct)
  case (enqueue amount s l io1 io2 rid "from" xmr)
  then show ?case using enqueue_states [of s] by (auto simp: paid_inv_def)
next
  case (entry e s ev c s' l' l)
  then have r: "entry_result (en_id e) s (c, s', l')" using pay_entry_result [of ev e s cfg marker] by simp
  then have k: "\<forall>rid. rid \<noteq> en_id e \<longrightarrow> st_state s' rid = st_state s rid"
    by (simp add: entry_result_def keeps_def)
  have ok: "st_state s' rid \<noteq> None \<and> st_state s' rid \<noteq> Some Pending"
    if "st_state s rid \<noteq> None \<and> st_state s rid \<noteq> Some Pending" for rid
    using that r k by (cases "rid = en_id e") (auto simp: entry_result_def)
  show ?case
  proof (cases "broadcast_ids l' = []")
    case True
    then show ?thesis using ok entry.prems by (simp add: paid_inv_def broadcast_ids_rev)
  next
    case False
    then have "broadcast_ids l' = [en_id e]" "st_state s (en_id e) = Some Pending"
      "st_state s' (en_id e) = Some InFlight \<or> st_state s' (en_id e) = Some Sent"
      using r by (auto simp: entry_result_def)
    then show ?thesis using ok entry.prems by (auto simp: paid_inv_def broadcast_ids_rev simp del: not_None_eq)
  qed
qed (simp_all add: paid_inv_def same_queue_def)

interpretation payout_once: at_most_once "pay_step cfg marker" paid_inv "\<lambda>t. broadcast_ids (ps_effects t)"
  for cfg marker
  using paid_step by unfold_locales blast+

definition queue_ok :: "'addr Store \<Rightarrow> bool" where
  "queue_ok s \<longleftrightarrow> sorted_wrt (<) (map en_no (st_stream s)) \<and> (\<forall>e \<in> set (st_stream s). en_no e < st_next_no s) \<and>
     distinct (map en_id (st_stream s)) \<and> (\<forall>e \<in> set (st_stream s). st_state s (en_id e) \<noteq> None) \<and>
     st_group_next s \<le> st_next_no s"

text \<open>An entry is deliverable while it is undelivered or delivered and unacknowledged.\<close>

definition deliverable :: "'addr Store \<Rightarrow> 'addr stream_entry \<Rightarrow> bool" where
  "deliverable s e \<longleftrightarrow> st_group_next s \<le> en_no e \<or> en_no e \<in> fst ` set (st_pel s)"

definition reconciled_ids :: "effect list \<Rightarrow> u64 set" where
  "reconciled_ids l = {rid. \<exists>t. Reconciled rid t \<in> set l}"

definition queue_inv :: "'addr PaySys \<Rightarrow> bool" where
  "queue_inv t \<longleftrightarrow> queue_ok (ps_store t) \<and>
     (\<forall>e \<in> set (st_stream (ps_store t)). st_state (ps_store t) (en_id e) = Some Pending \<longrightarrow>
        deliverable (ps_store t) e \<or> en_id e \<in> reconciled_ids (ps_effects t))"

definition over_cap :: "MoneroConfig \<Rightarrow> 'addr stream_entry \<Rightarrow> bool" where
  "over_cap cfg e \<longleftrightarrow> ucast (per_tx_cap_atomic cfg) < entry_amount e"

definition ledger_inv :: "MoneroConfig \<Rightarrow> 'addr PaySys \<Rightarrow> bool" where
  "ledger_inv cfg t \<longleftrightarrow> queue_ok (ps_store t) \<and> ledger (ps_store t) \<and>
     (\<forall>e \<in> set (st_stream (ps_store t)). over_cap cfg e \<longrightarrow> owing (st_state (ps_store t) (en_id e)))"

lemma xadd_fields [simp]:
  "st_state (snd (xadd rid from amount xmr s)) = st_state s"
  "st_amount (snd (xadd rid from amount xmr s)) = st_amount s"
  "st_pending_atomic (snd (xadd rid from amount xmr s)) = st_pending_atomic s"
  "st_pending_count (snd (xadd rid from amount xmr s)) = st_pending_count s"
  "st_stream (snd (xadd rid from amount xmr s)) = st_stream s @
     [\<lparr>en_no = st_next_no s, en_id = rid, en_from = from, en_amount = amount, en_xmr_addr = xmr\<rparr>]"
  "st_next_no (snd (xadd rid from amount xmr s)) = Suc (st_next_no s)"
  "st_group_next (snd (xadd rid from amount xmr s)) = st_group_next s"
  "st_pel (snd (xadd rid from amount xmr s)) = st_pel s"
  by (simp_all add: xadd_def)

lemma queue_ok_enqueue:
  assumes "queue_ok s"
  shows "queue_ok (snd (enqueue_redemption io1 io2 rid from amount xmr s))"
proof (cases rule: enqueue_cases [of io1 io2 rid "from" amount xmr s])
  case none
  then show ?thesis using assms by simp
next
  case (claimed s1)
  then show ?thesis using assms enqueue_script_frame [of s rid amount] by (auto simp: queue_ok_def)
next
  case (added s1)
  then have "rid \<notin> en_id ` set (st_stream s)" using assms by (auto simp: queue_ok_def)
  then show ?thesis using assms added enqueue_script_frame [of s rid amount]
    by (auto simp: queue_ok_def sorted_wrt_append less_Suc_eq)
qed

lemma queue_ok_claim: "queue_ok s \<Longrightarrow> queue_ok (snd (round_trip io (xautoclaim now) s))"
  by (rule round_trip_keeps, assumption) (simp add: queue_ok_def xautoclaim_def Let_def)

lemma queue_ok_read:
  assumes "queue_ok s"
  shows "queue_ok (snd (round_trip io (xreadgroup now) s))"
proof (rule round_trip_keeps [where P = queue_ok, OF assms])
  let ?es = "take 16 (filter (\<lambda>e. st_group_next s \<le> en_no e) (st_stream s))"
  have "Suc (en_no (last ?es)) \<le> st_next_no s" if "?es \<noteq> []"
  proof -
    have "last ?es \<in> set (st_stream s)" using last_in_set [OF that] by (auto dest!: in_set_takeD)
    then show ?thesis using assms unfolding queue_ok_def by (metis Suc_leI)
  qed
  then show "queue_ok (snd (xreadgroup now s))"
    using assms by (auto simp: queue_ok_def xreadgroup_def Let_def)
qed

lemma queue_ok_entry:
  assumes "queue_ok s" "entry_result (en_id e) s (c, s', l)" "e \<in> set (st_stream s)"
  shows "queue_ok s'"
proof -
  have "st_state s' rid \<noteq> None" if "st_state s rid \<noteq> None" for rid
    using that assms(2) by (cases "rid = en_id e") (auto simp: entry_result_def keeps_def)
  then show ?thesis using assms by (simp add: queue_ok_def entry_result_def keeps_def del: not_None_eq)
qed

lemma ledger_enqueue:
  assumes "ledger s" "counters_fit amount s"
  shows "ledger (snd (enqueue_redemption io1 io2 rid from amount xmr s))"
proof -
  have l: "ledger (snd (enqueue_script rid amount s))"
    using assms by (intro ledger_enqueue_script) (simp_all add: counters_fit_def)
  show ?thesis
  proof (cases rule: enqueue_cases [of io1 io2 rid "from" amount xmr s])
    case (added s1)
    then show ?thesis using l by (simp add: ledger_frame [OF l])
  qed (use assms l in simp_all)
qed

lemma ledger_delivery:
  "ledger s \<Longrightarrow> ledger (snd (round_trip io (xautoclaim now) s))"
  "ledger s \<Longrightarrow> ledger (snd (round_trip io (xreadgroup now) s))"
  by (rule round_trip_keeps, assumption, erule ledger_frame;
      simp add: xautoclaim_def xreadgroup_def Let_def)+

lemma delivery_stream [simp]:
  "st_stream (snd (round_trip io (xautoclaim now) s)) = st_stream s"
  "st_stream (snd (round_trip io (xreadgroup now) s)) = st_stream s"
  by (cases io; simp add: round_trip_def xautoclaim_def xreadgroup_def Let_def)+

lemma ledger_inv_step:
  assumes "pay_step cfg marker t t'" "ledger_inv cfg t"
  shows "ledger_inv cfg t'"
  using assms
proof (induction rule: pay_step.induct)
  case (enqueue amount s l io1 io2 rid "from" xmr)
  let ?s' = "snd (enqueue_redemption io1 io2 rid from amount xmr s)"
  from enqueue have s: "queue_ok s" "ledger s" "\<forall>e \<in> set (st_stream s). over_cap cfg e \<longrightarrow> owing (st_state s (en_id e))"
    by (simp_all add: ledger_inv_def)
  have "\<forall>e \<in> set (st_stream ?s'). over_cap cfg e \<longrightarrow> owing (st_state ?s' (en_id e))"
    using s(3) enqueue_script_frame [of s rid amount]
    by (cases rule: enqueue_cases [of io1 io2 rid "from" amount xmr s]) auto
  then show ?case using s enqueue(1) by (simp add: ledger_inv_def queue_ok_enqueue ledger_enqueue)
next
  case (entry e s ev c s' l' l)
  then have r: "entry_result (en_id e) s (c, s', l')" using pay_entry_result [of ev e s cfg marker] by simp
  from entry have s: "queue_ok s" "ledger s" "\<forall>e \<in> set (st_stream s). over_cap cfg e \<longrightarrow> owing (st_state s (en_id e))"
    by (simp_all add: ledger_inv_def)
  have "ledger s'"
    using ledger_pay_entry [OF s(2), of cfg e marker ev] s(3) entry(1,3) by (simp add: over_cap_def)
  moreover have "owing (st_state s' (en_id e'))" if e': "e' \<in> set (st_stream s)" "over_cap cfg e'" for e'
  proof (cases "en_id e' = en_id e")
    case True
    then have "e' = e" using s(1) entry(1) e'(1) by (auto simp: queue_ok_def distinct_map dest: inj_onD)
    then have "reaches (en_id e) {Paused} s s'"
      using quiet_close [of Paused "{Paused}" e s ev] e'(2) entry(3) by (simp add: pay_entry_def over_cap_def quiet_def)
    then show ?thesis using s(3) e' \<open>e' = e\<close> by (auto simp: reaches_def)
  next
    case False
    then show ?thesis using r s(3) e' by (simp add: entry_result_def keeps_def)
  qed
  ultimately show ?case using queue_ok_entry [OF s(1) r entry(1)] r
    by (simp add: ledger_inv_def entry_result_def keeps_def)
next
  case (other s s' l)
  then have "ledger s'" by (auto simp: ledger_inv_def same_queue_def intro: ledger_frame)
  then show ?case using other by (simp add: ledger_inv_def same_queue_def queue_ok_def)
qed (simp_all add: ledger_inv_def queue_ok_claim queue_ok_read ledger_delivery)

interpretation obligations_kept: invariant "pay_step cfg marker" "ledger_inv cfg" for cfg marker
  using ledger_inv_step by unfold_locales blast

end
