(* ===== verification/Payout_Runs.thy ===== *)
theory Payout_Runs
  imports Payouts
begin

text \<open>
  What a run of the redemption watcher guarantees, for any interleaving of
  enqueueing, stream deliveries and payouts and any outcome of every round trip:
  no redemption is paid twice, the counters never fall below what is owed, no
  pending redemption is dropped, and every payout respects its bounds. The last
  section shows where these guarantees end.
\<close>

section \<open>Deliverable entries\<close>







section \<open>The claims\<close>

lemma effects_bind:
  "effects_of (or_bail x k) = (case x of (None, _) \<Rightarrow> [] | (Some r, s) \<Rightarrow> effects_of (k r s))"
  by (auto simp: or_bail_def split: prod.splits option.splits)

lemma no_effects [simp]:
  "effects_of (ack_entry ev e s) = []" "effects_of (close_as ev e v s) = []"
  "effects_of (defer_entry ev e s) = []" "effects_of (leave_for_unlock ev e s) = []"
  unfolding ack_entry_def close_as_def defer_entry_def leave_for_unlock_def Let_def effects_bind
  by (auto split: prod.splits option.splits)

lemma transfer_not_in [simp]:
  "Transfer rid x addr b \<notin> set (mark_when c r t h)" "Transfer rid x addr b \<notin> set (confirm_effects cfg m ev r t)"
  "Transfer rid x addr b \<notin> set (effects_of (transfer_rejected m ev e err s))"
  "Transfer rid x addr b \<notin> set (effects_of (transfer_done cfg m ev e raw s))"
  by (auto simp: mark_when_def confirm_effects_def transfer_rejected_def transfer_done_def effects_bind
      split: option.splits prod.splits)

lemma send_payout_transfer:
  "Transfer rid x addr b \<in> set (effects_of (send_payout cfg m ev e q s)) \<Longrightarrow>
   rid = en_id e \<and> addr = en_xmr_addr e \<and> x = stamp_amount q (en_id e)"
  by (auto simp: send_payout_def Let_def split: option.splits if_splits)

lemma pay_entry_transfer:
  assumes "Transfer rid x addr b \<in> set (effects_of (pay_entry cfg marker ev e s))"
  obtains snap q where "st_snapshot s = Some snap" "snap_fresh ev snap" "st_state s (en_id e) = Some Pending"
    "payout_price cfg snap (word_of_int (max (or_zero (st_pending_atomic s)) 0)) (entry_amount e) = Pay q"
    "rid = en_id e" "addr = en_xmr_addr e" "x = stamp_amount q (en_id e)"
    "\<not> over_cap cfg e" "marker \<longrightarrow> ev_processed ev = Some False"
    "find_paid_tx (ev_height ev) (ev_transfers ev) (en_id e) = Some None"
proof -
  have "Transfer rid x addr b \<in> set (effects_of (reconcile cfg marker ev e s))"
    and guards: "\<not> over_cap cfg e" "marker \<longrightarrow> ev_processed ev = Some False"
    using assms by (auto simp: pay_entry_def over_cap_def split: if_splits option.splits bool.splits)
  then have c: "Transfer rid x addr b \<in> set (effects_of (claim_and_pay cfg marker ev e s))"
    and f: "find_paid_tx (ev_height ev) (ev_transfers ev) (en_id e) = Some None"
    by (auto simp: reconcile_def split: option.splits)
  obtain r s1 where tm: "try_mark_redemption_in_flight (ev_io ev SClaim) (en_id e) s = (r, s1)" by fastforce
  have r: "r = Some True" "Transfer rid x addr b \<in> set (effects_of (pay_claimed cfg marker ev e s1))"
    using c tm by (auto simp: claim_and_pay_def effects_bind split: option.splits if_splits)
  then have s: "st_state s (en_id e) = Some Pending" "s1 = s\<lparr>st_state := (st_state s)(en_id e := Some InFlight)\<rparr>"
    using try_mark_frame [OF tm] by auto
  show ?thesis
  proof (cases rule: pay_claimed_cases [of cfg marker ev e s1])
    case (priced snap)
    then obtain q where q: "payout_price cfg snap (word_of_int (max (or_zero (st_pending_atomic s)) 0)) (entry_amount e) = Pay q"
      and t: "Transfer rid x addr b \<in> set (effects_of (send_payout cfg marker ev e q s1))"
      using r(2) s(2) by (auto split: price.splits)
    show ?thesis using that [of snap q] priced s guards f q send_payout_transfer [OF t] by simp
  qed (use r(2) in auto)
qed

text \<open>C20: whenever handling a stream entry calls the wallet's \<open>transfer\<close>, the
  redemption was pending and not over the per-transaction cap, the destination is
  the entry's, and the amount is the stamped payout computed from a fresh snapshot:
  it carries the redemption's stamp, is at most the unlocked balance, at most the
  burned amount plus the configured premium, at most the pro-rata share of the
  wallet, and leaves every remaining token with at least the backing it had.\<close>

theorem every_payout_bounded:
  assumes "Transfer rid x addr b \<in> set (effects_of (pay_entry cfg marker ev e s))"
  shows "\<exists>snap. st_snapshot s = Some snap \<and> snap_fresh ev snap \<and> st_state s (en_id e) = Some Pending \<and>
    unat (entry_amount e) \<le> unat (per_tx_cap_atomic cfg) \<and> rid = en_id e \<and> addr = en_xmr_addr e \<and>
    matches_stamp x rid \<and> 0 < x \<and> x \<le> monero_unlocked_atomic snap \<and>
    10000 * unat x \<le> unat (entry_amount e) * (10000 + unat (max_payout_premium_bp cfg)) \<and>
    (let D = unat (payout_denom snap (word_of_int (max (or_zero (st_pending_atomic s)) 0)));
         W = unat (monero_balance_atomic snap); a = unat (entry_amount e)
     in unat x * D \<le> a * W \<and> int W * (int D - int a) \<le> (int W - int (unat x)) * int D)"
proof (rule pay_entry_transfer [OF assms])
  fix snap q
  let ?p = "word_of_int (max (or_zero (st_pending_atomic s)) 0) :: u128"
  let ?D = "unat (payout_denom snap ?p)" and ?W = "unat (monero_balance_atomic snap)"
  let ?a = "unat (entry_amount e)"
  assume snap: "st_snapshot s = Some snap" "snap_fresh ev snap" "st_state s (en_id e) = Some Pending"
    and q: "payout_price cfg snap ?p (entry_amount e) = Pay q"
    and x: "rid = en_id e" "addr = en_xmr_addr e" "x = stamp_amount q (en_id e)" and cap: "\<not> over_cap cfg e"
  note P = payout_price_Pay [OF q]
  have xq: "unat x \<le> unat q" "0 < x" "matches_stamp x rid"
    using stamp_amount_bounds(1,3) [OF P(2)] matches_stamp_amount [OF P(2)] x by (simp_all add: word_le_nat_alt)
  have xD: "unat x * ?D \<le> ?a * ?W" using payout_share(1) [OF q] xq(1) by (meson le_trans mult_le_mono1)
  have prem: "10000 * unat x \<le> ?a * (10000 + unat (max_payout_premium_bp cfg))"
    using payout_share(2) [OF q] xq(1) by simp
  have "int (unat x * ?D) \<le> int (?a * ?W)" using xD by (simp only: zle_int)
  then have "int ?W * (int ?D - int ?a) \<le> (int ?W - int (unat x)) * int ?D" by (simp add: algebra_simps)
  moreover have "x \<le> monero_unlocked_atomic snap" using xq(1) P(3) by (simp add: word_le_nat_alt)
  moreover have "?a \<le> unat (per_tx_cap_atomic cfg)"
    using cap by (simp add: over_cap_def word_less_nat_alt unat_ucast_up)
  ultimately show ?thesis using snap x xq(2,3) prem xD by (auto simp: Let_def)
qed

definition demo_cfg :: MoneroConfig where
  "demo_cfg = \<lparr>per_tx_cap_atomic = 10000000000000, max_payout_premium_bp = 0, confirm_wait_secs = 5\<rparr>"

definition demo_snap :: TreasurySnapshot where
  "demo_snap = \<lparr>monero_balance_atomic = 4000000000000, monero_unlocked_atomic = 3000000000000,
     pending_redemptions_atomic = 0, pending_redemptions_count = 0,
     mining_pool_token_total_supply = 4000000000000, as_of_unix = 1000\<rparr>"

definition demo_env :: entry_env where
  "demo_env = \<lparr>ev_io = (\<lambda>_. IoOk), ev_processed = Some False, ev_height = None,
     ev_transfers = Some (JObj [(''result'', JObj [])]), ev_now_unix = 1060,
     ev_transfer = Some (JObj [(''result'', JObj [(''tx_hash'', JStr ''ab'')])]), ev_broadcast = True,
     ev_polls = (\<lambda>_. Some (JObj [(''result'', JObj [(''transfer'', JObj [(''height'', JNum 9)])])])),
     ev_poll_ns = (\<lambda>_. 1), ev_unspent = None\<rparr>"

definition demo_drain :: "entry_env \<Rightarrow> drain_env" where
  "demo_drain ev = \<lparr>de_now_ms = 5, de_claim_io = IoOk, de_read_io = IoOk, de_entry = (\<lambda>_. ev)\<rparr>"

definition demo_queued :: "nat Store \<Rightarrow> nat Store" where
  "demo_queued s = snd (enqueue_redemption IoOk IoOk 70007 1 1000000000000 ''48xmr'' s)"

definition demo_store :: "nat Store" where
  "demo_store = demo_queued (empty_store\<lparr>st_snapshot := Some demo_snap\<rparr>)"

definition demo_entry :: "nat stream_entry" where
  "demo_entry = \<lparr>en_no = 0, en_id = 70007, en_from = 1, en_amount = 1000000000000, en_xmr_addr = ''48xmr''\<rparr>"

theorem every_payout_bounded_witness:
  "Transfer 70007 799999988087 ''48xmr'' True \<in> set (effects_of (pay_entry demo_cfg True demo_env demo_entry demo_store)) \<and>
   (\<exists>snap. st_snapshot demo_store = Some snap \<and> (799999988087 :: u128) \<le> monero_unlocked_atomic snap)"
proof -
  have "effects_of (pay_entry demo_cfg True demo_env demo_entry demo_store) =
      [Transfer 70007 799999988087 ''48xmr'' True, MarkProcessed 70007 ''ab'' 0]"
    by code_simp
  then have "Transfer 70007 799999988087 ''48xmr'' True \<in> set (effects_of (pay_entry demo_cfg True demo_env demo_entry demo_store))"
    by simp
  with every_payout_bounded [OF this] show ?thesis by blast
qed

text \<open>C21: from any state of Redis, over any run of the watcher, however often stream
  entries are redelivered and whatever round trips fail or lose their reply, at most
  one Monero transaction goes out per redemption id. The wallet is only assumed not to
  have broadcast a transfer that it answered with an error.\<close>

theorem no_redemption_paid_twice:
  assumes "(watch_step cfg marker)\<^sup>*\<^sup>* \<lparr>ps_store = s, ps_effects = []\<rparr> t"
  shows "distinct (broadcast_ids (ps_effects t))"
  by (rule payout_once.distinct_steps [OF watch_steps_pay_steps [OF assms]]) (simp_all add: paid_inv_def)

definition demo_after :: "entry_env \<Rightarrow> nat PaySys" where
  "demo_after ev = (case drain_once demo_cfg True (demo_drain ev) demo_store of
     (r, s, l) \<Rightarrow> \<lparr>ps_store = s, ps_effects = rev l\<rparr>)"

abbreviation demo_start :: "nat PaySys" where
  "demo_start \<equiv> \<lparr>ps_store = empty_store\<lparr>st_snapshot := Some demo_snap\<rparr>, ps_effects = []\<rparr>"

lemma demo_reached:
  assumes "wallet_honest ev"
  shows "(watch_step demo_cfg True)\<^sup>*\<^sup>* demo_start (demo_after ev)"
proof -
  have "counters_fit 1000000000000 (empty_store\<lparr>st_snapshot := Some demo_snap\<rparr> :: nat Store)" by code_simp
  from watch_step.watch_enqueue [OF this]
  have "watch_step demo_cfg True demo_start \<lparr>ps_store = demo_store, ps_effects = []\<rparr>"
    by (simp add: demo_store_def demo_queued_def)
  moreover obtain r s l where d: "drain_once demo_cfg True (demo_drain ev) demo_store = (r, s, l)"
    by (metis prod_cases3)
  have "watch_step demo_cfg True \<lparr>ps_store = demo_store, ps_effects = []\<rparr> (demo_after ev)"
    using watch_step.watch_drain [OF _ d, of "[]"] d assms
    by (simp add: demo_after_def demo_drain_def)
  ultimately show ?thesis by auto
qed

abbreviation demo_paid :: "nat PaySys" where
  "demo_paid \<equiv> demo_after demo_env"

lemma demo_paid_reached: "(watch_step demo_cfg True)\<^sup>*\<^sup>* demo_start demo_paid"
  by (rule demo_reached) code_simp

theorem no_redemption_paid_twice_witness:
  "broadcast_ids (ps_effects demo_paid) = [70007] \<and> distinct (broadcast_ids (ps_effects demo_paid))"
proof -
  have "broadcast_ids (ps_effects demo_paid) = [70007]" by code_simp
  then show ?thesis using no_redemption_paid_twice [OF demo_paid_reached] by blast
qed

text \<open>C22: the counters the treasury reports never fall below what the pool owes: over
  any run from a consistent state, \<open>redemptions:pending_atomic\<close> is at least the sum of
  the amounts of all pending, in-flight and paused redemptions (as the scripts read
  them), and \<open>redemptions:pending_count\<close> at least their number.\<close>

theorem obligations_never_undercounted:
  assumes "(watch_step cfg marker)\<^sup>*\<^sup>* t t'" "ledger_inv cfg t"
  shows "obligations (ps_store t') \<le> or_zero (st_pending_atomic (ps_store t')) \<and>
    open_count (ps_store t') \<le> or_zero (st_pending_count (ps_store t'))"
  using obligations_kept.inv_steps [OF watch_steps_pay_steps [OF assms(1)] assms(2)]
  by (simp add: ledger_inv_def ledger_def)

lemma ledger_inv_empty:
  "ledger_inv cfg \<lparr>ps_store = empty_store\<lparr>st_snapshot := x\<rparr>, ps_effects = []\<rparr>"
  "queue_inv \<lparr>ps_store = empty_store\<lparr>st_snapshot := x\<rparr>, ps_effects = []\<rparr>"
  by (simp_all add: ledger_inv_def queue_inv_def queue_ok_def ledger_def empty_store_def obligations_def
      owed_def open_count_def in_i64_def i64_min_def i64_max_def)

theorem obligations_never_undercounted_witness:
  "or_zero (st_pending_atomic demo_store) = 1000000000000 \<and> or_zero (st_pending_atomic (ps_store demo_paid)) = 0 \<and>
   obligations (ps_store demo_paid) \<le> 0"
proof -
  have "or_zero (st_pending_atomic demo_store) = 1000000000000" "or_zero (st_pending_atomic (ps_store demo_paid)) = 0"
    by code_simp+
  then show ?thesis using obligations_never_undercounted [OF demo_paid_reached ledger_inv_empty(1)] by simp
qed

section \<open>Delivery\<close>



definition idle_ahead :: "int \<Rightarrow> 'addr Store \<Rightarrow> nat \<Rightarrow> nat" where
  "idle_ahead now s i = length (filter (\<lambda>(no, t). 60000 \<le> now - t) (take i (st_pel s)))"














section \<open>Waiting for a confirmation\<close>

lemma wait_from_ends:
  "\<exists>n \<ge> k. (n = k \<or> int (n - 1) * 10000000000 < d) \<and>
     (\<forall>i \<in> {k..<n}. \<exists>raw. polls i = Some raw \<and> poll_height raw = 0) \<and>
     (case wait_from polls ns d k of
        None \<Rightarrow> polls n = None
      | Some True \<Rightarrow> (\<exists>raw. polls n = Some raw \<and> poll_height raw > 0)
      | Some False \<Rightarrow> (\<exists>raw. polls n = Some raw \<and> poll_height raw = 0) \<and> d \<le> poll_clock ns n)"
proof (induction polls ns d k rule: wait_from.induct)
  case (1 polls ns d k)
  consider "polls k = None" | raw where "polls k = Some raw" "poll_height raw > 0"
    | raw where "polls k = Some raw" "poll_height raw = 0" "d \<le> poll_clock ns k"
    | raw where "polls k = Some raw" "poll_height raw = 0" "\<not> d \<le> poll_clock ns k"
    by (metis not_None_eq word_neq_0_conv)
  then show ?case
  proof cases
    case (4 raw)
    from "1.IH" [OF 4(1) _ 4(3)] 4(2) obtain n where n: "n \<ge> Suc k"
      "n = Suc k \<or> int (n - 1) * 10000000000 < d"
      "\<forall>i \<in> {Suc k..<n}. \<exists>raw. polls i = Some raw \<and> poll_height raw = 0"
      "case wait_from polls ns d (Suc k) of None \<Rightarrow> polls n = None
        | Some True \<Rightarrow> (\<exists>raw. polls n = Some raw \<and> poll_height raw > 0)
        | Some False \<Rightarrow> (\<exists>raw. polls n = Some raw \<and> poll_height raw = 0) \<and> d \<le> poll_clock ns n"
      by auto
    have "int k * 10000000000 < d" using 4(3) by (simp add: poll_clock_def)
    then have "int (n - 1) * 10000000000 < d" using n(2) by auto
    moreover have "\<forall>i \<in> {k..<n}. \<exists>raw. polls i = Some raw \<and> poll_height raw = 0"
      using n(3) 4 by (metis atLeastLessThan_iff le_antisym not_less_eq_eq)
    moreover have "wait_from polls ns d k = wait_from polls ns d (Suc k)"
      using 4 by (subst wait_from.simps) simp
    ultimately show ?thesis using n(1,4) by (intro exI [of _ n]) auto
  qed (subst wait_from.simps, auto intro!: exI [of _ k])+
qed

text \<open>C24: waiting for a confirmation ends: it reports success only after a poll that
  shows a block height, gives up only once the deadline has passed with every poll
  so far at height 0, fails only on a failed poll, and polls at most once per ten
  seconds of the deadline plus once.\<close>

theorem wait_confirmed_ends:
  "\<exists>n. 10 * int n \<le> uint max_secs + 9 \<and>
     (\<forall>i < n. \<exists>raw. polls i = Some raw \<and> poll_height raw = 0) \<and>
     (case wait_confirmed polls ns max_secs of
        None \<Rightarrow> polls n = None
      | Some True \<Rightarrow> (\<exists>raw. polls n = Some raw \<and> poll_height raw > 0)
      | Some False \<Rightarrow> (\<exists>raw. polls n = Some raw \<and> poll_height raw = 0) \<and>
          uint max_secs * 1000000000 \<le> poll_clock ns n)"
proof -
  obtain n where "n = 0 \<or> int (n - 1) * 10000000000 < uint max_secs * 1000000000"
    "\<forall>i \<in> {0..<n}. \<exists>raw. polls i = Some raw \<and> poll_height raw = 0"
    "case wait_from polls ns (uint max_secs * 1000000000) 0 of None \<Rightarrow> polls n = None
      | Some True \<Rightarrow> (\<exists>raw. polls n = Some raw \<and> poll_height raw > 0)
      | Some False \<Rightarrow> (\<exists>raw. polls n = Some raw \<and> poll_height raw = 0) \<and> uint max_secs * 1000000000 \<le> poll_clock ns n"
    using wait_from_ends [of 0 "uint max_secs * 1000000000" polls ns] by blast
  moreover from this(1) have "10 * int n \<le> uint max_secs + 9" by (cases n) auto
  ultimately show ?thesis by (intro exI [of _ n]) (simp add: wait_confirmed_def)
qed

theorem wait_confirmed_ends_witness:
  "wait_confirmed (\<lambda>_. Some (JObj [])) (\<lambda>_. 1) 15 = Some False \<and> 15000000000 \<le> poll_clock (\<lambda>_. 1) 2"
proof -
  have "wait_confirmed (\<lambda>_. Some (JObj [])) (\<lambda>_. 1) 15 = Some False" by code_simp
  with wait_confirmed_ends [of 15 "\<lambda>_. Some (JObj [])" "\<lambda>_. 1"]
  obtain n where n: "10 * int n \<le> 24" "15000000000 \<le> poll_clock (\<lambda>_. 1) n" by auto
  then have "n = 0 \<or> n = 1 \<or> n = 2" by auto
  with n(2) \<open>wait_confirmed _ _ _ = _\<close> show ?thesis by (auto simp: poll_clock_def)
qed

section \<open>Where the guarantees end\<close>

text \<open>A reply of the wallet without a \<open>result\<close>, an error for instance, reads as an empty
  history: the reconciliation guard passes.\<close>

lemma reconciliation_fails_open:
  "json_get ''result'' raw = None \<Longrightarrow> find_paid_tx height (Some raw) rid = Some None"
  by (simp add: find_paid_tx_def stamp_match_in_result_def stamp_matches_of_def json_get_def Let_def)

text \<open>A payout that is not confirmed within the wait is acknowledged without an on-chain
  mark, and no later drain sees it again. If Redis is lost more than
  \<open>RECONCILE_WINDOW_BLOCKS\<close> blocks later, the redemption is enqueued again, the
  guards pass and it is paid a second time.\<close>

definition slow_env :: entry_env where
  "slow_env = demo_env\<lparr>ev_polls := (\<lambda>_. Some (JObj [])), ev_poll_ns := (\<lambda>i. 1)\<rparr>"

definition later_env :: entry_env where
  "later_env = demo_env\<lparr>
     ev_height := Some (JObj [(''result'', JObj [(''height'', JNum 5000)])]),
     ev_transfers := Some (JObj [(''result'', JObj [(''out'', JArr [JObj [(''height'', JNum 600),
        (''amount'', JNum 799999988087), (''txid'', JStr ''ab'')]])])])\<rparr>"

lemma paid_again_after_a_wipe:
  "ps_effects (demo_after slow_env) = [Transfer 70007 799999988087 ''48xmr'' True] \<and>
   st_pel (ps_store (demo_after slow_env)) = [] \<and>
   hd (effects_of (pay_entry demo_cfg True later_env demo_entry demo_store)) = Transfer 70007 799999988087 ''48xmr'' True"
  by (intro conjI; code_simp)

text \<open>\<open>XAUTOCLAIM\<close> starts at the head of the pending list every time: behind 16 entries that are idle again, an
  entry is not handed out.\<close>

lemma claim_starves:
  assumes "distinct (map fst (st_pel s))" "i < length (st_pel s)" "st_pel s ! i = (en_no e, t)"
    and "16 \<le> idle_ahead now s i"
  shows "e \<notin> set (the (fst (xautoclaim now s)))"
proof -
  let ?P = "\<lambda>(no, t). 60000 \<le> now - t"
  let ?a = "take i (st_pel s)"
  have "take 16 (filter ?P (take 160 (st_pel s))) = take 16 (filter ?P (take (min i 160) (st_pel s)))"
  proof (cases "i \<le> 160")
    case True
    have "take 160 (st_pel s) = ?a @ take (160 - i) (drop i (st_pel s))"
      using True by (metis le_add_diff_inverse take_add)
    then show ?thesis using True assms(4) by (simp add: idle_ahead_def min_def)
  qed (simp add: min_def)
  then have "set (take 16 (filter ?P (take 160 (st_pel s)))) \<subseteq> set ?a"
    using set_take_subset [of 16 "filter ?P (take (min i 160) (st_pel s))"] set_take_subset_set_take [of "min i 160" i "st_pel s"]
    by auto
  moreover have "en_no e \<notin> fst ` set ?a"
  proof -
    have "map fst (st_pel s) = map fst ?a @ en_no e # map fst (drop (Suc i) (st_pel s))"
      using id_take_nth_drop [OF assms(2)] assms(3) by (metis fst_conv list.simps(9) map_append)
    then show ?thesis using assms(1) by simp
  qed
  ultimately show ?thesis by (force simp: xautoclaim_def entries_of_def Let_def)
qed

text \<open>Two redemptions paid against one snapshot: the first payment leaves the pending
  counter but not the snapshot's balance, so the second is paid at a higher rate,
  above its share of what is left.\<close>

lemma second_payout_overpaid:
  fixes snap
  defines "snap \<equiv> demo_snap\<lparr>monero_balance_atomic := 3000000000000, mining_pool_token_total_supply := 2000000000000\<rparr>"
  shows "payout_price demo_cfg snap 2000000000000 1000000000000 = Pay 750000000000"
    and "payout_price demo_cfg snap 1000000000000 1000000000000 = Pay 1000000000000"
    and "payout_price demo_cfg (snap\<lparr>monero_balance_atomic := 3000000000000 - 750000000000\<rparr>) 1000000000000 1000000000000
      = Pay 750000000000"
  unfolding snap_def by code_simp+

text \<open>A redemption the chain already records as processed is closed without debiting the
  counters: they stay above what is owed for good.\<close>

lemma processed_leaves_counters:
  "st_state (ps_store (demo_after (demo_env\<lparr>ev_processed := Some True\<rparr>))) 70007 = Some Sent \<and>
   st_pending_atomic (ps_store (demo_after (demo_env\<lparr>ev_processed := Some True\<rparr>))) = Some 1000000000000"
  by (intro conjI; code_simp)

end
