(* ===== verification/Token.thy ===== *)
theory Token
  imports Prelude
begin

text \<open>
  \<open>contracts/src/MiningPoolToken.sol\<close>: the pool's token. The ERC-20 ledger it
  inherits is a git submodule under \<open>contracts/lib\<close>: it is a parameter, the record \<open>erc20\<close>, with what the
  token relies on as the locale \<open>erc20_ledger\<close>, and the submodule's own \<open>_mint\<close>, \<open>_burn\<close> and \<open>_update\<close> are
  translated and shown to be an instance. Hashing a voucher and recovering its signer is a parameter too. A call
  returns the new state or the revert reason.
\<close>

section \<open>The ERC-20 ledger\<close>

type_synonym address = "160 word"

record 'l erc20 =
  mint_to :: "address \<Rightarrow> u256 \<Rightarrow> 'l \<Rightarrow> 'l option"
  burn_from :: "address \<Rightarrow> u256 \<Rightarrow> 'l \<Rightarrow> 'l option"
  total_supply :: "'l \<Rightarrow> u256"
  balance_of :: "'l \<Rightarrow> address \<Rightarrow> u256"

text \<open>What minting and burning promise: the supply moves by the amount, burning needs
  the balance, and the supply never wraps.\<close>

locale erc20_ledger =
  fixes E :: "'l erc20" and ok :: "'l \<Rightarrow> bool"
  assumes mint_supply: "ok l \<Longrightarrow> mint_to E a v l = Some l' \<Longrightarrow>
      ok l' \<and> unat (total_supply E l') = unat (total_supply E l) + unat v"
    and burn_supply: "ok l \<Longrightarrow> burn_from E a v l = Some l' \<Longrightarrow>
      ok l' \<and> unat (total_supply E l') + unat v = unat (total_supply E l)"
    and burn_balance: "ok l \<Longrightarrow> burn_from E a v l = Some l' \<Longrightarrow> v \<le> balance_of E l a"

section \<open>The token\<close>

record StoredRedemption =
  sr_user :: address
  sr_amount :: u256
  sr_xmrAddress :: string

record 'l Token =
  tk_ledger :: 'l
  tk_owner :: address
  authorizedSigner :: address
  tk_claimed :: "address \<Rightarrow> u256"
  redemptions :: "u256 \<Rightarrow> StoredRedemption"
  nextRedemptionId :: u256
  tk_processed :: "u256 \<Rightarrow> bool"
  payoutTxid :: "u256 \<Rightarrow> string"
  restoreHeight :: u256
  redemptionGasSubsidy :: u256
  tk_pair :: address

definition no_redemption :: StoredRedemption where
  "no_redemption = \<lparr>sr_user = 0, sr_amount = 0, sr_xmrAddress = []\<rparr>"

text \<open>The constructor; the pair the router's factory has or creates is an argument.\<close>

definition Token_new :: "'l \<Rightarrow> address \<Rightarrow> address \<Rightarrow> u256 \<Rightarrow> address \<Rightarrow> (address option \<times> address) \<Rightarrow> 'l Token" where
  "Token_new l deployer newSigner subsidy uniswapRouter pairs =
     \<lparr>tk_ledger = l, tk_owner = deployer, authorizedSigner = newSigner, tk_claimed = (\<lambda>_. 0),
      redemptions = (\<lambda>_. no_redemption), nextRedemptionId = 0, tk_processed = (\<lambda>_. False),
      payoutTxid = (\<lambda>_. []), restoreHeight = 0, redemptionGasSubsidy = subsidy,
      tk_pair = (if uniswapRouter = 0 then 0
                 else case fst pairs of Some existing \<Rightarrow> existing | None \<Rightarrow> snd pairs)\<rparr>"

definition setRedemptionGasSubsidy :: "address \<Rightarrow> u256 \<Rightarrow> 'l Token \<Rightarrow> string + 'l Token" where
  "setRedemptionGasSubsidy sender newSubsidy t =
     (if sender \<noteq> tk_owner t then Inl ''OwnableUnauthorizedAccount'' else Inr (t\<lparr>redemptionGasSubsidy := newSubsidy\<rparr>))"

definition setSigner :: "address \<Rightarrow> address \<Rightarrow> 'l Token \<Rightarrow> string + 'l Token" where
  "setSigner sender newSigner t =
     (if sender \<noteq> tk_owner t then Inl ''OwnableUnauthorizedAccount'' else Inr (t\<lparr>authorizedSigner := newSigner\<rparr>))"

text \<open>\<open>recover user cumulative signedAt sig\<close> is the address \<open>ECDSA\<close> recovers from the
  EIP-712 digest of the voucher, if any.\<close>

type_synonym 'sig recover = "address \<Rightarrow> u256 \<Rightarrow> u256 \<Rightarrow> 'sig \<Rightarrow> address option"

definition claim ::
  "'l erc20 \<Rightarrow> 'sig recover \<Rightarrow> address \<Rightarrow> u256 \<Rightarrow> u256 \<Rightarrow> 'sig \<Rightarrow> 'l Token \<Rightarrow> string + (u256 \<times> 'l Token)" where
  "claim E recover user cumulativeAmount signedAt sig t =
     (if \<not> cumulativeAmount > tk_claimed t user then Inl ''no new balance''
      else case recover user cumulativeAmount signedAt sig of
             None \<Rightarrow> Inl ''ECDSAInvalidSignature''
           | Some recovered \<Rightarrow>
               if recovered \<noteq> authorizedSigner t then Inl ''bad voucher sig''
               else let delta = cumulativeAmount - tk_claimed t user;
                        t1 = t\<lparr>tk_claimed := (tk_claimed t)(user := cumulativeAmount)\<rparr>
                    in case mint_to E user delta (tk_ledger t1) of
                         None \<Rightarrow> Inl ''ERC20InvalidReceiver''
                       | Some l \<Rightarrow> Inr (delta, t1\<lparr>tk_ledger := l\<rparr>))"

definition redeem ::
  "'l erc20 \<Rightarrow> address \<Rightarrow> u256 \<Rightarrow> bool \<Rightarrow> u256 \<Rightarrow> string \<Rightarrow> 'l Token \<Rightarrow> string + (u256 \<times> 'l Token)" where
  "redeem E sender value call_ok amount xmrAddress t =
     (if \<not> value \<ge> redemptionGasSubsidy t then Inl ''redeem: gas subsidy required''
      else case burn_from E sender amount (tk_ledger t) of
             None \<Rightarrow> Inl ''ERC20InsufficientBalance''
           | Some l \<Rightarrow>
               let n = nextRedemptionId t + 1;
                   t1 = t\<lparr>tk_ledger := l, nextRedemptionId := n,
                          redemptions := (redemptions t)(n := \<lparr>sr_user = sender, sr_amount = amount, sr_xmrAddress = xmrAddress\<rparr>)\<rparr>
               in if value > 0 \<and> \<not> call_ok then Inl ''redeem: subsidy transfer failed'' else Inr (n, t1))"

definition markProcessed :: "address \<Rightarrow> u256 \<Rightarrow> string \<Rightarrow> u256 \<Rightarrow> 'l Token \<Rightarrow> string + 'l Token" where
  "markProcessed sender rid moneroTxid newRestoreHeight t =
     (if sender \<noteq> authorizedSigner t then Inl ''not authorized''
      else if \<not> (rid \<noteq> 0 \<and> rid \<le> nextRedemptionId t) then Inl ''unknown redemption''
      else let t1 = (if newRestoreHeight > restoreHeight t then t\<lparr>restoreHeight := newRestoreHeight\<rparr> else t)
           in if tk_processed t1 rid then Inr t1
              else Inr (t1\<lparr>tk_processed := (tk_processed t1)(rid := True),
                           payoutTxid := (payoutTxid t1)(rid := moneroTxid)\<rparr>))"

section \<open>The vendored ledger\<close>

text \<open>\<open>_mint\<close> and \<open>_burn\<close> of \<open>contracts/lib/openzeppelin-contracts/contracts/token/ERC20/ERC20.sol\<close>, each
  with the branch of \<open>_update\<close> it takes: the addition to the supply is checked, the rest is unchecked.\<close>

record oz_ledger =
  oz_balances :: "address \<Rightarrow> u256"
  oz_totalSupply :: u256

definition oz_mint :: "address \<Rightarrow> u256 \<Rightarrow> oz_ledger \<Rightarrow> oz_ledger option" where
  "oz_mint account v l =
     (if account = 0 then None
      else if uint (oz_totalSupply l) + uint v \<ge> 2 ^ 256 then None
      else Some (l\<lparr>oz_totalSupply := oz_totalSupply l + v,
                   oz_balances := (oz_balances l)(account := oz_balances l account + v)\<rparr>))"

definition oz_burn :: "address \<Rightarrow> u256 \<Rightarrow> oz_ledger \<Rightarrow> oz_ledger option" where
  "oz_burn account v l =
     (if account = 0 then None
      else if oz_balances l account < v then None
      else Some (l\<lparr>oz_balances := (oz_balances l)(account := oz_balances l account - v),
                   oz_totalSupply := oz_totalSupply l - v\<rparr>))"

definition oz_erc20 :: "oz_ledger erc20" where
  "oz_erc20 = \<lparr>mint_to = oz_mint, burn_from = oz_burn, total_supply = oz_totalSupply, balance_of = oz_balances\<rparr>"

definition word_sum :: "(address \<Rightarrow> u256) \<Rightarrow> nat" where
  "word_sum f = (\<Sum>a\<in>UNIV. unat (f a))"

definition oz_ok :: "oz_ledger \<Rightarrow> bool" where
  "oz_ok l \<longleftrightarrow> word_sum (oz_balances l) = unat (oz_totalSupply l)"

lemma word_sum_upd: "word_sum (f(x := v)) + unat (f x) = word_sum f + unat v"
proof -
  have "(\<Sum>a\<in>UNIV - {x}. unat ((f(x := v)) a)) = (\<Sum>a\<in>UNIV - {x}. unat (f a))" by (intro sum.cong) auto
  then show ?thesis
    by (simp add: word_sum_def sum.remove [of UNIV x])
qed

lemma word_le_sum: "unat (f a) \<le> word_sum f"
  unfolding word_sum_def by (intro member_le_sum) auto

lemma oz_mint_ok:
  assumes "oz_ok l" "oz_mint a v l = Some l'"
  shows "oz_ok l' \<and> unat (oz_totalSupply l') = unat (oz_totalSupply l) + unat v"
proof -
  have "uint (oz_totalSupply l) + uint v < 2 ^ 256"
    and eq: "l' = l\<lparr>oz_totalSupply := oz_totalSupply l + v, oz_balances := (oz_balances l)(a := oz_balances l a + v)\<rparr>"
    using assms(2) by (auto simp: oz_mint_def split: if_splits)
  then have "nat (uint (oz_totalSupply l) + uint v) < 2 ^ 256" by simp
  then have l': "unat (oz_totalSupply l) + unat v < 2 ^ 256"
    "l' = l\<lparr>oz_totalSupply := oz_totalSupply l + v, oz_balances := (oz_balances l)(a := oz_balances l a + v)\<rparr>"
    using eq by (simp_all only: unat_eq_nat_uint nat_add_distrib [OF uint_ge_0 uint_ge_0])
  have b: "unat (oz_balances l a) \<le> unat (oz_totalSupply l)"
    using word_le_sum [of "oz_balances l" a] assms(1) by (simp add: oz_ok_def)
  have "unat (oz_totalSupply l + v) = unat (oz_totalSupply l) + unat v"
    using l'(1) by (simp add: unat_word_ariths)
  moreover have "unat (oz_balances l a + v) = unat (oz_balances l a) + unat v"
    using l'(1) b by (simp add: unat_word_ariths)
  ultimately show ?thesis
    using assms(1) word_sum_upd [of "oz_balances l" a "oz_balances l a + v"] by (simp add: oz_ok_def l'(2))
qed

lemma oz_burn_ok:
  assumes "oz_ok l" "oz_burn a v l = Some l'"
  shows "oz_ok l' \<and> unat (oz_totalSupply l') + unat v = unat (oz_totalSupply l) \<and> v \<le> oz_balances l a"
proof -
  have l': "v \<le> oz_balances l a"
    "l' = l\<lparr>oz_balances := (oz_balances l)(a := oz_balances l a - v), oz_totalSupply := oz_totalSupply l - v\<rparr>"
    using assms(2) by (auto simp: oz_burn_def not_less split: if_splits)
  have b: "unat v \<le> unat (oz_balances l a)" "unat (oz_balances l a) \<le> unat (oz_totalSupply l)"
    using word_le_sum [of "oz_balances l" a] assms(1) l'(1) by (simp_all add: oz_ok_def word_le_nat_alt)
  then have "unat (oz_totalSupply l - v) = unat (oz_totalSupply l) - unat v"
    "unat (oz_balances l a - v) = unat (oz_balances l a) - unat v"
    by (simp_all add: unat_sub word_le_nat_alt)
  then show ?thesis using assms(1) b l'(1) word_sum_upd [of "oz_balances l" a "oz_balances l a - v"]
    by (simp add: oz_ok_def l'(2))
qed

interpretation oz: erc20_ledger oz_erc20 oz_ok
proof (unfold_locales, goal_cases)
  case (1 l a v l')
  then show ?case using oz_mint_ok [of l a v l'] by (simp add: oz_erc20_def)
next
  case (2 l a v l')
  then show ?case using oz_burn_ok [of l a v l'] by (simp add: oz_erc20_def)
next
  case (3 l a v l')
  then show ?case using oz_burn_ok [of l a v l'] by (simp add: oz_erc20_def)
qed

section \<open>Runs of the token\<close>

text \<open>The transactions that change the token. \<open>step_ledger\<close> stands for the inherited
  transfers and burns, which never raise the supply; the id counter does not reach
  the end of its range.\<close>

inductive token_step :: "'l erc20 \<Rightarrow> ('l \<Rightarrow> bool) \<Rightarrow> 'sig recover \<Rightarrow> 'l Token \<Rightarrow> 'l Token \<Rightarrow> bool"
  for E ok recover where
  step_claim: "claim E recover user cum at sig t = Inr (d, t') \<Longrightarrow> token_step E ok recover t t'"
| step_redeem: "redeem E sender v cok amount xmr t = Inr (n, t') \<Longrightarrow> nextRedemptionId t \<noteq> - 1 \<Longrightarrow>
     token_step E ok recover t t'"
| step_mark: "markProcessed sender rid txid h t = Inr t' \<Longrightarrow> token_step E ok recover t t'"
| step_signer: "setSigner sender a t = Inr t' \<Longrightarrow> token_step E ok recover t t'"
| step_subsidy: "setRedemptionGasSubsidy sender w t = Inr t' \<Longrightarrow> token_step E ok recover t t'"
| step_ledger: "ok l' \<Longrightarrow> total_supply E l' \<le> total_supply E (tk_ledger t) \<Longrightarrow>
     token_step E ok recover t (t\<lparr>tk_ledger := l'\<rparr>)"

definition redeemed :: "'l Token \<Rightarrow> nat" where
  "redeemed t = (\<Sum>i = 1..unat (nextRedemptionId t). unat (sr_amount (redemptions t (of_nat i))))"

definition supply_inv :: "'l erc20 \<Rightarrow> ('l \<Rightarrow> bool) \<Rightarrow> 'l Token \<Rightarrow> bool" where
  "supply_inv E ok t \<longleftrightarrow> ok (tk_ledger t) \<and>
     unat (total_supply E (tk_ledger t)) + redeemed t \<le> word_sum (tk_claimed t)"

lemma claim_Inr:
  assumes "claim E recover user cum at sig t = Inr (d, t')"
  obtains l where "tk_claimed t user < cum" "recover user cum at sig = Some (authorizedSigner t)"
    "d = cum - tk_claimed t user" "mint_to E user d (tk_ledger t) = Some l"
    "t' = t\<lparr>tk_claimed := (tk_claimed t)(user := cum), tk_ledger := l\<rparr>"
  using assms by (auto simp: claim_def Let_def split: if_splits option.splits)

lemma redeem_Inr:
  assumes "redeem E sender v cok amount xmr t = Inr (n, t')"
  obtains l where "n = nextRedemptionId t + 1" "burn_from E sender amount (tk_ledger t) = Some l"
    "t' = t\<lparr>tk_ledger := l, nextRedemptionId := n,
       redemptions := (redemptions t)(n := \<lparr>sr_user = sender, sr_amount = amount, sr_xmrAddress = xmr\<rparr>)\<rparr>"
  using assms by (auto simp: redeem_def Let_def split: if_splits option.splits)

lemma markProcessed_Inr:
  assumes "markProcessed sender rid txid h t = Inr t'"
  shows "tk_ledger t' = tk_ledger t \<and> tk_claimed t' = tk_claimed t \<and> redemptions t' = redemptions t \<and>
    nextRedemptionId t' = nextRedemptionId t \<and> sender = authorizedSigner t \<and> tk_processed t' rid \<and>
    (\<forall>r. tk_processed t r \<longrightarrow> tk_processed t' r \<and> payoutTxid t' r = payoutTxid t r)"
  using assms by (auto simp: markProcessed_def Let_def split: if_splits)

lemma next_id:
  assumes "(n :: u256) \<noteq> - 1"
  shows "unat (n + 1) = Suc (unat n)"
proof -
  have "unat n \<noteq> unat (- 1 :: u256)" using assms unfolding word_unat_eq_iff .
  then have "Suc (unat n) < 2 ^ 256" using unat_bound [of n] by (simp add: unat_max_word)
  then show ?thesis by (simp add: unat_word_ariths)
qed

lemma redeemed_redeem:
  assumes "n \<noteq> - 1"
  shows "redeemed (t\<lparr>nextRedemptionId := n + 1, redemptions := (redemptions t)(n + 1 := r)\<rparr>) =
    redeemed (t\<lparr>nextRedemptionId := n\<rparr>) + unat (sr_amount r)"
proof -
  have i: "(of_nat i :: u256) \<noteq> n + 1" if "i \<in> {1..unat n}" for i
  proof
    assume "(of_nat i :: u256) = n + 1"
    then have "unat (of_nat i :: u256) = Suc (unat n)" using next_id [OF assms] by simp
    moreover have "unat (of_nat i :: u256) \<le> i" by (simp add: unat_of_nat)
    ultimately show False using that by simp
  qed
  have "(of_nat (Suc (unat n)) :: u256) = n + 1" by simp
  then show ?thesis using i next_id [OF assms] by (simp add: redeemed_def)
qed

context erc20_ledger
begin

lemma supply_inv_step:
  assumes "token_step E ok recover t t'" "supply_inv E ok t"
  shows "supply_inv E ok t'"
  using assms
proof (induction rule: token_step.induct)
  case (step_claim user cum at sig t d t')
  then obtain l where l: "tk_claimed t user < cum" "d = cum - tk_claimed t user"
    "mint_to E user d (tk_ledger t) = Some l" "t' = t\<lparr>tk_claimed := (tk_claimed t)(user := cum), tk_ledger := l\<rparr>"
    by (metis claim_Inr)
  have "unat d = unat cum - unat (tk_claimed t user)" "unat (tk_claimed t user) < unat cum"
    using l(1,2) by (simp_all add: unat_sub word_less_nat_alt word_le_nat_alt)
  moreover have "ok l \<and> unat (total_supply E l) = unat (total_supply E (tk_ledger t)) + unat d"
    using mint_supply [OF _ l(3)] step_claim(2) by (simp add: supply_inv_def)
  moreover have "unat (total_supply E (tk_ledger t)) + redeemed t \<le> word_sum (tk_claimed t)"
    using step_claim(2) by (simp add: supply_inv_def)
  ultimately have "ok l \<and> unat (total_supply E l) + redeemed t \<le> word_sum ((tk_claimed t)(user := cum))"
    using word_sum_upd [of "tk_claimed t" user cum] by linarith
  moreover have "redeemed t' = redeemed t" by (simp add: l(4) redeemed_def)
  ultimately show ?case by (simp add: supply_inv_def l(4))
next
  case (step_redeem sender v cok amount xmr t n t')
  then obtain l where l: "n = nextRedemptionId t + 1" "burn_from E sender amount (tk_ledger t) = Some l"
    "t' = t\<lparr>tk_ledger := l, nextRedemptionId := n,
       redemptions := (redemptions t)(n := \<lparr>sr_user = sender, sr_amount = amount, sr_xmrAddress = xmr\<rparr>)\<rparr>"
    by (metis redeem_Inr)
  have "redeemed t' = redeemed t + unat amount"
    using redeemed_redeem [OF step_redeem(2), of t] by (simp add: redeemed_def l(1,3))
  moreover have "ok l \<and> unat (total_supply E l) + unat amount = unat (total_supply E (tk_ledger t))"
    using burn_supply [OF _ l(2)] step_redeem(3) by (simp add: supply_inv_def)
  moreover have "unat (total_supply E (tk_ledger t)) + redeemed t \<le> word_sum (tk_claimed t)"
    using step_redeem(3) by (simp add: supply_inv_def)
  ultimately have "ok l \<and> unat (total_supply E l) + redeemed t' \<le> word_sum (tk_claimed t)" by linarith
  then show ?case by (simp add: supply_inv_def l(3))
next
  case (step_mark sender rid txid h t t')
  then show ?case using markProcessed_Inr [OF step_mark(1)] by (simp add: supply_inv_def redeemed_def)
next
  case (step_ledger l' t)
  then show ?case by (auto simp: supply_inv_def redeemed_def word_le_nat_alt)
qed (auto simp: setSigner_def setRedemptionGasSubsidy_def supply_inv_def redeemed_def split: if_splits)

end

interpretation oz_supply: invariant "token_step oz_erc20 oz_ok recover" "supply_inv oz_erc20 oz_ok" for recover
  by unfold_locales (rule oz.supply_inv_step)

text \<open>C25: over any sequence of transactions from deployment with an empty ledger,
  the tokens in circulation together with all redemption requests ever recorded never
  exceed what vouchers have been claimed for.\<close>

theorem supply_backed_by_claims:
  assumes "erc20_ledger E ok" "ok l0" "total_supply E l0 = 0"
    and "(token_step E ok recover)\<^sup>*\<^sup>* (Token_new l0 deployer signer subsidy router pairs) t"
  shows "unat (total_supply E (tk_ledger t)) + redeemed t \<le> word_sum (tk_claimed t)"
proof -
  have "invariant (token_step E ok recover) (supply_inv E ok)"
    by unfold_locales (rule erc20_ledger.supply_inv_step [OF assms(1)])
  moreover have "supply_inv E ok (Token_new l0 deployer signer subsidy router pairs)"
    using assms(2,3) by (simp add: supply_inv_def redeemed_def Token_new_def word_sum_def)
  ultimately have "supply_inv E ok t" by (rule invariant.inv_steps [OF _ assms(4)])
  then show ?thesis by (simp add: supply_inv_def)
qed

definition demo_ledger :: oz_ledger where
  "demo_ledger = \<lparr>oz_balances = (\<lambda>_. 0), oz_totalSupply = 0\<rparr>"

definition demo_recover :: "unit recover" where
  "demo_recover user cum at sig = Some 9"

definition demo_deployed :: "oz_ledger Token" where
  "demo_deployed = Token_new demo_ledger 1 9 2 0 (None, 0)"

definition demo_claimed :: "oz_ledger Token" where
  "demo_claimed = (case claim oz_erc20 demo_recover 5 1000 77 () demo_deployed of Inr (_, t) \<Rightarrow> t | Inl _ \<Rightarrow> demo_deployed)"

definition demo_redeemed :: "oz_ledger Token" where
  "demo_redeemed = (case redeem oz_erc20 5 2 True 300 ''48xmr'' demo_claimed of Inr (_, t) \<Rightarrow> t | Inl _ \<Rightarrow> demo_claimed)"

lemma demo_token_reached:
  "(token_step oz_erc20 oz_ok demo_recover)\<^sup>*\<^sup>* (Token_new demo_ledger 1 9 2 0 (None, 0)) demo_redeemed"
proof -
  have "case claim oz_erc20 demo_recover 5 1000 77 () demo_deployed of Inr _ \<Rightarrow> True | Inl _ \<Rightarrow> False" by code_simp
  then have c: "token_step oz_erc20 oz_ok demo_recover demo_deployed demo_claimed"
    unfolding demo_claimed_def by (auto split: sum.splits prod.splits intro: token_step.step_claim)
  have "case redeem oz_erc20 5 2 True 300 ''48xmr'' demo_claimed of Inr _ \<Rightarrow> True | Inl _ \<Rightarrow> False"
    "nextRedemptionId demo_claimed \<noteq> - 1" by code_simp+
  then have "token_step oz_erc20 oz_ok demo_recover demo_claimed demo_redeemed"
    unfolding demo_redeemed_def by (auto split: sum.splits prod.splits intro: token_step.step_redeem)
  with c show ?thesis unfolding demo_deployed_def by auto
qed

theorem supply_backed_by_claims_witness:
  "oz_totalSupply (tk_ledger demo_redeemed) = 700 \<and> redeemed demo_redeemed = 300 \<and>
   unat (oz_totalSupply (tk_ledger demo_redeemed)) + redeemed demo_redeemed \<le> word_sum (tk_claimed demo_redeemed)"
proof -
  have s: "oz_totalSupply (tk_ledger demo_redeemed) = 700" by code_simp
  have n: "nextRedemptionId demo_redeemed = 1" by code_simp
  have a: "sr_amount (redemptions demo_redeemed 1) = 300" by code_simp
  have "redeemed demo_redeemed = 300" by (simp add: redeemed_def n a)
  moreover have "oz_ok demo_ledger" by (simp add: oz_ok_def demo_ledger_def word_sum_def)
  moreover have "total_supply oz_erc20 demo_ledger = 0" by (simp add: demo_ledger_def oz_erc20_def)
  moreover have "total_supply oz_erc20 = oz_totalSupply" by (simp add: oz_erc20_def)
  ultimately show ?thesis
    using supply_backed_by_claims [OF oz.erc20_ledger_axioms _ _ demo_token_reached] s by metis
qed

end
