(* ===== verification/Events.thy ===== *)
theory Events
  imports Payouts Token
begin

text \<open>
  \<open>redemption-watcher/src/events.rs\<close>, \<open>treasury.rs\<close> and \<open>marker.rs\<close>: the poller that
  copies on-chain redemptions into the queue, the refresher of the treasury snapshot,
  and the calls of the on-chain marker. What the chain and the wallet answer is part
  of the environment records.
\<close>

section \<open>Integers of the chain\<close>

definition u256_to_u64 :: "u256 \<Rightarrow> u64 option" where
  "u256_to_u64 v = (if drop_bit 64 v \<noteq> 0 then None else Some (ucast v))"

definition u256_to_i64 :: "u256 \<Rightarrow> int option" where
  "u256_to_i64 v = (if drop_bit 64 v \<noteq> 0 \<or> uint (ucast v :: u64) > i64_max then None else Some (uint (ucast v :: u64)))"

definition u256_to_u128_or_max :: "u256 \<Rightarrow> u128" where
  "u256_to_u128_or_max v = (if drop_bit 128 v \<noteq> 0 then - 1 else ucast v)"

section \<open>The redemption poller\<close>

definition CURSOR_NAME :: string where "CURSOR_NAME = ''redemption_events''"

record EventPoller =
  start_block :: u64
  chunk_size :: u64

text \<open>The replies to one tick: the cursor read, the two chain reads (\<open>None\<close> when the call
  or its decoding fails) and the round trips of each id.\<close>

record poll_env =
  pe_cursor_io :: io
  pe_next :: "u256 option"
  pe_row :: "u64 \<Rightarrow> StoredRedemption option"
  pe_script_io :: "u64 \<Rightarrow> io"
  pe_xadd_io :: "u64 \<Rightarrow> io"
  pe_set_io :: "u64 \<Rightarrow> io"

definition read_next_redemption_id :: "poll_env \<Rightarrow> u64 option" where
  "read_next_redemption_id env = Option.bind (pe_next env) u256_to_u64"

definition read_redemption :: "poll_env \<Rightarrow> u64 \<Rightarrow> StoredRedemption option" where
  "read_redemption env rid = pe_row env rid"

text \<open>One id: read the row, convert the amount, enqueue, advance the cursor. The result is
  whether the id was new, or \<open>None\<close> for an error.\<close>

definition poll_id :: "poll_env \<Rightarrow> u64 \<Rightarrow> address Store \<Rightarrow> bool option \<times> address Store" where
  "poll_id env rid s =
     (case read_redemption env rid of
        None \<Rightarrow> (None, s)
      | Some r \<Rightarrow>
          (case u256_to_i64 (sr_amount r) of
             None \<Rightarrow> (None, s)
           | Some atomic \<Rightarrow>
               (case enqueue_redemption (pe_script_io env rid) (pe_xadd_io env rid) rid (sr_user r) atomic (sr_xmrAddress r) s of
                  (None, s1) \<Rightarrow> (None, s1)
                | (Some inserted, s1) \<Rightarrow>
                    (case set_cursor (pe_set_io env rid) CURSOR_NAME rid s1 of
                       (None, s2) \<Rightarrow> (None, s2)
                     | (Some _, s2) \<Rightarrow> (Some inserted, s2)))))"

fun poll_ids :: "poll_env \<Rightarrow> nat \<Rightarrow> u64 \<Rightarrow> nat \<Rightarrow> address Store \<Rightarrow> nat option \<times> address Store" where
  "poll_ids env 0 rid enqueued s = (Some enqueued, s)"
| "poll_ids env (Suc n) rid enqueued s =
     (case poll_id env rid s of
        (None, s1) \<Rightarrow> (None, s1)
      | (Some inserted, s1) \<Rightarrow> poll_ids env n (rid + 1) (if inserted then Suc enqueued else enqueued) s1)"

definition range_len :: "u64 \<Rightarrow> u64 \<Rightarrow> nat" where
  "range_len lo hi = (if lo \<le> hi then Suc (unat (hi - lo)) else 0)"

definition poll_tick :: "EventPoller \<Rightarrow> poll_env \<Rightarrow> address Store \<Rightarrow> nat option \<times> address Store" where
  "poll_tick p env s =
     (case get_cursor (pe_cursor_io env) CURSOR_NAME s of
        (None, s1) \<Rightarrow> (None, s1)
      | (Some c, s1) \<Rightarrow>
          let cursor = (case c of Some v \<Rightarrow> v | None \<Rightarrow> sat_sub (start_block p) 1)
          in case read_next_redemption_id env of
               None \<Rightarrow> (None, s1)
             | Some next_id \<Rightarrow>
                 if next_id \<le> cursor then (Some 0, s1)
                 else let lo = cursor + 1; hi = min (lo + chunk_size p - 1) next_id
                      in poll_ids env (range_len lo hi) lo 0 s1)"

text \<open>The poller's loop: how long it sleeps after a tick, in units of its interval.\<close>

definition poll_backoff :: "nat option \<Rightarrow> nat" where
  "poll_backoff r = (case r of Some n \<Rightarrow> if n = 0 then 1 else 0 | None \<Rightarrow> 2)"

section \<open>The treasury refresher\<close>

record treasury_env =
  te_balance :: "json option"
  te_supply :: "u256 option"
  te_pending_io :: io
  te_count_io :: io
  te_set_io :: io
  te_now :: int

definition decode_balance :: "json \<Rightarrow> (u128 \<times> u128) option" where
  "decode_balance raw =
     (case json_get ''result'' raw of
        None \<Rightarrow> None
      | Some r \<Rightarrow> (case (get_u64 ''balance'' r, get_u64 ''unlocked_balance'' r) of
                     (Some b, Some u) \<Rightarrow> Some (ucast b, ucast u)
                   | _ \<Rightarrow> None))"

text \<open>A failed read of the supply counts as 0.\<close>

definition total_supply_or_zero :: "treasury_env \<Rightarrow> u128" where
  "total_supply_or_zero env = (case te_supply env of Some v \<Rightarrow> u256_to_u128_or_max v | None \<Rightarrow> 0)"

definition treasury_tick :: "treasury_env \<Rightarrow> 'addr Store \<Rightarrow> TreasurySnapshot option \<times> 'addr Store" where
  "treasury_tick env s =
     (case Option.bind (te_balance env) decode_balance of
        None \<Rightarrow> (None, s)
      | Some (balance, unlocked) \<Rightarrow>
          (case pending_atomic (te_pending_io env) s of
             (None, s1) \<Rightarrow> (None, s1)
           | (Some p, s1) \<Rightarrow>
               (case pending_count (te_count_io env) s1 of
                  (None, s2) \<Rightarrow> (None, s2)
                | (Some n, s2) \<Rightarrow>
                    let snap = \<lparr>monero_balance_atomic = balance, monero_unlocked_atomic = unlocked,
                                pending_redemptions_atomic = word_of_int (max p 0),
                                pending_redemptions_count = word_of_int (max n 0),
                                mining_pool_token_total_supply = total_supply_or_zero env, as_of_unix = te_now env\<rparr>
                    in case set_treasury_snapshot (te_set_io env) snap s2 of
                         (None, s3) \<Rightarrow> (None, s3)
                       | (Some _, s3) \<Rightarrow> (Some snap, s3))))"

section \<open>The on-chain marker\<close>

text \<open>\<open>markProcessed\<close> through the marker: the gas price, sending, the receipt within 30
  seconds and its status; \<open>None\<close> and \<open>False\<close> are the failures of each step.\<close>

record marker_env =
  mk_gas_price :: "u128 option"
  mk_sent :: bool
  mk_receipt :: "bool option"

definition mark_processed_call ::
  "marker_env \<Rightarrow> address \<Rightarrow> u64 \<Rightarrow> string \<Rightarrow> u64 \<Rightarrow> 'l Token \<Rightarrow> bool \<times> 'l Token" where
  "mark_processed_call env signer rid txid rh t =
     (if mk_gas_price env = None \<or> \<not> mk_sent env then (False, t)
      else case markProcessed signer (ucast rid) txid (ucast rh) t of
             Inl _ \<Rightarrow> (False, t)
           | Inr t' \<Rightarrow> (mk_receipt env = Some True, t'))"

definition is_processed_call :: "'l Token option \<Rightarrow> u64 \<Rightarrow> bool option" where
  "is_processed_call reply rid = map_option (\<lambda>t. tk_processed t (ucast rid)) reply"

definition restore_height_call :: "'l Token option \<Rightarrow> u64 option" where
  "restore_height_call reply =
     map_option (\<lambda>t. case u256_to_u64 (restoreHeight t) of Some h \<Rightarrow> h | None \<Rightarrow> - 1) reply"

section \<open>The queue mirrors the chain\<close>

lemma redemptions_immutable:
  assumes "token_step E ok recover t t'"
  shows "nextRedemptionId t \<le> nextRedemptionId t' \<and>
    (\<forall>i \<le> nextRedemptionId t. redemptions t' i = redemptions t i)"
  using assms
proof (induction rule: token_step.induct)
  case (step_claim user cum at sig t d t')
  then show ?case by (auto elim!: claim_Inr)
next
  case (step_redeem sender v cok amount xmr t n t')
  have "nextRedemptionId t < nextRedemptionId t + 1"
    using next_id [OF step_redeem(2)] by (simp add: word_less_nat_alt)
  then show ?case using step_redeem(1) by (auto elim!: redeem_Inr)
next
  case (step_mark sender rid txid h t t')
  then show ?case using markProcessed_Inr [OF step_mark(1)] by simp
qed (auto simp: setSigner_def setRedemptionGasSubsidy_def split: if_splits)

text \<open>Reads at the latest block return rows of the contract and an id that has been issued.\<close>

definition honest_chain :: "'l Token \<Rightarrow> poll_env \<Rightarrow> bool" where
  "honest_chain t env \<longleftrightarrow> (\<forall>v. pe_next env = Some v \<longrightarrow> v \<le> nextRedemptionId t) \<and>
     (\<forall>rid r. pe_row env rid = Some r \<longrightarrow> r = redemptions t (ucast rid))"

definition row_matches :: "'l Token \<Rightarrow> address stream_entry \<Rightarrow> bool" where
  "row_matches t e \<longleftrightarrow> en_id e \<noteq> 0 \<and> ucast (en_id e) \<le> nextRedemptionId t \<and>
     en_from e = sr_user (redemptions t (ucast (en_id e))) \<and>
     en_amount e = uint (sr_amount (redemptions t (ucast (en_id e)))) \<and>
     en_xmr_addr e = sr_xmrAddress (redemptions t (ucast (en_id e)))"

definition known_below :: "EventPoller \<Rightarrow> u64 \<Rightarrow> address Store \<Rightarrow> bool" where
  "known_below p c s \<longleftrightarrow> (\<forall>rid. start_block p \<le> rid \<and> rid \<noteq> 0 \<and> rid \<le> c \<longrightarrow> st_state s rid \<noteq> None)"

definition poll_inv :: "EventPoller \<Rightarrow> 'l Token \<Rightarrow> address Store \<Rightarrow> bool" where
  "poll_inv p t s \<longleftrightarrow> (\<forall>e \<in> set (st_stream s). row_matches t e) \<and>
     (\<forall>c. st_cursors s CURSOR_NAME = Some c \<longrightarrow> known_below p c s)"

lemma u256_to_i64_Some:
  assumes "u256_to_i64 v = Some n"
  shows "n = uint v"
proof -
  have "drop_bit 64 v = 0" "n = uint (ucast v :: u64)" using assms by (auto simp: u256_to_i64_def split: if_splits)
  moreover from this(1) have "unat (ucast v :: u64) = unat v" by (intro unat_ucast_drop) simp
  then have "int (unat (ucast v :: u64)) = int (unat v)" by (rule arg_cong)
  ultimately show ?thesis by simp
qed

lemma u256_to_u64_Some:
  assumes "u256_to_u64 v = Some n"
  shows "unat n = unat v"
  using assms unat_ucast_drop [of v, where 'b = 64] by (auto simp: u256_to_u64_def split: if_splits)

lemma enqueue_reply:
  assumes "enqueue_redemption io1 io2 rid from amount xmr s = (Some b, s')"
  shows "st_state s' rid \<noteq> None"
proof -
  obtain r s1 where e: "round_trip io1 (enqueue_script rid amount) s = (r, s1)" by fastforce
  with assms obtain b' where "r = Some b'" by (auto simp: enqueue_redemption_def split: option.splits)
  with e have "enqueue_script rid amount s = (Some b', s1)" using round_trip_reply by fastforce
  then have "st_state s1 rid \<noteq> None"
    using enqueue_script_frame [of s rid amount] by (cases "st_state s rid") auto
  moreover have "s' = s1 \<or> s' = snd (round_trip io2 (xadd rid from amount xmr) s1)"
    using assms e \<open>r = Some b'\<close> by (cases b') (auto simp: enqueue_redemption_def split: prod.splits option.splits)
  ultimately show ?thesis using round_trip_state [of io2 "xadd rid from amount xmr" s1] by auto
qed

lemma enqueue_stream:
  "st_cursors (snd (enqueue_redemption io1 io2 rid from amount xmr s)) = st_cursors s \<and>
   (\<forall>e \<in> set (st_stream (snd (enqueue_redemption io1 io2 rid from amount xmr s))). e \<in> set (st_stream s) \<or>
      en_id e = rid \<and> en_from e = from \<and> en_amount e = amount \<and> en_xmr_addr e = xmr)"
proof -
  have "st_cursors (snd (enqueue_script rid amount s)) = st_cursors s"
    by (auto simp: enqueue_script_def Let_def split: option.splits)
  then show ?thesis using enqueue_script_frame [of s rid amount]
    by (cases rule: enqueue_cases [of io1 io2 rid "from" amount xmr s]) (auto simp: xadd_def)
qed

lemma set_cursor_frame:
  "st_stream (snd (set_cursor io name v s)) = st_stream s \<and> st_state (snd (set_cursor io name v s)) = st_state s \<and>
   (st_cursors (snd (set_cursor io name v s)) = st_cursors s \<or>
    st_cursors (snd (set_cursor io name v s)) = (st_cursors s)(name := Some v))"
  by (cases io) (simp_all add: set_cursor_def round_trip_def)

lemma word_le_pred: "(c :: u64) \<noteq> 0 \<Longrightarrow> x \<le> c \<Longrightarrow> x \<le> c - 1 \<or> x = c"
  by (auto simp: word_le_nat_alt unat_minus_one word_unat_eq_iff)

lemma poll_id_inv:
  assumes "poll_inv p t s" "honest_chain t env" "rid \<noteq> 0" "ucast rid \<le> nextRedemptionId t"
    "known_below p (rid - 1) s" "poll_id env rid s = (r, s')"
  shows "poll_inv p t s' \<and> (r \<noteq> None \<longrightarrow> known_below p rid s')"
proof (cases "Option.bind (read_redemption env rid) (\<lambda>r. u256_to_i64 (sr_amount r))")
  case None
  then show ?thesis using assms(1,6) by (auto simp: poll_id_def split: option.splits)
next
  case (Some atomic)
  then obtain row where row: "read_redemption env rid = Some row" "u256_to_i64 (sr_amount row) = Some atomic"
    by (auto simp: bind_eq_Some_conv)
  then have m: "row = redemptions t (ucast rid)" "atomic = uint (sr_amount row)"
    using assms(2) by (auto simp: honest_chain_def read_redemption_def u256_to_i64_Some)
  obtain b s1 where e: "enqueue_redemption (pe_script_io env rid) (pe_xadd_io env rid) rid (sr_user row) atomic (sr_xmrAddress row) s = (b, s1)"
    by fastforce
  have s1: "s1 = snd (enqueue_redemption (pe_script_io env rid) (pe_xadd_io env rid) rid (sr_user row) atomic (sr_xmrAddress row) s)"
    using e by simp
  have keep: "st_state s1 r' \<noteq> None" if "st_state s r' \<noteq> None" for r'
    using enqueue_states [OF that] that by (simp add: s1)
  have strm: "\<forall>e \<in> set (st_stream s1). row_matches t e" "st_cursors s1 = st_cursors s"
    using enqueue_stream [of "pe_script_io env rid" "pe_xadd_io env rid" rid "sr_user row" atomic "sr_xmrAddress row" s]
      assms(1,3,4) m by (auto simp: s1 poll_inv_def row_matches_def)
  have inv1: "poll_inv p t s1"
    using strm assms(1) keep by (auto simp: poll_inv_def known_below_def simp del: not_None_eq)
  show ?thesis
  proof (cases b)
    case None
    then show ?thesis using assms(6) row e inv1 by (simp add: poll_id_def)
  next
    case (Some ins)
    have kb: "known_below p rid s1"
      unfolding known_below_def
    proof (intro allI impI)
      fix r' assume "start_block p \<le> r' \<and> r' \<noteq> 0 \<and> r' \<le> rid"
      then show "st_state s1 r' \<noteq> None"
        using word_le_pred [OF assms(3), of r'] assms(5) keep [of r'] enqueue_reply [OF e [unfolded Some]]
        by (auto simp: known_below_def simp del: not_None_eq)
    qed
    obtain c s2 where sc: "set_cursor (pe_set_io env rid) CURSOR_NAME rid s1 = (c, s2)" by fastforce
    have "s' = s2" using assms(6) row e Some sc by (auto simp: poll_id_def split: option.splits)
    then show ?thesis
      using set_cursor_frame [of "pe_set_io env rid" CURSOR_NAME rid s1] sc inv1 kb
      by (auto simp: poll_inv_def known_below_def simp del: not_None_eq)
  qed
qed

end
