(* ===== verification/Chain_Watch.thy ===== *)
theory Chain_Watch
  imports Payout_Runs Events
begin

text \<open>
  The watcher against the chain: transactions of the token, ticks of the poller,
  stream deliveries and payouts interleave. The queue only ever holds redemptions the
  contract has recorded, the cursor passes an id only once it is known to the store and has its stream entry,
  unless a tick stopped with an error at that id, and every payout belongs to a burn on the chain.
\<close>

section \<open>One tick\<close>

lemma ucast_le_iff: "(ucast (a :: u64) :: u256) \<le> v \<longleftrightarrow> unat a \<le> unat v"
  by (simp add: word_le_nat_alt unat_ucast_up)

lemma poll_ids_inv:
  assumes "poll_inv p t s" "honest_chain t env" "rid \<noteq> 0" "unat rid + n \<le> Suc (unat (nextRedemptionId t))"
    "unat rid + n \<le> 2 ^ 64" "known_below p (rid - 1) s" "poll_ids env n rid k s = (r, s')"
  shows "poll_inv p t s'"
  using assms(1,3-)
proof (induction n arbitrary: rid k s)
  case 0
  then show ?case by simp
next
  case (Suc n)
  obtain b s1 where b: "poll_id env rid s = (b, s1)" by fastforce
  have u: "ucast rid \<le> nextRedemptionId t" using Suc.prems(3) by (simp add: ucast_le_iff)
  note one = poll_id_inv [OF Suc.prems(1) assms(2) Suc.prems(2) u Suc.prems(5) b]
  show ?case
  proof (cases b)
    case None
    then show ?thesis using Suc.prems(6) b one by simp
  next
    case (Some ins)
    show ?thesis
    proof (cases n)
      case 0
      then show ?thesis using Suc.prems(6) b one Some by simp
    next
      case n: (Suc n')
      then have "unat rid + 1 < 2 ^ 64" using Suc.prems(4) by simp
      then have "unat (rid + 1) = unat rid + 1" by (simp add: unat_word_ariths)
      moreover from this have "rid + 1 \<noteq> 0" by (metis add_is_0 one_neq_zero unat_0)
      ultimately show ?thesis
        using Suc.IH [of s1 "rid + 1" "if ins then Suc k else k"] Suc.prems b one Some by simp
    qed
  qed
qed

lemma range_len_bound: "lo \<le> hi \<Longrightarrow> unat lo + range_len lo hi = Suc (unat hi)"
  by (simp add: range_len_def unat_sub word_le_nat_alt)

lemma poll_tick_inv:
  assumes "poll_inv p t s" "honest_chain t env" "poll_tick p env s = (r, s')"
  shows "poll_inv p t s'"
proof -
  obtain c s1 where c: "get_cursor (pe_cursor_io env) CURSOR_NAME s = (c, s1)" by fastforce
  have s1: "s1 = s" "c \<noteq> None \<longrightarrow> c = Some (st_cursors s CURSOR_NAME)"
    using c by (cases "pe_cursor_io env"; auto simp: get_cursor_def round_trip_def)+
  show ?thesis
  proof (cases "c = None \<or> read_next_redemption_id env = None")
    case True
    then show ?thesis using assms(1,3) c s1 by (auto simp: poll_tick_def Let_def split: option.splits)
  next
    case False
    then obtain n where n: "read_next_redemption_id env = Some n" by blast
    define cur where "cur = (case st_cursors s CURSOR_NAME of Some v \<Rightarrow> v | None \<Rightarrow> sat_sub (start_block p) 1)"
    define lo hi where "lo = cur + 1" and "hi = min (lo + chunk_size p - 1) n"
    have t: "poll_tick p env s = (if n \<le> cur then (Some 0, s) else poll_ids env (range_len lo hi) lo 0 s)"
      using False c s1 n by (auto simp: poll_tick_def Let_def cur_def lo_def hi_def)
    show ?thesis
    proof (cases "n \<le> cur \<or> \<not> lo \<le> hi")
      case True
      then show ?thesis using t assms(1,3) by (auto simp: range_len_def split: if_splits)
    next
      case go: False
      then have "cur < n" "lo \<le> hi" by auto
      then have u: "unat lo = Suc (unat cur)" using unat_bound [of n]
        by (simp add: lo_def word_less_nat_alt unat_word_ariths)
      have "unat hi \<le> unat n" by (simp add: hi_def word_le_nat_alt min_def)
      also have "unat n \<le> unat (nextRedemptionId t)"
        using n assms(2) by (auto simp: read_next_redemption_id_def honest_chain_def bind_eq_Some_conv
            word_le_nat_alt dest!: u256_to_u64_Some)
      finally have b: "unat lo + range_len lo hi \<le> Suc (unat (nextRedemptionId t))"
        using range_len_bound [OF \<open>lo \<le> hi\<close>] by simp
      have "unat lo + range_len lo hi \<le> 2 ^ 64" using range_len_bound [OF \<open>lo \<le> hi\<close>] unat_bound [of hi] by simp
      moreover have "lo \<noteq> 0" using u by auto
      moreover have "known_below p (lo - 1) s"
      proof (cases "st_cursors s CURSOR_NAME")
        case None
        then have "unat cur = unat (start_block p) - 1" by (simp add: cur_def)
        then show ?thesis by (auto simp: known_below_def lo_def word_le_nat_alt word_unat_eq_iff)
      next
        case (Some v)
        then show ?thesis using assms(1) by (simp add: poll_inv_def cur_def lo_def)
      qed
      moreover have "poll_ids env (range_len lo hi) lo 0 s = (r, s')" using t go assms(3) by simp
      ultimately show ?thesis using poll_ids_inv [OF assms(1,2) _ b] by blast
    qed
  qed
qed

text \<open>The id at which a tick stopped with an error, if it did.\<close>

fun ids_stop :: "poll_env \<Rightarrow> nat \<Rightarrow> u64 \<Rightarrow> address Store \<Rightarrow> u64 option" where
  "ids_stop env 0 rid s = None"
| "ids_stop env (Suc n) rid s =
     (case poll_id env rid s of (None, _) \<Rightarrow> Some rid | (Some _, s1) \<Rightarrow> ids_stop env n (rid + 1) s1)"

definition tick_stop :: "EventPoller \<Rightarrow> poll_env \<Rightarrow> address Store \<Rightarrow> u64 option" where
  "tick_stop p env s =
     (case (get_cursor (pe_cursor_io env) CURSOR_NAME s, read_next_redemption_id env) of
        ((Some c, s1), Some next_id) \<Rightarrow>
          let cursor = (case c of Some v \<Rightarrow> v | None \<Rightarrow> sat_sub (start_block p) 1); lo = cursor + 1
          in if next_id \<le> cursor then None else ids_stop env (range_len lo (min (lo + chunk_size p - 1) next_id)) lo s1
      | _ \<Rightarrow> None)"

text \<open>\<open>entered X s s'\<close>: an id that became known in between has an entry, or is in \<open>X\<close>.\<close>

definition entered :: "u64 set \<Rightarrow> address Store \<Rightarrow> address Store \<Rightarrow> bool" where
  "entered X s s' \<longleftrightarrow> set (st_stream s) \<subseteq> set (st_stream s') \<and>
     (\<forall>r. st_state s' r \<noteq> None \<longrightarrow> st_state s r \<noteq> None \<or> r \<in> en_id ` set (st_stream s') \<or> r \<in> X)"

lemma entered_refl [simp]: "entered X s s"
  by (simp add: entered_def)

lemma entered_trans: "entered X s s1 \<Longrightarrow> entered Y s1 s2 \<Longrightarrow> entered (X \<union> Y) s s2"
  unfolding entered_def by (meson UnCI image_mono subset_iff)

lemma enqueue_entered:
  assumes "enqueue_redemption io1 io2 rid u a x s = (b, s')"
  shows "entered (if b = None then {rid} else {}) s s'"
proof (cases "st_state s rid = None")
  case True
  have f: "st_state (snd (enqueue_script rid a s)) = (st_state s)(rid := Some Pending)"
    "st_stream (snd (enqueue_script rid a s)) = st_stream s"
    using True enqueue_script_frame [of s rid a] by auto
  have "fst (enqueue_script rid a s) \<noteq> Some False" using True by (simp add: enqueue_script_def Let_def split: option.splits)
  then show ?thesis using assms f
    by (cases io1; cases io2)
      (auto simp: enqueue_redemption_def round_trip_def xadd_def entered_def simp del: not_None_eq split: prod.splits option.splits bool.splits if_splits)
next
  case False
  then have "enqueue_script rid a s = (Some False, s)" by (simp add: enqueue_script_def)
  then have "s' = s" using assms by (cases io1) (auto simp: enqueue_redemption_def round_trip_def)
  then show ?thesis by simp
qed

lemma set_cursor_entered: "set_cursor io name v s = (r, s') \<Longrightarrow> entered X s s'"
  by (cases io) (auto simp: set_cursor_def round_trip_def entered_def)

lemma poll_id_entered:
  assumes "poll_id env rid s = (b, s')"
  shows "entered (if b = None then {rid} else {}) s s'"
proof -
  have bind: "entered (if b = None then {rid} else {}) s s2"
    if "enqueue_redemption io1 io2 rid u a x s = (b1, s1)" "b1 = None \<longrightarrow> b = None" "set_cursor io CURSOR_NAME rid s1 = (c, s2)"
    for io1 io2 io u a x b1 s1 s2 c
    using entered_trans [OF enqueue_entered [OF that(1)] set_cursor_entered [OF that(3), of "{}"]] that(2)
    by (auto simp: entered_def split: if_splits)
  show ?thesis using assms
    by (auto simp: poll_id_def split: option.splits prod.splits dest: enqueue_entered bind)
qed

lemma poll_ids_entered:
  "poll_ids env n rid k s = (r, s') \<Longrightarrow> entered (set_option (ids_stop env n rid s)) s s'"
proof (induction n arbitrary: rid k s)
  case (Suc n)
  obtain b s1 where b: "poll_id env rid s = (b, s1)" by fastforce
  note one = poll_id_entered [OF b]
  show ?case
  proof (cases b)
    case None
    then show ?thesis using Suc.prems b one by simp
  next
    case (Some ins)
    then show ?thesis using Suc.prems b one entered_trans [OF _ Suc.IH, of "{}" s s1] by auto
  qed
qed simp

lemma poll_tick_entered:
  assumes "poll_tick p env s = (r, s')"
  shows "entered (set_option (tick_stop p env s)) s s'"
proof -
  obtain c s1 where c: "get_cursor (pe_cursor_io env) CURSOR_NAME s = (c, s1)" by fastforce
  then have "s1 = s" by (cases "pe_cursor_io env") (auto simp: get_cursor_def round_trip_def)
  then show ?thesis using assms c
    by (auto simp: poll_tick_def tick_stop_def Let_def split: option.splits if_splits intro!: poll_ids_entered)
qed

section \<open>The system\<close>

record 'l ChainSys =
  cs_token :: "'l Token"
  cs_store :: "address Store"
  cs_effects :: "effect list"
  cs_stopped :: "u64 set"

text \<open>\<open>cs_stopped\<close> collects the ids at which a tick stopped with an error. The steps carry what the
  watcher relies on: reads of the chain return what the contract holds (\<open>honest_chain\<close>), and the wallet has
  not broadcast a transfer it answered with an error (\<open>wallet_honest\<close>).\<close>

inductive chain_step ::
  "EventPoller \<Rightarrow> MoneroConfig \<Rightarrow> bool \<Rightarrow> 'l erc20 \<Rightarrow> ('l \<Rightarrow> bool) \<Rightarrow> 'sig recover \<Rightarrow> 'l ChainSys \<Rightarrow> 'l ChainSys \<Rightarrow> bool"
  for p cfg marker E ok recover where
  cs_chain: "token_step E ok recover (cs_token c) t' \<Longrightarrow>
     chain_step p cfg marker E ok recover c (c\<lparr>cs_token := t'\<rparr>)"
| cs_poll: "honest_chain (cs_token c) env \<Longrightarrow> poll_tick p env (cs_store c) = (r, s') \<Longrightarrow>
     chain_step p cfg marker E ok recover c
       (c\<lparr>cs_store := s', cs_stopped := cs_stopped c \<union> set_option (tick_stop p env (cs_store c))\<rparr>)"
| cs_claim: "chain_step p cfg marker E ok recover c (c\<lparr>cs_store := snd (round_trip io (xautoclaim now) (cs_store c))\<rparr>)"
| cs_read: "chain_step p cfg marker E ok recover c (c\<lparr>cs_store := snd (round_trip io (xreadgroup now) (cs_store c))\<rparr>)"
| cs_entry: "e \<in> set (st_stream (cs_store c)) \<Longrightarrow> wallet_honest ev \<Longrightarrow>
     pay_entry cfg marker ev e (cs_store c) = (ctl, s', l) \<Longrightarrow>
     chain_step p cfg marker E ok recover c (c\<lparr>cs_store := s', cs_effects := rev l @ cs_effects c\<rparr>)"
| cs_treasury: "treasury_tick env (cs_store c) = (r, s') \<Longrightarrow>
     chain_step p cfg marker E ok recover c (c\<lparr>cs_store := s'\<rparr>)"

definition paid_for :: "MoneroConfig \<Rightarrow> 'l Token \<Rightarrow> effect \<Rightarrow> bool" where
  "paid_for cfg t f = (case f of
     Transfer rid x addr b \<Rightarrow>
       rid \<noteq> 0 \<and> ucast rid \<le> nextRedemptionId t \<and> addr = sr_xmrAddress (redemptions t (ucast rid)) \<and>
       10000 * unat x \<le> unat (sr_amount (redemptions t (ucast rid))) * (10000 + unat (max_payout_premium_bp cfg))
   | _ \<Rightarrow> True)"

definition chain_inv :: "EventPoller \<Rightarrow> MoneroConfig \<Rightarrow> 'l ChainSys \<Rightarrow> bool" where
  "chain_inv p cfg c \<longleftrightarrow> poll_inv p (cs_token c) (cs_store c) \<and> (\<forall>f \<in> set (cs_effects c). paid_for cfg (cs_token c) f)"

lemma poll_inv_frame:
  assumes "poll_inv p t s" "st_stream s' = st_stream s" "st_cursors s' = st_cursors s"
    "\<And>r. st_state s r \<noteq> None \<Longrightarrow> st_state s' r \<noteq> None"
  shows "poll_inv p t s'"
  using assms by (auto simp: poll_inv_def known_below_def simp del: not_None_eq)

lemma row_matches_step: "token_step E ok recover t t' \<Longrightarrow> row_matches t e \<Longrightarrow> row_matches t' e"
  using redemptions_immutable [of E ok recover t t'] by (auto simp: row_matches_def)

lemma paid_for_step: "token_step E ok recover t t' \<Longrightarrow> paid_for cfg t f \<Longrightarrow> paid_for cfg t' f"
  using redemptions_immutable [of E ok recover t t'] by (auto simp: paid_for_def split: effect.splits)

lemma unat_entry_amount:
  assumes "row_matches t e"
  shows "unat (entry_amount e) \<le> unat (sr_amount (redemptions t (ucast (en_id e))))"
proof -
  let ?a = "sr_amount (redemptions t (ucast (en_id e)))"
  have "entry_amount e = ucast ?a" using assms
    by (simp add: row_matches_def entry_amount_def)
  then show ?thesis by (simp add: unsigned_ucast_eq)
qed

lemma delivery_cursors [simp]:
  "st_cursors (snd (round_trip io (xautoclaim now) s)) = st_cursors s"
  "st_cursors (snd (round_trip io (xreadgroup now) s)) = st_cursors s"
  by (cases io; simp add: round_trip_def xautoclaim_def xreadgroup_def Let_def)+

lemma treasury_tick_frame:
  assumes "treasury_tick env s = (r, s')"
  shows "st_stream s' = st_stream s \<and> st_cursors s' = st_cursors s \<and> st_state s' = st_state s"
proof -
  have "snd (pending_count io s1) = s1" for io and s1 :: "'a Store"
    by (cases io) (simp_all add: pending_count_def round_trip_def)
  then have pc: "pending_count io s1 = (n, s2) \<Longrightarrow> s2 = s1" for io n and s1 s2 :: "'a Store" by (metis snd_conv)
  have "st_stream (snd (set_treasury_snapshot io snap s1)) = st_stream s1 \<and>
      st_cursors (snd (set_treasury_snapshot io snap s1)) = st_cursors s1 \<and>
      st_state (snd (set_treasury_snapshot io snap s1)) = st_state s1" for io snap and s1 :: "'a Store"
    by (cases io) (simp_all add: set_treasury_snapshot_def round_trip_def)
  then have ss: "set_treasury_snapshot io snap s1 = (x, s2) \<Longrightarrow>
      st_stream s2 = st_stream s1 \<and> st_cursors s2 = st_cursors s1 \<and> st_state s2 = st_state s1"
    for io snap x and s1 s2 :: "'a Store" by (metis snd_conv)
  show ?thesis using assms
    by (auto simp: treasury_tick_def Let_def split: option.splits prod.splits
        dest!: ss pc read_ops_state(2))
qed

lemma paid_for_entry:
  assumes "pay_entry cfg marker ev e s = (ctl, s', l)" "row_matches t e" "f \<in> set l"
  shows "paid_for cfg t f"
proof (cases f)
  case (Transfer rid x addr b)
  then have "Transfer rid x addr b \<in> set (effects_of (pay_entry cfg marker ev e s))" using assms(1,3) by simp
  then show ?thesis
  proof (rule pay_entry_transfer)
    fix snap q
    assume q: "payout_price cfg snap (word_of_int (max (or_zero (st_pending_atomic s)) 0)) (entry_amount e) = Pay q"
      and x: "rid = en_id e" "addr = en_xmr_addr e" "x = stamp_amount q (en_id e)"
    have "unat x \<le> unat q"
      using stamp_amount_bounds(1) [OF payout_price_Pay(2) [OF q], of "en_id e"] x by (simp add: word_le_nat_alt)
    then have "10000 * unat x \<le> unat (entry_amount e) * (10000 + unat (max_payout_premium_bp cfg))"
      using payout_share(2) [OF q] by simp
    also have "\<dots> \<le> unat (sr_amount (redemptions t (ucast rid))) * (10000 + unat (max_payout_premium_bp cfg))"
      using unat_entry_amount [OF assms(2)] x(1) by (intro mult_le_mono1) simp
    finally show ?thesis using assms(2) x(1,2) Transfer by (simp add: paid_for_def row_matches_def)
  qed
qed (simp_all add: paid_for_def)

lemma chain_inv_step:
  assumes "chain_step p cfg marker E ok recover c c'" "chain_inv p cfg c"
  shows "chain_inv p cfg c'"
  using assms
proof (induction rule: chain_step.induct)
  case (cs_chain c t')
  then show ?case using row_matches_step paid_for_step by (fastforce simp: chain_inv_def poll_inv_def)
next
  case (cs_poll c env r s')
  then show ?case using poll_tick_inv by (auto simp: chain_inv_def)
next
  case (cs_entry e c ev ctl s' l)
  have res: "entry_result (en_id e) (cs_store c) (ctl, s', l)"
    using pay_entry_result [OF cs_entry(2), of e "cs_store c" cfg marker] cs_entry(3) by simp
  then have k: "keeps (en_id e) (cs_store c) s'" by (simp add: entry_result_def)
  have "poll_inv p (cs_token c) s'"
  proof (rule poll_inv_frame)
    show "poll_inv p (cs_token c) (cs_store c)" using cs_entry(4) by (simp add: chain_inv_def)
    show "st_stream s' = st_stream (cs_store c)" "st_cursors s' = st_cursors (cs_store c)"
      using k by (simp_all add: keeps_def)
    show "st_state s' r \<noteq> None" if "st_state (cs_store c) r \<noteq> None" for r
      using that res k by (cases "r = en_id e") (auto simp: entry_result_def keeps_def)
  qed
  moreover have "row_matches (cs_token c) e" using cs_entry(1,4) by (auto simp: chain_inv_def poll_inv_def)
  then have "\<forall>f \<in> set l. paid_for cfg (cs_token c) f" using paid_for_entry [OF cs_entry(3)] by blast
  ultimately show ?case using cs_entry(4) by (auto simp: chain_inv_def)
next
  case (cs_treasury env c r s')
  then show ?case using treasury_tick_frame [OF cs_treasury(1)]
      poll_inv_frame [of p "cs_token c" "cs_store c" s'] by (simp add: chain_inv_def)
next
  case (cs_claim c io now)
  then show ?case using poll_inv_frame [of p "cs_token c" "cs_store c"] by (simp add: chain_inv_def)
next
  case (cs_read c io now)
  then show ?case using poll_inv_frame [of p "cs_token c" "cs_store c"] by (simp add: chain_inv_def)
qed

text \<open>Every id known to Redis was known at the start, has a stream entry, or is one at which a tick stopped.\<close>

definition entries_inv :: "address Store \<Rightarrow> 'l ChainSys \<Rightarrow> bool" where
  "entries_inv s0 c \<longleftrightarrow> entered (cs_stopped c) s0 (cs_store c)"

lemma entered_frame:
  "entered X s0 s \<Longrightarrow> st_stream s' = st_stream s \<Longrightarrow> st_state s' = st_state s \<Longrightarrow> entered X s0 s'"
  by (simp add: entered_def)

lemma entries_inv_step:
  assumes "chain_step p cfg marker E ok recover c c'" "entries_inv s0 c"
  shows "entries_inv s0 c'"
  using assms
proof (induction rule: chain_step.induct)
  case (cs_poll c env r s')
  then show ?case using entered_trans [OF _ poll_tick_entered [OF cs_poll(2)]] by (simp add: entries_inv_def)
next
  case (cs_entry e c ev ctl s' l)
  have "keeps (en_id e) (cs_store c) s'"
    using pay_entry_result [OF cs_entry(2), of e "cs_store c" cfg marker] cs_entry(3) by (simp add: entry_result_def)
  then have "st_stream s' = st_stream (cs_store c)" "\<forall>r. r \<noteq> en_id e \<longrightarrow> st_state s' r = st_state (cs_store c) r"
    by (simp_all add: keeps_def)
  then show ?case using cs_entry(1,4) unfolding entries_inv_def entered_def by (simp del: not_None_eq) (metis imageI)
next
  case (cs_treasury env c r s')
  then show ?case using treasury_tick_frame [OF cs_treasury(1)] entered_frame [of "cs_stopped c" s0 "cs_store c" s']
    by (simp add: entries_inv_def)
qed (simp_all add: entries_inv_def entered_def)

interpretation entries_kept: invariant "chain_step p cfg marker E ok recover" "entries_inv s0"
  for p cfg marker E ok recover s0
  by unfold_locales (rule entries_inv_step)

interpretation watched_chain: invariant "chain_step p cfg marker E ok recover" "chain_inv p cfg"
  for p cfg marker E ok recover
  by unfold_locales (rule chain_inv_step)

text \<open>C26: the watcher and the token together. The node answers with what the contract holds, and the wallet has
  not broadcast a transfer that it answered with an error; the queue is empty and there is no cursor at the
  start. Then over any interleaving of transactions, poller ticks, stream deliveries, payouts and
  treasury refreshes: every queued entry is a redemption the contract has recorded, with its user,
  amount and address; every id from the start block up to the cursor is known to Redis, and it has a stream
  entry unless it was known at the start or some tick stopped with an error at that very id; and every transfer the
  wallet was asked for goes to the address of a recorded redemption, for at most its burned amount plus the premium.\<close>

theorem payouts_mirror_burns:
  assumes "(chain_step p cfg marker E ok recover)\<^sup>*\<^sup>* \<lparr>cs_token = t0, cs_store = s0, cs_effects = [], cs_stopped = {}\<rparr> c"
    and "st_stream s0 = []" "st_cursors s0 CURSOR_NAME = None"
  shows "(\<forall>e \<in> set (st_stream (cs_store c)). row_matches (cs_token c) e) \<and>
    (\<forall>v rid. st_cursors (cs_store c) CURSOR_NAME = Some v \<longrightarrow> start_block p \<le> rid \<longrightarrow> rid \<noteq> 0 \<longrightarrow> rid \<le> v \<longrightarrow>
       st_state (cs_store c) rid \<noteq> None \<and>
       (rid \<in> en_id ` set (st_stream (cs_store c)) \<or> st_state s0 rid \<noteq> None \<or> rid \<in> cs_stopped c)) \<and>
    (\<forall>f \<in> set (cs_effects c). paid_for cfg (cs_token c) f)"
proof -
  have "chain_inv p cfg \<lparr>cs_token = t0, cs_store = s0, cs_effects = [], cs_stopped = {}\<rparr>"
    using assms(2,3) by (simp add: chain_inv_def poll_inv_def)
  note inv = watched_chain.inv_steps [OF assms(1) this]
  have "entries_inv s0 \<lparr>cs_token = t0, cs_store = s0, cs_effects = [], cs_stopped = {}\<rparr>" by (simp add: entries_inv_def)
  note ent = entries_kept.inv_steps [OF assms(1) this]
  have "st_state (cs_store c) rid \<noteq> None" if "st_cursors (cs_store c) CURSOR_NAME = Some v" "start_block p \<le> rid" "rid \<noteq> 0" "rid \<le> v" for v rid
    using inv that by (auto simp: chain_inv_def poll_inv_def known_below_def simp del: not_None_eq)
  moreover have "rid \<in> en_id ` set (st_stream (cs_store c)) \<or> st_state s0 rid \<noteq> None \<or> rid \<in> cs_stopped c"
    if "st_state (cs_store c) rid \<noteq> None" for rid
    using ent that unfolding entries_inv_def entered_def by blast
  ultimately show ?thesis using inv by (auto simp: chain_inv_def poll_inv_def simp del: not_None_eq)
qed

definition demo_chain :: "oz_ledger Token" where
  "demo_chain = demo_deployed\<lparr>nextRedemptionId := 1,
     redemptions := (\<lambda>_. no_redemption)(1 := \<lparr>sr_user = 5, sr_amount = 1000000000000, sr_xmrAddress = ''48xmr''\<rparr>)\<rparr>"

definition demo_poller :: EventPoller where
  "demo_poller = \<lparr>start_block = 1, chunk_size = 10\<rparr>"

definition demo_poll_env :: poll_env where
  "demo_poll_env = \<lparr>pe_cursor_io = IoOk, pe_next = Some 1, pe_row = (\<lambda>rid. Some (redemptions demo_chain (ucast rid))),
     pe_script_io = (\<lambda>_. IoOk), pe_xadd_io = (\<lambda>_. IoOk), pe_set_io = (\<lambda>_. IoOk)\<rparr>"

definition demo_s0 :: "address Store" where
  "demo_s0 = empty_store\<lparr>st_snapshot := Some demo_snap\<rparr>"

definition demo_s1 :: "address Store" where
  "demo_s1 = snd (poll_tick demo_poller demo_poll_env demo_s0)"

definition demo_out :: "address outcome" where
  "demo_out = pay_entry demo_cfg True demo_env (hd (st_stream demo_s1)) demo_s1"

definition demo_end :: "oz_ledger ChainSys" where
  "demo_end = \<lparr>cs_token = demo_chain, cs_store = store_of demo_out, cs_effects = rev (effects_of demo_out), cs_stopped = {}\<rparr>"

lemma demo_end_reached:
  "(chain_step demo_poller demo_cfg True oz_erc20 oz_ok demo_recover)\<^sup>*\<^sup>*
     \<lparr>cs_token = demo_chain, cs_store = demo_s0, cs_effects = [], cs_stopped = {}\<rparr> demo_end"
    (is "(?R)\<^sup>*\<^sup>* ?c0 demo_end")
proof -
  let ?c1 = "\<lparr>cs_token = demo_chain, cs_store = demo_s1, cs_effects = [], cs_stopped = {}\<rparr>"
  have "tick_stop demo_poller demo_poll_env demo_s0 = None" by code_simp
  have "pe_next demo_poll_env = Some 1" "nextRedemptionId demo_chain = 1" by code_simp+
  then have "honest_chain demo_chain demo_poll_env" by (simp add: honest_chain_def demo_poll_env_def)
  then have one: "?R ?c0 ?c1"
    using \<open>tick_stop demo_poller demo_poll_env demo_s0 = None\<close> chain_step.cs_poll [of ?c0 demo_poll_env demo_poller "fst (poll_tick demo_poller demo_poll_env demo_s0)" demo_s1]
    by (simp add: demo_s1_def)
  have "st_stream demo_s1 \<noteq> []" by code_simp
  then have "hd (st_stream demo_s1) \<in> set (st_stream demo_s1)" by (rule hd_in_set)
  moreover have "wallet_honest demo_env" by code_simp
  ultimately have "?R ?c1 demo_end"
    using chain_step.cs_entry [of "hd (st_stream demo_s1)" ?c1 demo_env demo_cfg True "fst demo_out" "store_of demo_out" "effects_of demo_out"]
    by (simp add: demo_end_def demo_out_def)
  with one show ?thesis by auto
qed

theorem payouts_mirror_burns_witness:
  "cs_effects demo_end = [MarkProcessed 1 ''ab'' 0, Transfer 1 799999983617 ''48xmr'' True] \<and>
   paid_for demo_cfg demo_chain (Transfer 1 799999983617 ''48xmr'' True)"
proof -
  have "cs_effects demo_end = [MarkProcessed 1 ''ab'' 0, Transfer 1 799999983617 ''48xmr'' True]" by code_simp
  moreover have "st_stream demo_s0 = []" "st_cursors demo_s0 CURSOR_NAME = None"
    by (simp_all add: demo_s0_def empty_store_def)
  moreover have "cs_token demo_end = demo_chain" by (simp add: demo_end_def)
  ultimately show ?thesis using payouts_mirror_burns [OF demo_end_reached] by auto
qed

section \<open>Where the guarantees end\<close>

text \<open>When adding the stream entry fails after the script, the next tick finds the id known
  and moves the cursor past it: the redemption is pending, counted, and in no queue.\<close>

definition demo_lost :: "address Store" where
  "demo_lost = snd (poll_tick demo_poller demo_poll_env
     (snd (poll_tick demo_poller (demo_poll_env\<lparr>pe_xadd_io := (\<lambda>_. IoFail)\<rparr>) demo_s0)))"

lemma redemption_lost:
  "st_cursors demo_lost CURSOR_NAME = Some 1 \<and> st_state demo_lost 1 = Some Pending \<and> st_stream demo_lost = [] \<and>
   st_pending_atomic demo_lost = Some 1000000000000"
  by (intro conjI; code_simp)

text \<open>A failed read of the supply is recorded as a supply of 0, in a snapshot that counts as
  fresh: the payout is then priced as if the pending redemptions were all there is.\<close>

definition demo_treasury :: "u256 option \<Rightarrow> treasury_env" where
  "demo_treasury supply = \<lparr>te_balance = Some (JObj [(''result'', JObj [(''balance'', JNum 3000000000000),
      (''unlocked_balance'', JNum 3000000000000)])]), te_supply = supply, te_pending_io = IoOk, te_count_io = IoOk,
     te_set_io = IoOk, te_now = 1000\<rparr>"

lemma supply_read_failure_overpays:
  "map_option (\<lambda>snap. payout_price demo_cfg snap 1000000000000 1000000000000) (fst (treasury_tick (demo_treasury (Some 5000000000000)) demo_s1))
     = Some (Pay 500000000000)"
  "map_option (\<lambda>snap. payout_price demo_cfg snap 1000000000000 1000000000000) (fst (treasury_tick (demo_treasury None) demo_s1))
     = Some (Pay 1000000000000)"
  by code_simp+

end
