(* ===== verification/Decimal.thy ===== *)
theory Decimal
  imports Json
begin

text \<open>
  Decimal text of integers: what \<open>to_string\<close> prints and what \<open>str::parse\<close> reads,
  with the errors of \<open>core::num::ParseIntError\<close> in the order its loop finds them.
\<close>

section \<open>Printing\<close>

definition digit_char :: "int \<Rightarrow> char" where
  "digit_char d = char_of (48 + d)"

function show_nat :: "int \<Rightarrow> string" where
  "show_nat n = (if n < 10 then [digit_char (max n 0)] else show_nat (n div 10) @ [digit_char (n mod 10)])"
  by auto
termination by (relation "measure nat") auto

declare show_nat.simps [simp del]

definition show_int :: "int \<Rightarrow> string" where
  "show_int n = (if n < 0 then CHR ''-'' # show_nat (- n) else show_nat n)"

section \<open>Parsing\<close>

datatype ParseIntError = IntEmpty | InvalidDigit | PosOverflow | NegOverflow

definition parse_int_error_text :: "ParseIntError \<Rightarrow> string" where
  "parse_int_error_text e = (case e of
     IntEmpty \<Rightarrow> ''cannot parse integer from empty string''
   | InvalidDigit \<Rightarrow> ''invalid digit found in string''
   | PosOverflow \<Rightarrow> ''number too large to fit in target type''
   | NegOverflow \<Rightarrow> ''number too small to fit in target type'')"

fun i64_digits :: "bool \<Rightarrow> int \<Rightarrow> string \<Rightarrow> ParseIntError + int" where
  "i64_digits neg acc [] = Inr acc"
| "i64_digits neg acc (c # cs) =
     (case digit_value c of
        None \<Rightarrow> Inl InvalidDigit
      | Some d \<Rightarrow>
          let a = (if neg then acc * 10 - d else acc * 10 + d)
          in if in_i64 (acc * 10) \<and> in_i64 a then i64_digits neg a cs
             else Inl (if neg then NegOverflow else PosOverflow))"

definition parse_i64 :: "string \<Rightarrow> ParseIntError + int" where
  "parse_i64 s =
     (case s of
        [] \<Rightarrow> Inl IntEmpty
      | c # cs \<Rightarrow>
          if cs = [] \<and> (c = CHR ''+'' \<or> c = CHR ''-'') then Inl InvalidDigit
          else if c = CHR ''+'' then i64_digits False 0 cs
          else if c = CHR ''-'' then i64_digits True 0 cs
          else i64_digits False 0 s)"

section \<open>What is printed is read\<close>

lemma digit_value_char [simp]: "0 \<le> d \<Longrightarrow> d \<le> 9 \<Longrightarrow> digit_value (digit_char d) = Some d"
  by (simp add: digit_value_def digit_char_def)

lemma i64_digits_append:
  "i64_digits neg acc (xs @ ys) =
     (case i64_digits neg acc xs of Inl e \<Rightarrow> Inl e | Inr a \<Rightarrow> i64_digits neg a ys)"
  by (induction neg acc xs rule: i64_digits.induct) (auto simp: Let_def split: option.splits)

lemma i64_digits_show:
  "0 \<le> n \<Longrightarrow> n \<le> i64_max \<Longrightarrow> i64_digits False 0 (show_nat n) = Inr n"
proof (induction n rule: show_nat.induct)
  case (1 n)
  show ?case
  proof (cases "n < 10")
    case True
    with 1 show ?thesis by (subst show_nat.simps) (simp add: in_i64_def i64_max_def i64_min_def max_def)
  next
    case False
    have d: "n div 10 * 10 + n mod 10 = n" "0 \<le> n mod 10" "n mod 10 \<le> 9" by (simp, simp, presburger)
    have le: "n div 10 * 10 \<le> n" "0 \<le> n div 10 * 10" "n div 10 \<le> n" using 1(2) d by presburger+
    then have "in_i64 (n div 10 * 10)" "in_i64 n" "i64_digits False 0 (show_nat (n div 10)) = Inr (n div 10)"
      using 1 False by (simp_all add: in_i64_def i64_min_def)
    with False d show ?thesis by (subst show_nat.simps) (simp add: i64_digits_append)
  qed
qed

lemma i64_digits_show_neg:
  "0 \<le> n \<Longrightarrow> - n \<ge> i64_min \<Longrightarrow> i64_digits True 0 (show_nat n) = Inr (- n)"
proof (induction n rule: show_nat.induct)
  case (1 n)
  show ?case
  proof (cases "n < 10")
    case True
    with 1 show ?thesis by (subst show_nat.simps) (simp add: in_i64_def i64_max_def i64_min_def max_def)
  next
    case False
    have d: "n div 10 * 10 + n mod 10 = n" "0 \<le> n mod 10" "n mod 10 \<le> 9" by (simp, simp, presburger)
    then have d': "- (n div 10) * 10 - n mod 10 = - n" by presburger
    have le: "n div 10 * 10 \<le> n" "0 \<le> n div 10 * 10" "n div 10 \<le> n" using 1(2) d by presburger+
    then have "in_i64 (- (n div 10) * 10)" "in_i64 (- n)" "i64_digits True 0 (show_nat (n div 10)) = Inr (- (n div 10))"
      using 1 False by (simp_all add: in_i64_def i64_max_def)
    with False d d' show ?thesis by (subst show_nat.simps) (simp add: i64_digits_append)
  qed
qed

lemma show_nat_digits: "c \<in> set (show_nat n) \<Longrightarrow> \<exists>d. 0 \<le> d \<and> d \<le> 9 \<and> c = digit_char d"
proof (induction n rule: show_nat.induct)
  case (1 n)
  from 1(2) show ?case
    by (subst (asm) show_nat.simps)
      (auto split: if_splits intro: 1(1) exI [of _ "max n 0"] exI [of _ "n mod 10"])
qed

lemma digit_char_neq [simp]:
  assumes "0 \<le> d" "d \<le> 9"
  shows "digit_char d \<noteq> CHR ''+''" "digit_char d \<noteq> CHR ''-''"
proof -
  have "digit_value (digit_char d) = Some d" using assms by simp
  moreover have "digit_value CHR ''+'' = None" "digit_value CHR ''-'' = None"
    by (simp_all add: digit_value_def)
  ultimately show "digit_char d \<noteq> CHR ''+''" "digit_char d \<noteq> CHR ''-''" by auto
qed

lemma show_nat_nonempty [simp]: "show_nat n \<noteq> []"
  by (subst show_nat.simps) simp

lemma parse_show_int: "in_i64 n \<Longrightarrow> parse_i64 (show_int n) = Inr n"
proof (cases "n < 0")
  case True
  assume "in_i64 n"
  then show ?thesis using True i64_digits_show_neg [of "- n"]
    by (simp add: show_int_def parse_i64_def in_i64_def)
next
  case False
  assume b: "in_i64 n"
  obtain c cs where s: "show_nat n = c # cs" by (cases "show_nat n") auto
  then obtain d where "0 \<le> d" "d \<le> 9" "c = digit_char d" using show_nat_digits [of c n] by auto
  then have "c \<noteq> CHR ''+''" "c \<noteq> CHR ''-''" by simp_all
  then show ?thesis using False b s i64_digits_show [of n]
    by (simp add: show_int_def parse_i64_def in_i64_def)
qed

lemma i64_digits_in: "in_i64 acc \<Longrightarrow> i64_digits neg acc s = Inr n \<Longrightarrow> in_i64 n"
  by (induction neg acc s rule: i64_digits.induct) (auto simp: Let_def split: option.splits if_splits)

lemma parse_i64_in: "parse_i64 s = Inr n \<Longrightarrow> in_i64 n"
proof -
  have "in_i64 0" by (simp add: in_i64_def i64_min_def i64_max_def)
  then show "parse_i64 s = Inr n \<Longrightarrow> in_i64 n"
    by (auto simp: parse_i64_def simp del: i64_digits.simps split: list.splits if_splits intro: i64_digits_in)
qed

end
