(* ===== verification/Hex.thy ===== *)
theory Hex
  imports Prelude
begin

text \<open>
  Byte strings and their hexadecimal text. Rust strings are byte sequences
  (UTF-8), modelled as \<open>string\<close> with one \<open>char\<close> per byte. The standard library's
  \<open>{:02x}\<close>, \<open>u8::from_str_radix\<close> and little-endian conversions are defined
  here. The \<open>hex\<close> crate is not part of the repository: the components take its
  \<open>encode\<close> and \<open>decode\<close> as arguments, and what they rely on is the locale
  \<open>hex_codec\<close>, the crate's documented behaviour. \<open>hex_encode\<close> and
  \<open>hex_decode\<close> are a concrete instance that satisfies it.
\<close>

section \<open>Strings\<close>

text \<open>A byte of the form 10xxxxxx continues a character: slicing a \<open>str\<close> there panics.\<close>

definition is_char_boundary :: "string \<Rightarrow> nat \<Rightarrow> bool" where
  "is_char_boundary s i \<longleftrightarrow>
     i = 0 \<or> i = length s \<or>
     (i < length s \<and> \<not> (128 \<le> (of_char (s ! i) :: nat) \<and> (of_char (s ! i) :: nat) < 192))"

text \<open>\<open>str::trim\<close> removes the characters of Unicode's White_Space property at both
  ends, here by their UTF-8 bytes. Each round of \<open>strip_ws\<close> removes at least one
  byte, so the length of the string is fuel enough.\<close>

definition ws_seqs :: "nat list list" where
  "ws_seqs = [[9], [10], [11], [12], [13], [32], [194, 133], [194, 160], [225, 154, 128],
     [226, 128, 128], [226, 128, 129], [226, 128, 130], [226, 128, 131], [226, 128, 132],
     [226, 128, 133], [226, 128, 134], [226, 128, 135], [226, 128, 136], [226, 128, 137],
     [226, 128, 138], [226, 128, 168], [226, 128, 169], [226, 128, 175], [226, 129, 159],
     [227, 128, 128]]"

fun strip_ws :: "nat list list \<Rightarrow> nat \<Rightarrow> string \<Rightarrow> string" where
  "strip_ws seqs 0 s = s"
| "strip_ws seqs (Suc fuel) s =
     (case find (\<lambda>q. take (length q) (map of_char s) = q) seqs of
        None \<Rightarrow> s
      | Some q \<Rightarrow> strip_ws seqs fuel (drop (length q) s))"

definition str_trim :: "string \<Rightarrow> string" where
  "str_trim s =
     (let a = strip_ws ws_seqs (length s) s
      in rev (strip_ws (map rev ws_seqs) (length a) (rev a)))"

text \<open>Trimming leaves printable ASCII text alone.\<close>

lemma strip_ws_none:
  assumes "\<forall>q\<in>set seqs. q \<noteq> [] \<and> (hd q \<le> 32 \<or> 128 \<le> hd q)"
    and "s \<noteq> [] \<longrightarrow> 32 < (of_char (hd s) :: nat) \<and> (of_char (hd s) :: nat) < 128"
  shows "strip_ws seqs n s = s"
proof (cases n)
  case (Suc m)
  have "take (length q) (map of_char s) \<noteq> q" if "q \<in> set seqs" for q
  proof
    assume *: "take (length q) (map of_char s) = q"
    from assms(1) that obtain x xs where q: "q = x # xs" "x \<le> 32 \<or> 128 \<le> x" by (cases q) auto
    with * have "s \<noteq> []" "of_char (hd s) = x" by (cases s; auto)+
    with assms(2) q(2) show False by auto
  qed
  then have "find (\<lambda>q. take (length q) (map of_char s) = q) seqs = None" by (simp add: find_None_iff)
  with Suc show ?thesis by simp
qed simp

definition printable :: "char \<Rightarrow> bool" where
  "printable c \<longleftrightarrow> 32 < (of_char c :: nat) \<and> (of_char c :: nat) < 128"

lemma str_trim_printable: "\<forall>c\<in>set s. printable c \<Longrightarrow> str_trim s = s"
proof -
  assume p: "\<forall>c\<in>set s. printable c"
  have "\<forall>q\<in>set ws_seqs. q \<noteq> [] \<and> (hd q \<le> 32 \<or> 128 \<le> hd q)"
    "\<forall>q\<in>set (map rev ws_seqs). q \<noteq> [] \<and> (hd q \<le> 32 \<or> 128 \<le> hd q)"
    by (simp_all add: ws_seqs_def)
  moreover have "s \<noteq> [] \<longrightarrow> 32 < (of_char (hd s) :: nat) \<and> (of_char (hd s) :: nat) < 128"
    "rev s \<noteq> [] \<longrightarrow> 32 < (of_char (hd (rev s)) :: nat) \<and> (of_char (hd (rev s)) :: nat) < 128"
    using p by (auto simp: printable_def hd_rev)
  ultimately show ?thesis by (simp add: str_trim_def Let_def strip_ws_none)
qed

section \<open>Digits\<close>

definition hex_digits :: string where "hex_digits = ''0123456789abcdef''"

definition hex_digit :: "nat \<Rightarrow> char" where
  "hex_digit n = hex_digits ! n"

definition hex_value :: "char \<Rightarrow> nat option" where
  "hex_value c =
     (let n = (of_char c :: nat)
      in if 48 \<le> n \<and> n \<le> 57 then Some (n - 48)
         else if 97 \<le> n \<and> n \<le> 102 then Some (n - 87)
         else if 65 \<le> n \<and> n \<le> 70 then Some (n - 55)
         else None)"

lemma nat_less_16_cases:
  assumes "n < (16 :: nat)"
  shows "n \<in> {0, 1, 2, 3, 4, 5, 6, 7, 8, 9, 10, 11, 12, 13, 14, 15}"
proof -
  have "n \<in> {..< 16}" using assms by simp
  also have "{..< 16 :: nat} = {0, 1, 2, 3, 4, 5, 6, 7, 8, 9, 10, 11, 12, 13, 14, 15}"
    by (simp add: lessThan_nat_numeral lessThan_Suc insert_commute)
  finally show ?thesis .
qed

lemma hex_digit_code: "n < 16 \<Longrightarrow> (of_char (hex_digit n) :: nat) = (if n < 10 then 48 + n else 87 + n)"
  by (drule nat_less_16_cases) (auto simp: hex_digit_def hex_digits_def)

lemma hex_value_digit [simp]: "n < 16 \<Longrightarrow> hex_value (hex_digit n) = Some n"
  by (simp add: hex_value_def hex_digit_code Let_def)

lemma hex_value_less: "hex_value c = Some n \<Longrightarrow> n < 16"
  by (auto simp: hex_value_def Let_def split: if_splits)

lemma hex_digit_ascii: "n < 16 \<Longrightarrow> (of_char (hex_digit n) :: nat) < 128"
  by (simp add: hex_digit_code)

lemma hex_digit_not_plus: "n < 16 \<Longrightarrow> hex_digit n \<noteq> CHR ''+''"
  by (drule nat_less_16_cases) (auto simp: hex_digit_def hex_digits_def)

lemma char_eq_nat: "c = d \<longleftrightarrow> (of_char c :: nat) = of_char d"
  by simp

lemma hex_digit_lower: "n < 16 \<Longrightarrow> char_to_ascii_lowercase (hex_digit n) = hex_digit n"
  by (simp add: char_to_ascii_lowercase_def hex_digit_code Let_def)

lemma hex_value_iff:
  "hex_value c = Some n \<longleftrightarrow> n < 16 \<and> char_to_ascii_lowercase c = hex_digit n"
  by (auto simp: char_eq_nat [of "char_to_ascii_lowercase c"] of_char_lowercase hex_digit_code
      hex_value_def Let_def simp del: of_char_eq_iff split: if_splits)

text \<open>\<open>format!("{b:02x}")\<close>\<close>

definition fmt_02x :: "u8 \<Rightarrow> string" where
  "fmt_02x b = [hex_digit (unat b div 16), hex_digit (unat b mod 16)]"

text \<open>\<open>u8::from_str_radix(s, 16).ok()\<close>: one leading plus sign is allowed, and the
  value must fit a byte.\<close>

fun radix16 :: "nat \<Rightarrow> string \<Rightarrow> nat option" where
  "radix16 acc [] = Some acc"
| "radix16 acc (c # cs) =
     (case hex_value c of
        None \<Rightarrow> None
      | Some d \<Rightarrow> if acc * 16 + d < 256 then radix16 (acc * 16 + d) cs else None)"

definition u8_from_str_radix16 :: "string \<Rightarrow> u8 option" where
  "u8_from_str_radix16 s =
     (case s of
        [] \<Rightarrow> None
      | c # cs \<Rightarrow>
          if cs = [] \<and> (c = CHR ''+'' \<or> c = CHR ''-'') then None
          else map_option word_of_nat (radix16 0 (if c = CHR ''+'' then cs else s)))"

lemma u8_less_256: "unat (b :: u8) < 256"
  using unsigned_less [of b] by simp

lemma unat_div16: "unat (b :: u8) div 16 < 16"
  using u8_less_256 [of b] by (simp add: less_mult_imp_div_less)

lemma from_str_radix_fmt [simp]: "u8_from_str_radix16 (fmt_02x b) = Some b"
proof -
  have "unat b div 16 * 16 + unat b mod 16 = unat b" by simp
  then show ?thesis
    using u8_less_256 [of b] unat_div16 [of b] hex_digit_not_plus [OF unat_div16, of b]
    by (simp add: u8_from_str_radix16_def fmt_02x_def)
qed

section \<open>Little-endian integers\<close>

fun le_nat :: "u8 list \<Rightarrow> nat" where
  "le_nat [] = 0"
| "le_nat (b # bs) = unat b + 256 * le_nat bs"

fun le_bytes :: "nat \<Rightarrow> nat \<Rightarrow> u8 list" where
  "le_bytes 0 x = []"
| "le_bytes (Suc n) x = word_of_nat x # le_bytes n (x div 256)"

definition u32_to_le_bytes :: "u32 \<Rightarrow> u8 list" where
  "u32_to_le_bytes w = le_bytes 4 (unat w)"

definition u32_from_le_bytes :: "u8 list \<Rightarrow> u32" where
  "u32_from_le_bytes bs = word_of_nat (le_nat bs)"

definition u64_from_le_bytes :: "u8 list \<Rightarrow> u64" where
  "u64_from_le_bytes bs = word_of_nat (le_nat bs)"

lemma le_bytes_length [simp]: "length (le_bytes n x) = n"
  by (induction n arbitrary: x) simp_all

lemma le_nat_less: "le_nat bs < 256 ^ length bs"
proof (induction bs)
  case (Cons b bs)
  have "unat b + 256 * le_nat bs < 256 + 256 * le_nat bs" using u8_less_256 [of b] by simp
  also have "\<dots> \<le> 256 * 256 ^ length bs" using Cons.IH by simp
  finally show ?case by simp
qed simp

lemma le_nat_bytes [simp]: "x < 256 ^ n \<Longrightarrow> le_nat (le_bytes n x) = x"
proof (induction n arbitrary: x)
  case (Suc n)
  have "x div 256 < 256 ^ n" using Suc.prems by (simp add: less_mult_imp_div_less mult.commute)
  moreover have "unat (word_of_nat x :: u8) = x mod 256"
    by (simp add: unat_of_nat)
  ultimately show ?case using Suc.IH [of "x div 256"] by simp
qed simp

lemma le_nat_append: "le_nat (as @ bs) = le_nat as + 256 ^ length as * le_nat bs"
  by (induction as) (simp_all add: algebra_simps)

lemma u32_le_round [simp]: "u32_from_le_bytes (u32_to_le_bytes w) = w"
proof -
  have "unat w < 256 ^ 4" using unsigned_less [of w] by simp
  then have "le_nat (le_bytes 4 (unat w)) = unat w" by (rule le_nat_bytes)
  then show ?thesis unfolding u32_from_le_bytes_def u32_to_le_bytes_def by simp
qed

lemma unat_u32_from_le_bytes: "length bs = 4 \<Longrightarrow> unat (u32_from_le_bytes bs) = le_nat bs"
  using le_nat_less [of bs] by (simp add: u32_from_le_bytes_def unat_of_nat)

lemma unat_u64_from_le_bytes: "length bs = 8 \<Longrightarrow> unat (u64_from_le_bytes bs) = le_nat bs"
  using le_nat_less [of bs] by (simp add: u64_from_le_bytes_def unat_of_nat)

text \<open>For evaluation on integers rather than on naturals.\<close>

fun le_int :: "u8 list \<Rightarrow> int" where
  "le_int [] = 0"
| "le_int (b # bs) = uint b + 256 * le_int bs"

fun le_bytes_int :: "nat \<Rightarrow> int \<Rightarrow> u8 list" where
  "le_bytes_int 0 x = []"
| "le_bytes_int (Suc n) x = word_of_int x # le_bytes_int n (x div 256)"

lemma le_int_nat: "le_int bs = int (le_nat bs)"
  by (induction bs) simp_all

lemma le_bytes_int_nat: "le_bytes_int n (int x) = le_bytes n x"
proof (induction n arbitrary: x)
  case (Suc n)
  have "int x div 256 = int (x div 256)" by (simp add: zdiv_int)
  then show ?case using Suc.IH [of "x div 256"] by simp
qed simp

lemma le_code [code]:
  "u32_to_le_bytes w = le_bytes_int 4 (uint w)"
  "u32_from_le_bytes bs = word_of_int (le_int bs)"
  "u64_from_le_bytes bs = word_of_int (le_int bs)"
  using le_bytes_int_nat [of 4 "unat w"]
  by (simp_all add: u32_to_le_bytes_def u32_from_le_bytes_def u64_from_le_bytes_def le_int_nat)

section \<open>The hex crate\<close>

datatype FromHexError = InvalidHexCharacter char nat | OddLength | InvalidStringLength

type_synonym hex_enc = "u8 list \<Rightarrow> string"
type_synonym hex_dec = "string \<Rightarrow> FromHexError + u8 list"

lemma fmt_02x_inj: "fmt_02x a = fmt_02x b \<longleftrightarrow> a = b"
proof
  assume "fmt_02x a = fmt_02x b"
  then have "u8_from_str_radix16 (fmt_02x a) = u8_from_str_radix16 (fmt_02x b)" by (rule arg_cong)
  then show "a = b" by (simp only: from_str_radix_fmt option.inject)
qed (rule arg_cong)

lemma fmt_02x_length [simp]: "length (fmt_02x b) = 2"
  by (simp add: fmt_02x_def)

lemma fmt_02x_lower [simp]: "to_ascii_lowercase (fmt_02x b) = fmt_02x b"
  using unat_div16 [of b] by (simp add: fmt_02x_def to_ascii_lowercase_def hex_digit_lower)

lemma concat_fmt_length [simp]: "length (concat (map fmt_02x bs)) = 2 * length bs"
  by (induction bs) simp_all

lemma concat_fmt_inj: "concat (map fmt_02x as) = concat (map fmt_02x bs) \<longleftrightarrow> as = bs"
proof (induction as arbitrary: bs)
  case Nil
  show ?case by (cases bs) (auto simp: fmt_02x_def)
next
  case (Cons a as)
  show ?case
  proof (cases bs)
    case Nil
    then show ?thesis by (auto simp: fmt_02x_def)
  next
    case (Cons b bs')
    then show ?thesis using Cons.IH [of bs'] fmt_02x_inj [of a b] by auto
  qed
qed

lemma concat_fmt_lower:
  "to_ascii_lowercase (concat (map fmt_02x bs)) = concat (map fmt_02x bs)"
proof (induction bs)
  case (Cons b bs)
  then show ?case using fmt_02x_lower [of b] by (simp add: to_ascii_lowercase_def)
qed (simp add: to_ascii_lowercase_def)

locale hex_codec =
  fixes enc :: hex_enc and dec :: hex_dec
  assumes enc_digits: "enc bs = concat (map fmt_02x bs)"
    and dec_iff: "dec s = Inr bs \<longleftrightarrow> to_ascii_lowercase s = enc bs"
begin

lemma dec_enc [simp]: "dec (enc bs) = Inr bs"
  by (simp add: dec_iff enc_digits concat_fmt_lower)

lemma enc_inj: "enc as = enc bs \<longleftrightarrow> as = bs"
  by (simp add: enc_digits concat_fmt_inj)

lemma enc_length: "length (enc bs) = 2 * length bs"
  by (simp add: enc_digits)

lemma dec_length: "dec s = Inr bs \<Longrightarrow> length s = 2 * length bs"
  using enc_length [of bs] length_to_ascii_lowercase [of s] by (simp add: dec_iff)

lemma dec_same_bytes:
  "dec s = Inr bs \<Longrightarrow> dec t = Inr bs \<Longrightarrow> to_ascii_lowercase s = to_ascii_lowercase t"
  by (simp add: dec_iff)

lemma enc_append: "enc (as @ bs) = enc as @ enc bs"
  by (simp add: enc_digits)

lemma dec_append_iff:
  assumes "length s = 2 * length as"
  shows "dec (s @ t) = Inr (as @ bs) \<longleftrightarrow> dec s = Inr as \<and> dec t = Inr bs"
  using assms by (auto simp: dec_iff enc_append to_ascii_lowercase_def enc_length)

lemma dec_take_drop:
  assumes "dec s = Inr bs" "k \<le> length bs"
  shows "dec (take (2 * k) s) = Inr (take k bs)" "dec (drop (2 * k) s) = Inr (drop k bs)"
proof -
  have "dec (take (2 * k) s @ drop (2 * k) s) = Inr (take k bs @ drop k bs)" using assms by simp
  moreover have "length (take (2 * k) s) = 2 * length (take k bs)"
    using assms dec_length [OF assms(1)] by simp
  ultimately show "dec (take (2 * k) s) = Inr (take k bs)" "dec (drop (2 * k) s) = Inr (drop k bs)"
    using dec_append_iff by blast+
qed

end

definition digits_byte :: "nat \<Rightarrow> nat \<Rightarrow> u8" where
  "digits_byte x y = word_of_nat (16 * x + y)"

fun hex_encode :: hex_enc where
  "hex_encode [] = []"
| "hex_encode (b # bs) = fmt_02x b @ hex_encode bs"

fun hex_decode_from :: "nat \<Rightarrow> hex_dec" where
  "hex_decode_from i [] = Inr []"
| "hex_decode_from i [c] = Inl OddLength"
| "hex_decode_from i (c # d # cs) =
     (case (hex_value c, hex_value d) of
        (None, _) \<Rightarrow> Inl (InvalidHexCharacter c i)
      | (_, None) \<Rightarrow> Inl (InvalidHexCharacter d (Suc i))
      | (Some x, Some y) \<Rightarrow>
          (case hex_decode_from (Suc (Suc i)) cs of
             Inl e \<Rightarrow> Inl e
           | Inr bs \<Rightarrow> Inr (digits_byte x y # bs)))"

definition hex_decode :: hex_dec where
  "hex_decode s = (if odd (length s) then Inl OddLength else hex_decode_from 0 s)"

lemma unat_digits_byte:
  assumes "x < 16" "y < 16"
  shows "unat (digits_byte x y) = 16 * x + y"
proof -
  have "unat (digits_byte x y) = (16 * x + y) mod 2 ^ LENGTH(8)"
    unfolding digits_byte_def by (rule unat_of_nat)
  also have "\<dots> = 16 * x + y" using assms by (intro mod_less) simp
  finally show ?thesis .
qed

lemma hex_decode_from_iff:
  "hex_decode_from i s = Inr bs \<longleftrightarrow> to_ascii_lowercase s = concat (map fmt_02x bs)"
proof (induction i s arbitrary: bs rule: hex_decode_from.induct)
  case (1 i)
  show ?case by (cases bs) (auto simp: to_ascii_lowercase_def fmt_02x_def)
next
  case (2 i c)
  show ?case by (cases bs) (auto simp: to_ascii_lowercase_def fmt_02x_def)
next
  case (3 i c d cs)
  show ?case
  proof (cases "hex_value c = None \<or> hex_value d = None")
    case True
    then have "\<not> (to_ascii_lowercase (c # d # cs) = concat (map fmt_02x bs))"
    proof (cases bs)
      case (Cons b bs')
      then show ?thesis using True unat_div16 [of b] hex_value_iff [of c "unat b div 16"] hex_value_iff [of d "unat b mod 16"]
        by (auto simp: to_ascii_lowercase_def fmt_02x_def)
    qed (simp add: to_ascii_lowercase_def)
    with True show ?thesis by (auto split: option.splits sum.splits)
  next
    case False
    then obtain x y where xy: "hex_value c = Some x" "hex_value d = Some y" by auto
    note IH = 3 [OF refl xy(1) xy(2)]
    have l: "x < 16" "y < 16" using xy by (auto dest: hex_value_less)
    have f: "fmt_02x (digits_byte x y) = [char_to_ascii_lowercase c, char_to_ascii_lowercase d]"
      using l xy by (simp add: fmt_02x_def unat_digits_byte hex_value_iff)
    show ?thesis
    proof (cases bs)
      case Nil
      then show ?thesis using xy by (auto simp: to_ascii_lowercase_def split: sum.splits)
    next
      case (Cons b bs')
      have "hex_decode_from i (c # d # cs) = Inr bs \<longleftrightarrow>
          digits_byte x y = b \<and> hex_decode_from (Suc (Suc i)) cs = Inr bs'"
        using xy Cons by (auto split: sum.splits)
      also have "\<dots> \<longleftrightarrow> fmt_02x (digits_byte x y) = fmt_02x b
          \<and> to_ascii_lowercase cs = concat (map fmt_02x bs')"
        unfolding fmt_02x_inj using IH by simp
      also have "\<dots> \<longleftrightarrow> to_ascii_lowercase (c # d # cs) = fmt_02x b @ concat (map fmt_02x bs')"
        using f by (auto simp: to_ascii_lowercase_def fmt_02x_def [of b])
      finally show ?thesis using Cons by simp
    qed
  qed
qed

lemma hex_encode_concat: "hex_encode bs = concat (map fmt_02x bs)"
  by (induction bs) simp_all

interpretation ref_hex: hex_codec hex_encode hex_decode
proof
  show "hex_encode bs = concat (map fmt_02x bs)" for bs by (rule hex_encode_concat)
  show "hex_decode s = Inr bs \<longleftrightarrow> to_ascii_lowercase s = hex_encode bs" for s bs
  proof (cases "odd (length s)")
    case True
    then have "to_ascii_lowercase s \<noteq> concat (map fmt_02x bs)"
      using concat_fmt_length [of bs] length_to_ascii_lowercase [of s]
      by (auto dest!: arg_cong [of _ _ length])
    with True show ?thesis by (simp add: hex_decode_def hex_encode_concat)
  next
    case False
    then show ?thesis using hex_decode_from_iff [of 0 s bs] by (simp add: hex_decode_def hex_encode_concat)
  qed
qed

end
