(* ===== verification/Stratum.thy ===== *)
theory Stratum
  imports Hex
begin

text \<open>
  The pure stratum helpers of \<open>pool-core/src/stratum.rs\<close> (targets and nonce
  injection) and the nonce-partition helpers of \<open>stratum-proxy/src/session.rs\<close>
  (the worker byte stamped into a job's blob). A blob is handled as hex text by
  the proxy and as bytes by the verifier; the lemmas relate both views.
\<close>

section \<open>Targets\<close>

definition NONCE_OFFSET :: nat where "NONCE_OFFSET = 39"
definition NONCE_LEN :: nat where "NONCE_LEN = 4"

definition diff_to_target_hex :: "hex_enc \<Rightarrow> u64 \<Rightarrow> string" where
  "diff_to_target_hex encode difficulty =
     (let target =
        (if difficulty = 0 then u32_MAX
         else let t = (ucast u32_MAX :: u64) div difficulty
              in if t > ucast u32_MAX then u32_MAX else ucast t)
      in encode (u32_to_le_bytes target))"

definition target_hex_to_diff :: "hex_dec \<Rightarrow> string \<Rightarrow> FromHexError + u64" where
  "target_hex_to_diff decode target_hex =
     (case decode target_hex of
        Inl e \<Rightarrow> Inl e
      | Inr bytes \<Rightarrow>
          if length bytes = 4 \<or> length bytes = 8 then
            (let target = (if length bytes = 4 then ucast (u32_from_le_bytes bytes)
                           else u64_from_le_bytes bytes)
             in Inr (if target = 0 then u64_MAX
                     else (ucast u32_MAX :: u64) div max target 1))
          else Inl InvalidStringLength)"

section \<open>Blobs\<close>

datatype BlobError = TooShort nat | BadHex | BadNonceLen

definition assemble_blob_with_nonce ::
  "hex_dec \<Rightarrow> string \<Rightarrow> string \<Rightarrow> BlobError + u8 list" where
  "assemble_blob_with_nonce decode blob_hex nonce_hex =
     (case decode blob_hex of
        Inl _ \<Rightarrow> Inl BadHex
      | Inr blob \<Rightarrow>
          (case decode nonce_hex of
             Inl _ \<Rightarrow> Inl BadHex
           | Inr nonce \<Rightarrow>
               if length blob < NONCE_OFFSET + NONCE_LEN then Inl (TooShort (length blob))
               else if length nonce \<noteq> NONCE_LEN then Inl BadNonceLen
               else Inr (take NONCE_OFFSET blob @ nonce @ drop (NONCE_OFFSET + NONCE_LEN) blob)))"

definition NONCE_HI_HEX :: nat where
  "NONCE_HI_HEX = (NONCE_OFFSET + NONCE_LEN - 1) * 2"

definition stamp_worker_byte :: "string \<Rightarrow> u8 \<Rightarrow> string exec" where
  "stamp_worker_byte blob_hex worker_byte =
     (if length blob_hex < NONCE_HI_HEX + 2 then Returns blob_hex
      else if is_char_boundary blob_hex NONCE_HI_HEX \<and> is_char_boundary blob_hex (NONCE_HI_HEX + 2)
      then Returns (take NONCE_HI_HEX blob_hex @ fmt_02x worker_byte @ drop (NONCE_HI_HEX + 2) blob_hex)
      else Panics)"

definition nonce_high_byte :: "string \<Rightarrow> u8 option exec" where
  "nonce_high_byte nonce_hex =
     (if length nonce_hex \<noteq> NONCE_LEN * 2 then Returns None
      else if is_char_boundary nonce_hex ((NONCE_LEN - 1) * 2)
      then Returns (u8_from_str_radix16 (drop ((NONCE_LEN - 1) * 2) nonce_hex))
      else Panics)"

section \<open>Targets and difficulties\<close>

lemma unat_u32_MAX: "unat (ucast u32_MAX :: u64) = 4294967295"
  by (simp add: u32_MAX_def)

lemma target_u32_nat:
  assumes "d \<noteq> 0"
  shows "unat (ucast ((ucast u32_MAX :: u64) div d) :: u32) = 4294967295 div unat d"
    and "\<not> (ucast u32_MAX :: u64) div d > ucast u32_MAX"
proof -
  have u: "unat ((ucast u32_MAX :: u64) div d) = 4294967295 div unat d"
    by (simp add: unat_div unat_u32_MAX)
  have le: "4294967295 div unat d \<le> 4294967295" by simp
  show "\<not> (ucast u32_MAX :: u64) div d > ucast u32_MAX"
    unfolding word_less_nat_alt u unat_u32_MAX using le by (simp only: not_less)
  have "unat (ucast ((ucast u32_MAX :: u64) div d) :: u32) = (4294967295 div unat d) mod 2 ^ 32"
    unfolding u [symmetric] by (simp add: unsigned_ucast_eq take_bit_eq_mod)
  also have "\<dots> = 4294967295 div unat d" 
    by (rule mod_less) (rule le_less_trans [OF le], simp)
  finally show "unat (ucast ((ucast u32_MAX :: u64) div d) :: u32) = 4294967295 div unat d" .
qed

lemma div_div_div: "0 < d \<Longrightarrow> (m :: nat) div (m div (m div d)) = m div d"
proof -
  assume d: "0 < d"
  define t where "t = m div d"
  show ?thesis
  proof (cases "t = 0")
    case False
    then have t: "0 < t" by simp
    have "d \<le> m div t"
      unfolding t_def using t div_times_less_eq_dividend [of m d]
      by (simp add: less_eq_div_iff_mult_less_eq t_def mult.commute)
    then have "m div (m div t) \<le> t" unfolding t_def by (rule div_le_mono2 [OF d])
    moreover have "t \<le> m div (m div t)"
      using \<open>d \<le> m div t\<close> d div_times_less_eq_dividend [of m t]
      by (subst less_eq_div_iff_mult_less_eq) (simp_all add: mult.commute)
    ultimately show ?thesis by (simp add: t_def)
  qed (simp add: t_def)
qed

lemma div_div_small: "0 < d \<Longrightarrow> d * d \<le> (m :: nat) \<Longrightarrow> m div (m div d) = d"
proof -
  assume d: "0 < d" and sq: "d * d \<le> m"
  define t where "t = m div d"
  have t: "d \<le> t" unfolding t_def using d sq by (simp add: less_eq_div_iff_mult_less_eq)
  have "m = t * d + m mod d" by (simp add: t_def)
  moreover have "m mod d < d" using d by simp
  ultimately have "t * d \<le> m" "m < t * d + t" using t by linarith+
  then have "m div t = d" using d t by (intro div_nat_eqI) (simp_all add: algebra_simps)
  then show ?thesis by (simp add: t_def)
qed

lemma word_nat_cast_eq: "word_of_nat (unat w) = w"
  by simp

definition target32 :: "u64 \<Rightarrow> nat" where
  "target32 d = (if d = 0 then 4294967295 else 4294967295 div unat d)"

lemma target32_less: "target32 d < 4294967296"
  unfolding target32_def using div_le_dividend [of 4294967295 "unat d"] by (simp del: div_le_dividend)

lemma diff_to_target_hex_nat: "diff_to_target_hex enc d = enc (le_bytes 4 (target32 d))"
  using target_u32_nat [of d]
  by (simp add: diff_to_target_hex_def target32_def Let_def u32_to_le_bytes_def u32_MAX_def)

lemma target_hex_to_diff_le_bytes:
  assumes "dec s = Inr (le_bytes 4 t)" "t < 4294967296"
  shows "target_hex_to_diff dec s = Inr (if t = 0 then u64_MAX else word_of_nat (4294967295 div t))"
proof -
  have u: "unat (u32_from_le_bytes (le_bytes 4 t)) = t"
    using assms by (simp add: unat_u32_from_le_bytes)
  then have w: "unat (ucast (u32_from_le_bytes (le_bytes 4 t)) :: u64) = t"
    by (simp add: unat_ucast_up)
  have "(ucast (u32_from_le_bytes (le_bytes 4 t)) :: u64) = 0 \<longleftrightarrow> t = 0"
    using w by (metis unat_eq_zero unat_0)
  moreover have "(ucast u32_MAX :: u64) div max (ucast (u32_from_le_bytes (le_bytes 4 t))) 1
      = word_of_nat (4294967295 div t)" if "t \<noteq> 0"
  proof -
    have "max (ucast (u32_from_le_bytes (le_bytes 4 t)) :: u64) 1 = ucast (u32_from_le_bytes (le_bytes 4 t))"
      using that w by (intro max_absorb1) (simp add: word_le_nat_alt)
    moreover have "unat ((ucast u32_MAX :: u64) div ucast (u32_from_le_bytes (le_bytes 4 t))) = 4294967295 div t"
      unfolding unat_div unat_u32_MAX w ..
    ultimately show ?thesis by (metis word_nat_cast_eq)
  qed
  ultimately show ?thesis using assms by (simp add: target_hex_to_diff_def Let_def)
qed

lemma unat_word_of_nat_le: "n \<le> 4294967295 \<Longrightarrow> unat (word_of_nat n :: u64) = n"
  by (simp add: unat_of_nat)

lemma target32_inverse:
  assumes d: "d \<noteq> 0" and t: "target32 d \<noteq> 0" and u: "unat d' = 4294967295 div target32 d"
  shows "d \<le> d' \<and> target32 d' = target32 d \<and> (unat d \<le> 65535 \<longrightarrow> d' = d)"
proof -
  have pos: "0 < unat d" using d by (simp add: unat_gt_0)
  have "unat d \<le> 4294967295 div target32 d"
    using t d pos div_times_less_eq_dividend [of 4294967295 "unat d"]
    by (subst less_eq_div_iff_mult_less_eq) (simp_all add: target32_def mult.commute)
  then have le: "d \<le> d'" by (simp add: word_le_nat_alt u)
  then have "d' \<noteq> 0" using d by (metis word_le_0_iff)
  then have "target32 d' = target32 d"
    using div_div_div [OF pos, of 4294967295] d by (simp add: target32_def u)
  moreover have "d' = d" if "unat d \<le> 65535"
  proof -
    have "unat d * unat d \<le> 65535 * 65535" using that by (intro mult_mono) simp_all
    then have "unat d' = unat d"
      using div_div_small [OF pos, of 4294967295] d by (simp add: u target32_def)
    then show ?thesis by (simp add: word_unat_eq_iff)
  qed
  ultimately show ?thesis using le by simp
qed

text \<open>C4: a difficulty advertised as a 4-byte target and read back from it gives
  the largest difficulty with that very target: never less than what was
  advertised, the same target again, and exactly the difficulty up to 65535.\<close>

theorem target_round_trip:
  assumes "hex_codec enc dec"
  shows "\<exists>d'. target_hex_to_diff dec (diff_to_target_hex enc d) = Inr d'
    \<and> d \<le> d' \<and> diff_to_target_hex enc d' = diff_to_target_hex enc d
    \<and> (1 \<le> unat d \<and> unat d \<le> 65535 \<longrightarrow> d' = d)"
proof -
  have dec: "dec (diff_to_target_hex enc d) = Inr (le_bytes 4 (target32 d))"
    by (simp add: diff_to_target_hex_nat hex_codec.dec_enc [OF assms])
  define d' where "d' = (if target32 d = 0 then u64_MAX else word_of_nat (4294967295 div target32 d))"
  have res: "target_hex_to_diff dec (diff_to_target_hex enc d) = Inr d'"
    unfolding d'_def using dec target32_less [of d] by (rule target_hex_to_diff_le_bytes)
  have u: "unat d' = 4294967295 div target32 d" if "target32 d \<noteq> 0"
    using that by (simp add: d'_def unat_word_of_nat_le del: of_nat_div)
  have max: "x \<le> u64_MAX" for x :: u64
    using unat_bound [of x] by (simp add: u64_MAX_def word_le_nat_alt)
  show ?thesis
  proof (cases "target32 d = 0")
    case True
    then have "target32 d' = 0" by (simp add: d'_def target32_def u64_MAX_def)
    moreover have "\<not> unat d \<le> 65535"
      using True div_greater_zero_iff [of 4294967295 "unat d"] by (auto simp: target32_def unat_eq_0 split: if_splits)
    ultimately show ?thesis using True res max [of d] by (auto simp: diff_to_target_hex_nat d'_def)
  next
    case False
    note u = u [OF False]
    show ?thesis
    proof (cases "d = 0")
      case True
      then show ?thesis using res by (auto simp: diff_to_target_hex_nat d'_def target32_def)
    next
      case d: False
      show ?thesis using res target32_inverse [OF d False u] by (auto simp: diff_to_target_hex_nat)
    qed
  qed
qed

theorem target_round_trip_witness:
  "target_hex_to_diff hex_decode (diff_to_target_hex hex_encode 20000) = Inr 20000"
  using target_round_trip [OF ref_hex.hex_codec_axioms, of 20000] by auto

section \<open>Nonce injection\<close>

lemma assemble_Inr_iff:
  "assemble_blob_with_nonce dec blob_hex nonce_hex = Inr out \<longleftrightarrow>
     (\<exists>blob nonce. dec blob_hex = Inr blob \<and> dec nonce_hex = Inr nonce \<and> 43 \<le> length blob
        \<and> length nonce = 4 \<and> out = take 39 blob @ nonce @ drop 43 blob)"
  by (auto simp: assemble_blob_with_nonce_def NONCE_OFFSET_def NONCE_LEN_def split: sum.splits)

lemma assemble_Inl_iff:
  "(\<exists>e. assemble_blob_with_nonce dec blob_hex nonce_hex = Inl e) \<longleftrightarrow>
     (\<forall>blob nonce. dec blob_hex = Inr blob \<and> dec nonce_hex = Inr nonce
            \<longrightarrow> length blob < 43 \<or> length nonce \<noteq> 4)"
  by (auto simp: assemble_blob_with_nonce_def NONCE_OFFSET_def NONCE_LEN_def split: sum.splits)

lemma splice_nth:
  assumes "43 \<le> length blob" "length nonce = 4" "i < 39 \<or> 43 \<le> i \<and> i < length blob"
  shows "(take 39 blob @ nonce @ drop 43 blob) ! i = blob ! i"
  using assms by (auto simp: nth_append)

lemma assemble_errors:
  "assemble_blob_with_nonce dec blob_hex nonce_hex = Inl BadHex \<longleftrightarrow>
     (\<exists>e. dec blob_hex = Inl e \<or> dec nonce_hex = Inl e)"
  "assemble_blob_with_nonce dec blob_hex nonce_hex = Inl (TooShort n) \<longleftrightarrow>
     (\<exists>blob nonce. dec blob_hex = Inr blob \<and> dec nonce_hex = Inr nonce \<and> length blob = n \<and> n < 43)"
  "assemble_blob_with_nonce dec blob_hex nonce_hex = Inl BadNonceLen \<longleftrightarrow>
     (\<exists>blob nonce. dec blob_hex = Inr blob \<and> dec nonce_hex = Inr nonce \<and> 43 \<le> length blob \<and> length nonce \<noteq> 4)"
  by (auto simp: assemble_blob_with_nonce_def NONCE_OFFSET_def NONCE_LEN_def split: sum.splits)

text \<open>C5: injecting a nonce keeps the length of the blob, puts the four nonce bytes
  at offset 39, leaves every other byte alone, and two nonce texts that give the
  same assembled bytes are the same nonce up to letter case. It fails exactly when one of
  the texts is not hex, the blob is shorter than 43 bytes or the nonce is not four bytes, and the
  error is that of the first of these tests that fails, in this order: \<open>BadHex\<close> whatever the lengths,
  then \<open>TooShort\<close> with the length of the blob, then \<open>BadNonceLen\<close>.\<close>

theorem assemble_blob_correct:
  assumes "hex_codec enc dec"
  shows "(assemble_blob_with_nonce dec blob_hex nonce_hex = Inr out \<longrightarrow>
      (\<exists>blob nonce. dec blob_hex = Inr blob \<and> dec nonce_hex = Inr nonce
         \<and> length out = length blob \<and> 43 \<le> length blob
         \<and> take 4 (drop 39 out) = nonce
         \<and> (\<forall>i. i < 39 \<or> 43 \<le> i \<and> i < length blob \<longrightarrow> out ! i = blob ! i)))
    \<and> (assemble_blob_with_nonce dec blob_hex nonce_hex = Inr out
       \<and> assemble_blob_with_nonce dec blob_hex nonce_hex' = Inr out
       \<longrightarrow> to_ascii_lowercase nonce_hex = to_ascii_lowercase nonce_hex')
    \<and> ((\<exists>e. assemble_blob_with_nonce dec blob_hex nonce_hex = Inl e) \<longleftrightarrow>
        (\<forall>blob nonce. dec blob_hex = Inr blob \<and> dec nonce_hex = Inr nonce
            \<longrightarrow> length blob < 43 \<or> length nonce \<noteq> 4))
    \<and> (assemble_blob_with_nonce dec blob_hex nonce_hex = Inl BadHex \<longleftrightarrow>
        (\<exists>e. dec blob_hex = Inl e \<or> dec nonce_hex = Inl e))
    \<and> (assemble_blob_with_nonce dec blob_hex nonce_hex = Inl (TooShort n) \<longleftrightarrow>
        (\<exists>blob nonce. dec blob_hex = Inr blob \<and> dec nonce_hex = Inr nonce \<and> length blob = n \<and> n < 43))
    \<and> (assemble_blob_with_nonce dec blob_hex nonce_hex = Inl BadNonceLen \<longleftrightarrow>
        (\<exists>blob nonce. dec blob_hex = Inr blob \<and> dec nonce_hex = Inr nonce \<and> 43 \<le> length blob \<and> length nonce \<noteq> 4))"
proof (intro conjI impI)
  assume "assemble_blob_with_nonce dec blob_hex nonce_hex = Inr out"
  then obtain blob nonce where *: "dec blob_hex = Inr blob" "dec nonce_hex = Inr nonce"
    "43 \<le> length blob" "length nonce = 4" "out = take 39 blob @ nonce @ drop 43 blob"
    unfolding assemble_Inr_iff by blast
  then have "length out = length blob" "take 4 (drop 39 out) = nonce" by simp_all
  with * splice_nth [of blob nonce]
  show "\<exists>blob nonce. dec blob_hex = Inr blob \<and> dec nonce_hex = Inr nonce
         \<and> length out = length blob \<and> 43 \<le> length blob \<and> take 4 (drop 39 out) = nonce
         \<and> (\<forall>i. i < 39 \<or> 43 \<le> i \<and> i < length blob \<longrightarrow> out ! i = blob ! i)"
    by blast
next
  assume "assemble_blob_with_nonce dec blob_hex nonce_hex = Inr out
       \<and> assemble_blob_with_nonce dec blob_hex nonce_hex' = Inr out"
  then have "dec nonce_hex = Inr (take 4 (drop 39 out))" "dec nonce_hex' = Inr (take 4 (drop 39 out))"
    unfolding assemble_Inr_iff by auto
  then show "to_ascii_lowercase nonce_hex = to_ascii_lowercase nonce_hex'"
    by (rule hex_codec.dec_same_bytes [OF assms])
qed (rule assemble_Inl_iff assemble_errors)+

theorem assemble_blob_correct_witness:
  "assemble_blob_with_nonce hex_decode (hex_encode (replicate 76 0)) ''AAbbccDD''
     = Inr (replicate 39 0 @ [0xaa, 0xbb, 0xcc, 0xdd] @ replicate 33 0)
   \<and> (\<exists>blob nonce. hex_decode (hex_encode (replicate 76 0)) = Inr blob \<and> length blob = 76
        \<and> hex_decode ''AAbbccDD'' = Inr nonce \<and> nonce = [0xaa, 0xbb, 0xcc, 0xdd])"
proof -
  let ?out = "replicate 39 0 @ [0xaa, 0xbb, 0xcc, 0xdd] @ replicate 33 (0 :: u8)"
  have "assemble_blob_with_nonce hex_decode (hex_encode (replicate 76 0)) ''AAbbccDD'' = Inr ?out"
    by code_simp
  with assemble_blob_correct [OF ref_hex.hex_codec_axioms, of "hex_encode (replicate 76 0)" "''AAbbccDD''"
      ?out "''AAbbccDD''"]
  show ?thesis by auto
qed

section \<open>The worker byte\<close>

lemma hex_text_boundary:
  assumes "hex_codec enc dec" "dec s = Inr bs"
  shows "is_char_boundary s i \<longleftrightarrow> i \<le> length s"
proof -
  have "(of_char (s ! i) :: nat) < 128" if "i < length s"
  proof -
    have "(of_char (char_to_ascii_lowercase (s ! i)) :: nat) < 128"
    proof -
      have e: "map char_to_ascii_lowercase s = concat (map fmt_02x bs)"
        using assms by (simp add: hex_codec.dec_iff hex_codec.enc_digits to_ascii_lowercase_def)
      have "map char_to_ascii_lowercase s ! i \<in> set (map char_to_ascii_lowercase s)"
        using that by (intro nth_mem) simp
      then have "char_to_ascii_lowercase (s ! i) \<in> set (concat (map fmt_02x bs))"
        using that unfolding e [symmetric] by simp
      then show ?thesis using unat_div16 by (auto simp: fmt_02x_def hex_digit_ascii)
    qed
    then show ?thesis by (simp add: of_char_lowercase Let_def split: if_splits)
  qed
  then show ?thesis by (auto simp: is_char_boundary_def)
qed

lemma stamp_decodes:
  assumes hc: "hex_codec enc dec" and d: "dec blob_hex = Inr blob" and l: "43 \<le> length blob"
  shows "\<exists>s. stamp_worker_byte blob_hex w = Returns s \<and> dec s = Inr (blob[42 := w])"
proof -
  have len: "length blob_hex = 2 * length blob" using hex_codec.dec_length [OF hc d] .
  let ?s = "take 84 blob_hex @ fmt_02x w @ drop 86 blob_hex"
  have r: "stamp_worker_byte blob_hex w = Returns ?s"
    using l len hex_text_boundary [OF hc d]
    by (simp add: stamp_worker_byte_def NONCE_HI_HEX_def NONCE_OFFSET_def NONCE_LEN_def)
  have t: "dec (take 84 blob_hex) = Inr (take 42 blob)" "dec (drop 86 blob_hex) = Inr (drop 43 blob)"
    using hex_codec.dec_take_drop(1) [OF hc d, of 42] hex_codec.dec_take_drop(2) [OF hc d, of 43] l
    by simp_all
  have f: "dec (fmt_02x w) = Inr [w]"
    by (simp add: hex_codec.dec_iff [OF hc] hex_codec.enc_digits [OF hc])
  have "dec (fmt_02x w @ drop 86 blob_hex) = Inr ([w] @ drop 43 blob)"
    using f t by (subst hex_codec.dec_append_iff [OF hc]) simp_all
  then have "dec ?s = Inr (take 42 blob @ [w] @ drop 43 blob)"
    using t len l by (subst hex_codec.dec_append_iff [OF hc]) simp_all
  moreover have "take 42 blob @ [w] @ drop 43 blob = blob[42 := w]"
    using l by (simp add: upd_conv_take_nth_drop)
  ultimately show ?thesis using r by simp
qed

lemma splice_update:
  assumes "43 \<le> length blob"
  shows "take 39 (blob[42 := w]) = take 39 blob" "drop 43 (blob[42 := w]) = drop 43 blob"
  using assms by simp_all

text \<open>C6: the worker byte stamped into a job's blob is byte 42 of the decoded blob
  and changes nothing else; a share verified against the unstamped blob is
  verified on the very bytes the miner hashed, because the nonce overwrites the
  stamped byte; and the high byte of a submitted nonce that kept the reserved
  byte reads back as the worker byte.\<close>

theorem stamp_worker_byte_correct:
  assumes "hex_codec enc dec" and "dec blob_hex = Inr blob" and "43 \<le> length blob"
  shows "\<exists>s. stamp_worker_byte blob_hex w = Returns s \<and> dec s = Inr (blob[42 := w])
    \<and> (\<forall>nonce_hex. assemble_blob_with_nonce dec s nonce_hex
          = assemble_blob_with_nonce dec blob_hex nonce_hex)
    \<and> (\<forall>a b c. nonce_high_byte (enc [a, b, c, w]) = Returns (Some w))"
proof -
  obtain s where s: "stamp_worker_byte blob_hex w = Returns s" "dec s = Inr (blob[42 := w])"
    using stamp_decodes [OF assms] by blast
  have "assemble_blob_with_nonce dec s n = assemble_blob_with_nonce dec blob_hex n" for n
    using s(2) assms(2) splice_update [OF assms(3), of w]
    by (simp add: assemble_blob_with_nonce_def NONCE_OFFSET_def NONCE_LEN_def split: sum.split)
  moreover have "nonce_high_byte (enc [a, b, c, w]) = Returns (Some w)" for a b c
  proof -
    have len: "length (enc [a, b, c, w]) = 8" by (simp add: hex_codec.enc_length [OF assms(1)])
    then have "is_char_boundary (enc [a, b, c, w]) 6"
      using hex_text_boundary [OF assms(1) hex_codec.dec_enc [OF assms(1)]] by simp
    moreover have "drop 6 (enc [a, b, c, w]) = fmt_02x w"
      by (simp add: hex_codec.enc_digits [OF assms(1)] fmt_02x_def)
    ultimately show ?thesis using len from_str_radix_fmt [of w]
      by (simp add: nonce_high_byte_def NONCE_LEN_def)
  qed
  ultimately show ?thesis using s by blast
qed

theorem stamp_worker_byte_correct_witness:
  "\<exists>s. stamp_worker_byte (hex_encode (replicate 76 0)) 0xab = Returns s
     \<and> hex_decode s = Inr ((replicate 76 0)[42 := 0xab])"
  using stamp_worker_byte_correct [OF ref_hex.hex_codec_axioms ref_hex.dec_enc,
      of "replicate 76 0" "0xab"] by auto

text \<open>A nonce text of eight bytes in which a two-byte character straddles offset 6
  makes the slice of \<open>nonce_high_byte\<close> panic.\<close>

lemma nonce_high_byte_panics:
  "nonce_high_byte (''00000'' @ [char_of (195 :: nat), char_of (169 :: nat)] @ ''0'') = Panics"
  by code_simp

end
