(* ===== verification/Verifier.thy ===== *)
theory Verifier
  imports Hex
begin

text \<open>
  \<open>randomx-verify/src/lib.rs\<close>: the difficulty test on a result hash and the
  three verifiers. A verifier is a stateful hash, \<open>'s \<Rightarrow> seed \<Rightarrow> blob \<Rightarrow> result \<times> 's\<close>; the
  RandomX library itself (cache, dataset and VM construction, the hash of a VM)
  is the record \<open>randomx\<close> of functions the model takes as an argument. The
  locale \<open>verifier\<close> is what the share pipeline relies on: a hash that does not depend on
  the verifier's history.
\<close>

datatype VerifyError = BelowDifficultyErr | RandomXErr string

type_synonym SeedHash = "u8 list"
type_synonym ShareBlob = "u8 list"
type_synonym ResultHash = "u8 list"
type_synonym 's hasher = "'s \<Rightarrow> SeedHash \<Rightarrow> ShareBlob \<Rightarrow> (VerifyError + ResultHash) \<times> 's"

section \<open>The difficulty test\<close>

definition meets_difficulty :: "ResultHash \<Rightarrow> u64 \<Rightarrow> bool" where
  "meets_difficulty hash difficulty =
     (if difficulty = 0 then True
      else let leading = u64_from_le_bytes (take 8 (drop 24 hash))
           in leading = 0 \<or> (18446744073709551615 :: u64) div difficulty \<ge> leading)"

section \<open>The verifiers\<close>

text \<open>The stub folds the blob into 32 bytes; \<open>i\<close> is the enumeration index.\<close>

fun stub_fold :: "nat \<Rightarrow> ShareBlob \<Rightarrow> u8 list \<Rightarrow> u8 list" where
  "stub_fold i [] out = out"
| "stub_fold i (b # bs) out = stub_fold (Suc i) bs (out[i mod 32 := out ! (i mod 32) XOR b])"

definition StubVerifier_hash :: "unit hasher" where
  "StubVerifier_hash s seed blob = (Inr (stub_fold 0 blob (replicate 32 0)), s)"

record 's CachedVerifier =
  cv_inner :: 's
  cv_last_seed :: "SeedHash option"

definition CachedVerifier_new :: "'s \<Rightarrow> 's CachedVerifier" where
  "CachedVerifier_new inner = \<lparr>cv_inner = inner, cv_last_seed = None\<rparr>"

definition CachedVerifier_verify_share ::
  "'s hasher \<Rightarrow> 's CachedVerifier \<Rightarrow> SeedHash \<Rightarrow> ShareBlob \<Rightarrow> u64
     \<Rightarrow> (VerifyError + ResultHash) \<times> 's CachedVerifier" where
  "CachedVerifier_verify_share hash cv seed blob difficulty =
     (let cv1 = (if cv_last_seed cv \<noteq> Some seed then cv\<lparr>cv_last_seed := Some seed\<rparr> else cv);
          (r, s) = hash (cv_inner cv1) seed blob;
          cv2 = cv1\<lparr>cv_inner := s\<rparr>
      in case r of
           Inl e \<Rightarrow> (Inl e, cv2)
         | Inr h \<Rightarrow> if \<not> meets_difficulty h difficulty then (Inl BelowDifficultyErr, cv2)
                    else (Inr h, cv2))"

record ('c, 'd, 'v) randomx =
  RandomXCache_new :: "bool \<Rightarrow> SeedHash \<Rightarrow> string + 'c"
  RandomXDataset_new :: "bool \<Rightarrow> 'c \<Rightarrow> string + 'd"
  RandomXVM_new :: "bool \<Rightarrow> 'c option \<Rightarrow> 'd option \<Rightarrow> string + 'v"
  calculate_hash :: "'v \<Rightarrow> ShareBlob \<Rightarrow> string + u8 list"

record ('c, 'd, 'v) VmCell =
  vm_seed :: SeedHash
  vm_cache :: 'c
  vm_dataset :: "'d option"
  vm_vm :: 'v

text \<open>RandomX hashes are 32 bytes, so \<open>h[..32]\<close> is in range. The flags of the two modes differ in \<open>FLAG_FULL_MEM\<close> only, which is the
  \<open>bool\<close> passed to the library; \<open>use_dataset\<close> is that flag.\<close>

definition rekey ::
  "('c, 'd, 'v) randomx \<Rightarrow> bool \<Rightarrow> SeedHash \<Rightarrow> VerifyError + ('c, 'd, 'v) VmCell" where
  "rekey rx use_dataset seed =
     (case RandomXCache_new rx use_dataset seed of
        Inl e \<Rightarrow> Inl (RandomXErr e)
      | Inr cache \<Rightarrow>
          if use_dataset then
            (case RandomXDataset_new rx use_dataset cache of
               Inl e \<Rightarrow> Inl (RandomXErr (''dataset init: '' @ e))
             | Inr ds \<Rightarrow>
                 (case RandomXVM_new rx use_dataset None (Some ds) of
                    Inl e \<Rightarrow> Inl (RandomXErr e)
                  | Inr vm \<Rightarrow> Inr \<lparr>vm_seed = seed, vm_cache = cache, vm_dataset = Some ds, vm_vm = vm\<rparr>))
          else
            (case RandomXVM_new rx use_dataset (Some cache) None of
               Inl e \<Rightarrow> Inl (RandomXErr e)
             | Inr vm \<Rightarrow> Inr \<lparr>vm_seed = seed, vm_cache = cache, vm_dataset = None, vm_vm = vm\<rparr>))"

definition cell_hash ::
  "('c, 'd, 'v) randomx \<Rightarrow> ('c, 'd, 'v) VmCell \<Rightarrow> ShareBlob \<Rightarrow> VerifyError + ResultHash" where
  "cell_hash rx cell blob =
     (case calculate_hash rx (vm_vm cell) blob of
        Inl e \<Rightarrow> Inl (RandomXErr e)
      | Inr h \<Rightarrow> Inr (take 32 h))"

definition RandomXVerifier_hash ::
  "('c, 'd, 'v) randomx \<Rightarrow> bool \<Rightarrow> ('c, 'd, 'v) VmCell option hasher" where
  "RandomXVerifier_hash rx use_dataset guard seed blob =
     (let needs_rekey = (case guard of None \<Rightarrow> True | Some c \<Rightarrow> vm_seed c \<noteq> seed)
      in if needs_rekey then
           (case rekey rx use_dataset seed of
              Inl e \<Rightarrow> (Inl e, guard)
            | Inr cell \<Rightarrow> (cell_hash rx cell blob, Some cell))
         else (case guard of
                 None \<Rightarrow> (Inl (RandomXErr ''unreachable''), guard)
               | Some cell \<Rightarrow> (cell_hash rx cell blob, guard)))"

fun hash_all :: "'s hasher \<Rightarrow> 's \<Rightarrow> (SeedHash \<times> ShareBlob) list \<Rightarrow> 's" where
  "hash_all hash s [] = s"
| "hash_all hash s ((seed, blob) # rest) = hash_all hash (snd (hash s seed blob)) rest"

section \<open>What a verifier promises\<close>

text \<open>The hash of a share depends on the seed and the blob, never on what was
  hashed before: \<open>pure\<close> is that function and \<open>inv\<close> the invariant of the state.\<close>

locale verifier =
  fixes hash :: "'s hasher" and inv :: "'s \<Rightarrow> bool"
    and pure :: "SeedHash \<Rightarrow> ShareBlob \<Rightarrow> VerifyError + ResultHash"
  assumes hash_pure: "inv s \<Longrightarrow> fst (hash s seed blob) = pure seed blob"
    and hash_inv: "inv s \<Longrightarrow> inv (snd (hash s seed blob))"
begin

lemma verify_share_inv:
  "inv (cv_inner cv) \<Longrightarrow> inv (cv_inner (snd (CachedVerifier_verify_share hash cv seed blob d)))"
  using hash_inv [of "cv_inner cv" seed blob]
  by (auto simp: CachedVerifier_verify_share_def Let_def split: prod.split sum.split)

lemma verify_share_result:
  assumes "inv (cv_inner cv)"
  shows "fst (CachedVerifier_verify_share hash cv seed blob d) =
    (case pure seed blob of
       Inl e \<Rightarrow> Inl e
     | Inr h \<Rightarrow> if meets_difficulty h d then Inr h else Inl BelowDifficultyErr)"
  using hash_pure [OF assms, of seed blob]
  by (auto simp: CachedVerifier_verify_share_def Let_def split: prod.split sum.split)

lemma hash_all_inv: "inv s \<Longrightarrow> inv (hash_all hash s shares)"
proof (induction shares arbitrary: s)
  case (Cons a rest)
  then show ?case by (cases a) (simp add: hash_inv)
qed simp

lemma history_irrelevant:
  "inv s \<Longrightarrow> fst (hash (hash_all hash s shares) seed blob) = fst (hash s seed blob)"
  by (simp add: hash_pure hash_all_inv)

end

interpretation stub: verifier StubVerifier_hash "\<lambda>_. True"
    "\<lambda>seed blob. Inr (stub_fold 0 blob (replicate 32 0))"
  by unfold_locales (simp_all add: StubVerifier_hash_def)

text \<open>The VM in the cell is the one built for the seed recorded beside it.\<close>

definition cell_ok :: "('c, 'd, 'v) randomx \<Rightarrow> bool \<Rightarrow> ('c, 'd, 'v) VmCell option \<Rightarrow> bool" where
  "cell_ok rx use_dataset guard \<longleftrightarrow>
     (case guard of None \<Rightarrow> True | Some c \<Rightarrow> rekey rx use_dataset (vm_seed c) = Inr c)"

definition rx_pure ::
  "('c, 'd, 'v) randomx \<Rightarrow> bool \<Rightarrow> SeedHash \<Rightarrow> ShareBlob \<Rightarrow> VerifyError + ResultHash" where
  "rx_pure rx use_dataset seed blob =
     (case rekey rx use_dataset seed of Inl e \<Rightarrow> Inl e | Inr c \<Rightarrow> cell_hash rx c blob)"

lemma rekey_seed: "rekey rx full seed = Inr c \<Longrightarrow> vm_seed c = seed"
  by (auto simp: rekey_def split: sum.splits if_splits)

interpretation rxv: verifier "RandomXVerifier_hash rx full" "cell_ok rx full" "rx_pure rx full"
  for rx :: "('c, 'd, 'v) randomx" and full :: bool
proof
  show "fst (RandomXVerifier_hash rx full s seed blob) = rx_pure rx full seed blob"
    if "cell_ok rx full s" for s seed blob
    using that by (auto simp: RandomXVerifier_hash_def rx_pure_def cell_ok_def Let_def
        split: option.splits sum.splits)
  show "cell_ok rx full (snd (RandomXVerifier_hash rx full s seed blob))"
    if "cell_ok rx full s" for s seed blob
    using that by (auto simp: RandomXVerifier_hash_def cell_ok_def Let_def dest: rekey_seed
        split: option.splits sum.splits)
qed

section \<open>Properties\<close>

definition top64 :: "ResultHash \<Rightarrow> nat" where
  "top64 hash = le_nat (take 8 (drop 24 hash))"

lemma unat_top64: "length hash = 32 \<Longrightarrow> unat (u64_from_le_bytes (take 8 (drop 24 hash))) = top64 hash"
  by (simp add: top64_def unat_u64_from_le_bytes)

lemma meets_difficulty_nat:
  assumes "length hash = 32"
  shows "meets_difficulty hash d \<longleftrightarrow> top64 hash * unat d < 2 ^ 64"
proof (cases "d = 0")
  case False
  then have "0 < unat d" by (simp add: unat_gt_0)
  then have "top64 hash \<le> 18446744073709551615 div unat d
      \<longleftrightarrow> top64 hash * unat d \<le> 18446744073709551615"
    by (simp add: less_eq_div_iff_mult_less_eq)
  moreover have "u64_from_le_bytes (take 8 (drop 24 hash)) = 0 \<longleftrightarrow> top64 hash = 0"
    using unat_top64 [OF assms] by (metis unat_eq_zero)
  ultimately show ?thesis using False
    by (auto simp: meets_difficulty_def Let_def word_le_nat_alt unat_div unat_top64 [OF assms])
qed (simp add: meets_difficulty_def)

lemma le_nat_top64:
  assumes "length hash = 32"
  shows "2 ^ 192 * top64 hash \<le> le_nat hash" "le_nat hash < 2 ^ 192 * (top64 hash + 1)"
proof -
  have "take 24 hash @ take 8 (drop 24 hash) = hash"
    using assms by (simp only: take_all length_drop append_take_drop_id)
  moreover have "le_nat (take 24 hash @ take 8 (drop 24 hash))
      = le_nat (take 24 hash) + 256 ^ 24 * top64 hash"
    using assms by (simp add: le_nat_append top64_def del: take_all)
  ultimately have e: "le_nat hash = le_nat (take 24 hash) + 256 ^ 24 * top64 hash" by (simp only:)
  have "le_nat (take 24 hash) < 256 ^ 24" using le_nat_less [of "take 24 hash"] assms by simp
  moreover have "(2 :: nat) ^ 192 = 256 ^ 24" by simp
  ultimately show "2 ^ 192 * top64 hash \<le> le_nat hash" "le_nat hash < 2 ^ 192 * (top64 hash + 1)"
    unfolding e by (simp_all only: distrib_left mult_1_right le_add2 add.commute add_less_cancel_left)
qed

lemma le_nat_zeros: "le_nat (replicate n 0) = 0"
  by (induction n) simp_all

text \<open>C7: the fast test accepts every hash below the full 256-bit target
  \<open>2^256 / d\<close>, accepts nothing that exceeds it by \<open>2^192\<close> or more, and is antitone in
  the difficulty: a share that meets the upstream difficulty meets every smaller
  one.\<close>

theorem meets_difficulty_target:
  assumes "length hash = 32"
  shows "(le_nat hash * unat d < 2 ^ 256 \<longrightarrow> meets_difficulty hash d)
    \<and> (meets_difficulty hash d \<longrightarrow> le_nat hash * unat d < 2 ^ 256 + unat d * 2 ^ 192)
    \<and> (meets_difficulty hash d \<and> d' \<le> d \<longrightarrow> meets_difficulty hash d')"
proof (intro conjI impI)
  assume lt: "le_nat hash * unat d < 2 ^ 256"
  have "2 ^ 192 * top64 hash * unat d \<le> le_nat hash * unat d"
    by (rule mult_right_mono [OF le_nat_top64(1) [OF assms]]) simp
  also note lt
  also have "(2 :: nat) ^ 256 = 2 ^ 192 * 2 ^ 64" by simp
  finally have "top64 hash * unat d < 2 ^ 64" by (simp only: mult.assoc mult_less_cancel1)
  then show "meets_difficulty hash d" by (simp add: meets_difficulty_nat [OF assms])
next
  assume m: "meets_difficulty hash d"
  have "le_nat hash * unat d \<le> 2 ^ 192 * (top64 hash + 1) * unat d"
    using le_nat_top64(2) [OF assms] by (intro mult_right_mono) simp_all
  also have "\<dots> = 2 ^ 192 * (top64 hash * unat d) + unat d * 2 ^ 192" by (simp add: algebra_simps)
  also have "\<dots> < 2 ^ 192 * 2 ^ 64 + unat d * 2 ^ 192"
    using m unfolding meets_difficulty_nat [OF assms] by (intro add_strict_right_mono mult_strict_left_mono) simp_all
  finally show "le_nat hash * unat d < 2 ^ 256 + unat d * 2 ^ 192" by simp
next
  assume m: "meets_difficulty hash d \<and> d' \<le> d"
  then have "top64 hash * unat d' \<le> top64 hash * unat d" by (simp add: word_le_nat_alt)
  with m show "meets_difficulty hash d'" unfolding meets_difficulty_nat [OF assms] by linarith
qed

theorem meets_difficulty_target_witness:
  "meets_difficulty (replicate 31 0 @ [1]) 100 \<and> meets_difficulty (replicate 31 0 @ [1]) 50
   \<and> \<not> meets_difficulty (replicate 31 0 @ [1]) 257"
proof -
  have l: "length (replicate 31 0 @ [1 :: u8]) = 32" by simp
  have "top64 (replicate 31 0 @ [1]) = 2 ^ 56"
    by (simp add: top64_def le_nat_append le_nat_zeros)
  then have "meets_difficulty (replicate 31 0 @ [1]) 100" "\<not> meets_difficulty (replicate 31 0 @ [1]) 257"
    unfolding meets_difficulty_nat [OF l] by simp_all
  moreover have "(50 :: u64) \<le> 100" by simp
  ultimately show ?thesis using meets_difficulty_target [OF l, of 100 50] by blast
qed

text \<open>The seed the cell was last keyed for: a construction that fails leaves the cell as it was.\<close>

definition last_keyed ::
  "('c, 'd, 'v) randomx \<Rightarrow> bool \<Rightarrow> (SeedHash \<times> ShareBlob) list \<Rightarrow> SeedHash option" where
  "last_keyed rx use_dataset shares =
     find (\<lambda>seed. \<not> isl (rekey rx use_dataset seed)) (rev (map fst shares))"

lemma hash_all_snoc: "hash_all hash s (shares @ [(seed, blob)]) = snd (hash (hash_all hash s shares) seed blob)"
  by (induction shares arbitrary: s) auto

lemma last_keyed_cell:
  "map_option vm_seed (hash_all (RandomXVerifier_hash rx full) None shares) = last_keyed rx full shares"
proof (induction shares rule: rev_induct)
  case (snoc x shares)
  obtain seed blob where x: "x = (seed, blob)" by fastforce
  let ?g = "hash_all (RandomXVerifier_hash rx full) None shares"
  have ok: "cell_ok rx full ?g" by (rule rxv.hash_all_inv) (simp add: cell_ok_def)
  have "map_option vm_seed (snd (RandomXVerifier_hash rx full ?g seed blob)) =
      (if isl (rekey rx full seed) then map_option vm_seed ?g else Some seed)"
    using ok by (auto simp: RandomXVerifier_hash_def cell_ok_def Let_def dest: rekey_seed split: option.splits sum.splits)
  then show ?case using snoc.IH by (simp add: x hash_all_snoc last_keyed_def)
qed (simp add: last_keyed_def)

lemma cell_kept:
  assumes "map_option vm_seed guard = Some seed" "calculate_hash rx' = calculate_hash rx" "cell_ok rx full guard"
  shows "RandomXVerifier_hash rx' full guard seed blob = (rx_pure rx full seed blob, guard)"
  using assms by (auto simp: RandomXVerifier_hash_def cell_hash_def rx_pure_def cell_ok_def Let_def)

lemma cell_rebuilt:
  assumes "map_option vm_seed guard \<noteq> Some seed"
  shows "RandomXVerifier_hash rx' full guard seed blob =
    (case rekey rx' full seed of Inl e \<Rightarrow> (Inl e, guard) | Inr c \<Rightarrow> (cell_hash rx' c blob, Some c))"
  using assms by (auto simp: RandomXVerifier_hash_def Let_def split: option.splits sum.splits)

text \<open>C8: the result of the RandomX verifier for a seed and a blob is the one of a fresh
  verifier, whatever was verified before: no share is ever hashed under another job's seed. It
  re-keys exactly when the seed is not the one it was last keyed for. In that case the library's
  constructors of the moment (\<open>rx'\<close>) decide the outcome and the new cell, and an error leaves the old
  cell. Otherwise nothing is built: the result and the cell stay the same whatever the
  constructors would return.\<close>

theorem randomx_history_independent:
  shows "fst (RandomXVerifier_hash rx full (hash_all (RandomXVerifier_hash rx full) None shares) seed blob)
      = fst (RandomXVerifier_hash rx full None seed blob)
    \<and> (last_keyed rx full shares \<noteq> Some seed \<longrightarrow>
        RandomXVerifier_hash rx' full (hash_all (RandomXVerifier_hash rx full) None shares) seed blob
          = (case rekey rx' full seed of
               Inl e \<Rightarrow> (Inl e, hash_all (RandomXVerifier_hash rx full) None shares)
             | Inr c \<Rightarrow> (cell_hash rx' c blob, Some c)))
    \<and> (last_keyed rx full shares = Some seed \<and> calculate_hash rx' = calculate_hash rx \<longrightarrow>
        RandomXVerifier_hash rx' full (hash_all (RandomXVerifier_hash rx full) None shares) seed blob
          = (fst (RandomXVerifier_hash rx full None seed blob),
             hash_all (RandomXVerifier_hash rx full) None shares))"
proof -
  let ?g = "hash_all (RandomXVerifier_hash rx full) None shares"
  have fresh: "cell_ok rx full None" by (simp add: cell_ok_def)
  note ok = rxv.hash_all_inv [OF fresh, of shares] fresh
  show ?thesis
    using rxv.history_irrelevant [OF ok(2)] cell_rebuilt [of ?g seed rx' full blob]
      cell_kept [OF _ _ ok(1)] rxv.hash_pure [OF ok(2)]
    by (simp add: last_keyed_cell)
qed

text \<open>After a share under the seed \<open>[1]\<close> a broken library goes unnoticed for that seed and fails the next one.\<close>

theorem randomx_history_independent_witness:
  "let rx = \<lparr>RandomXCache_new = \<lambda>_ s. Inr s, RandomXDataset_new = \<lambda>_ s. Inr s,
             RandomXVM_new = \<lambda>_ c _. Inr c, calculate_hash = \<lambda>vm b. Inr (replicate 32 (case vm of Some (x # _) \<Rightarrow> x | _ \<Rightarrow> 0))\<rparr>;
       rx' = rx\<lparr>RandomXCache_new := \<lambda>_ _. Inl ''alloc''\<rparr>;
       g = hash_all (RandomXVerifier_hash rx False) None [([1], [])]
   in fst (RandomXVerifier_hash rx' False g [1] []) = Inr (replicate 32 1)
    \<and> RandomXVerifier_hash rx' False g [2] [] = (Inl (RandomXErr ''alloc''), g)"
proof -
  define rx :: "(u8 list, u8 list, u8 list option) randomx" where
    "rx = \<lparr>RandomXCache_new = \<lambda>_ s. Inr s, RandomXDataset_new = \<lambda>_ s. Inr s,
           RandomXVM_new = \<lambda>_ c _. Inr c, calculate_hash = \<lambda>vm b. Inr (replicate 32 (case vm of Some (x # _) \<Rightarrow> x | _ \<Rightarrow> 0))\<rparr>"
  define rx' where "rx' = rx\<lparr>RandomXCache_new := \<lambda>_ _. Inl ''alloc''\<rparr>"
  have k: "last_keyed rx False [([1], [])] = Some [1]" "calculate_hash rx' = calculate_hash rx"
    "rekey rx' False [2] = Inl (RandomXErr ''alloc'')"
    "fst (RandomXVerifier_hash rx False None [1] []) = Inr (replicate 32 1)"
    by (simp_all add: last_keyed_def rekey_def rx_def rx'_def RandomXVerifier_hash_def cell_hash_def)
  show ?thesis
    using randomx_history_independent [of rx False "[([1], [])]" "[1]" "[]" rx']
      randomx_history_independent [of rx False "[([1], [])]" "[2]" "[]" rx'] k
    unfolding Let_def rx_def [symmetric] rx'_def [symmetric] by simp
qed

end
