(* ===== verification/Jobs.thy ===== *)
theory Jobs
  imports Prelude
begin

text \<open>
  \<open>stratum-proxy/src/jobs.rs\<close>: the ring of issued jobs with the registry of
  accepted nonces. Every operation of the store runs under its lock, so an
  operation is one step; instants are nanoseconds. \<open>jobs_step\<close> is the step
  relation of the store together with the shares accepted so far; it satisfies
  the contract \<open>at_most_once\<close>.
\<close>

section \<open>Data\<close>

record UpstreamJob =
  job_id :: string
  blob_hex :: string
  seed_hex :: string
  upstream_target_hex :: string
  upstream_diff :: u64
  height :: "u64 option"

record JobEntry =
  je_job :: UpstreamJob
  superseded_at :: "nat option"
  seen_nonces :: "string set"

text \<open>\<open>tx_log\<close> is what was sent on the broadcast channel, oldest first.\<close>

record JobStore =
  entries :: "JobEntry list"
  tx_log :: "UpstreamJob list"

datatype SubmissionOutcome = UnknownJob | Stale | Duplicate | Accepted UpstreamJob

definition RING_SIZE :: nat where "RING_SIZE = 32"

section \<open>Operations\<close>

definition JobStore_new :: JobStore where
  "JobStore_new = \<lparr>entries = [], tx_log = []\<rparr>"

definition supersede :: "nat \<Rightarrow> JobEntry \<Rightarrow> JobEntry" where
  "supersede now e = (if superseded_at e = None then e\<lparr>superseded_at := Some now\<rparr> else e)"

definition supersede_back :: "nat \<Rightarrow> JobEntry list \<Rightarrow> JobEntry list" where
  "supersede_back now es =
     (if es = [] then [] else butlast es @ [supersede now (last es)])"

definition new_entry :: "UpstreamJob \<Rightarrow> JobEntry" where
  "new_entry job = \<lparr>je_job = job, superseded_at = None, seen_nonces = {}\<rparr>"

definition publish :: "UpstreamJob \<Rightarrow> nat \<Rightarrow> JobStore \<Rightarrow> JobStore" where
  "publish job now st =
     st\<lparr>entries := pop_front_over RING_SIZE (supersede_back now (entries st) @ [new_entry job]),
        tx_log := tx_log st @ [job]\<rparr>"

definition current :: "JobStore \<Rightarrow> UpstreamJob option" where
  "current st = (if entries st = [] then None else Some (je_job (last (entries st))))"

definition current_height :: "JobStore \<Rightarrow> u64 option" where
  "current_height st = (case current st of None \<Rightarrow> None | Some j \<Rightarrow> height j)"

fun upd_first :: "('a \<Rightarrow> bool) \<Rightarrow> ('a \<Rightarrow> 'a) \<Rightarrow> 'a list \<Rightarrow> 'a list" where
  "upd_first p f [] = []"
| "upd_first p f (x # xs) = (if p x then f x # xs else x # upd_first p f xs)"

definition height_behind :: "u64 option \<Rightarrow> u64 option \<Rightarrow> bool" where
  "height_behind eh ch = (case (eh, ch) of (Some a, Some b) \<Rightarrow> a < b | _ \<Rightarrow> False)"

definition is_stale :: "nat \<Rightarrow> nat \<Rightarrow> u64 option \<Rightarrow> JobEntry \<Rightarrow> bool" where
  "is_stale grace now ch e =
     (case superseded_at e of
        None \<Rightarrow> False
      | Some t \<Rightarrow> now - t > grace \<or> height_behind (height (je_job e)) ch)"

definition record_submission ::
  "string \<Rightarrow> string \<Rightarrow> nat \<Rightarrow> nat \<Rightarrow> JobStore \<Rightarrow> SubmissionOutcome \<times> JobStore" where
  "record_submission jid nonce grace now st =
     (let nonce_norm = to_ascii_lowercase nonce;
          is_job = (\<lambda>e. job_id (je_job e) = jid)
      in case find is_job (entries st) of
           None \<Rightarrow> (UnknownJob, st)
         | Some entry \<Rightarrow>
             if is_stale grace now (current_height st) entry then
               (Stale, st\<lparr>entries := upd_first is_job (\<lambda>e. e\<lparr>seen_nonces := {}\<rparr>) (entries st)\<rparr>)
             else if nonce_norm \<in> seen_nonces entry then (Duplicate, st)
             else (Accepted (je_job entry),
                   st\<lparr>entries := upd_first is_job
                        (\<lambda>e. e\<lparr>seen_nonces := insert nonce_norm (seen_nonces e)\<rparr>) (entries st)\<rparr>))"

definition total_tracked_nonces :: "JobStore \<Rightarrow> nat" where
  "total_tracked_nonces st = sum_list (map (\<lambda>e. card (seen_nonces e)) (entries st))"

section \<open>The step relation\<close>

text \<open>Heights as a healthy upstream reports them: once known, they stay known and
  never go back.\<close>

definition height_mono :: "u64 option \<Rightarrow> u64 option \<Rightarrow> bool" where
  "height_mono a b = (case (a, b) of (None, _) \<Rightarrow> True | (Some x, Some y) \<Rightarrow> x \<le> y | _ \<Rightarrow> False)"

record jobs_run =
  store :: JobStore
  accepted :: "(string \<times> string) list"
  issued :: "string set"
  clock :: nat

definition jobs_init :: jobs_run where
  "jobs_init = \<lparr>store = JobStore_new, accepted = [], issued = {}, clock = 0\<rparr>"

definition run_publish :: "UpstreamJob \<Rightarrow> nat \<Rightarrow> jobs_run \<Rightarrow> jobs_run" where
  "run_publish job now r =
     r\<lparr>store := publish job now (store r), issued := insert (job_id job) (issued r), clock := now\<rparr>"

definition run_submit :: "string \<Rightarrow> string \<Rightarrow> nat \<Rightarrow> nat \<Rightarrow> jobs_run \<Rightarrow> jobs_run" where
  "run_submit jid nonce grace now r =
     (case record_submission jid nonce grace now (store r) of
        (Accepted _, st) \<Rightarrow>
          r\<lparr>store := st, accepted := (jid, to_ascii_lowercase nonce) # accepted r, clock := now\<rparr>
      | (_, st) \<Rightarrow> r\<lparr>store := st, clock := now\<rparr>)"

inductive jobs_step :: "nat \<Rightarrow> jobs_run \<Rightarrow> jobs_run \<Rightarrow> bool" for grace :: nat where
  jobs_publish: "jobs_step grace r (run_publish job now r)"
    if "clock r \<le> now" "job_id job \<notin> issued r"
      "height_mono (current_height (store r)) (height job)"
| jobs_submit: "jobs_step grace r (run_submit jid nonce grace now r)"
    if "clock r \<le> now"

inductive_cases jobs_stepE: "jobs_step grace r r'"

section \<open>The invariant\<close>

definition entry_id :: "JobEntry \<Rightarrow> string" where
  "entry_id e = job_id (je_job e)"

definition claimed :: "nat \<Rightarrow> nat \<Rightarrow> JobStore \<Rightarrow> string \<times> string \<Rightarrow> bool" where
  "claimed grace now st k \<longleftrightarrow>
     (\<forall>e \<in> set (entries st). entry_id e = fst k \<longrightarrow>
        snd k \<in> seen_nonces e \<or> is_stale grace now (current_height st) e)"

definition jobs_inv :: "nat \<Rightarrow> jobs_run \<Rightarrow> bool" where
  "jobs_inv grace r \<longleftrightarrow>
     distinct (map entry_id (entries (store r)))
     \<and> entry_id ` set (entries (store r)) \<subseteq> issued r
     \<and> length (entries (store r)) \<le> RING_SIZE
     \<and> (\<forall>k \<in> set (accepted r). fst k \<in> issued r \<and> claimed grace (clock r) (store r) k)"

lemma upd_first_map:
  assumes "distinct (map entry_id xs)"
  shows "upd_first (\<lambda>e. job_id (je_job e) = j) f xs = map (\<lambda>e. if entry_id e = j then f e else e) xs"
  using assms
proof (induction xs)
  case (Cons x xs)
  have "map (\<lambda>e. if entry_id e = j then f e else e) xs = xs" if "entry_id x = j"
    using Cons.prems that by (intro map_idI) (auto simp: image_iff)
  with Cons show ?case by (auto simp: entry_id_def)
qed simp

lemma entry_id_supersede_back: "map entry_id (supersede_back now es) = map entry_id es"
  by (cases es rule: rev_cases)
    (auto simp: supersede_back_def entry_id_def supersede_def)

lemma supersede_back_mem:
  "e \<in> set (supersede_back now es) \<Longrightarrow> \<exists>e0 \<in> set es. e = e0 \<or> e = supersede now e0"
  by (cases es rule: rev_cases) (auto simp: supersede_back_def)

lemma publish_mem:
  "e \<in> set (entries (publish job now st)) \<Longrightarrow>
     e = new_entry job \<or> (\<exists>e0 \<in> set (entries st). e = e0 \<or> e = supersede now e0)"
  using supersede_back_mem [of e now "entries st"] set_pop_front_over
  by (fastforce simp: publish_def)

lemma current_publish [simp]: "current (publish job now st) = Some job"
proof -
  obtain es where "entries (publish job now st) = es @ [new_entry job]"
    by (simp add: publish_def pop_front_over_snoc RING_SIZE_def)
  then show ?thesis by (simp add: current_def new_entry_def)
qed

lemma is_stale_mono:
  assumes "is_stale grace now ch e" "now \<le> now'" "height_mono ch ch'"
  shows "is_stale grace now' ch' e" "is_stale grace now' ch' (supersede t e)"
  using assms by (auto simp: is_stale_def height_behind_def height_mono_def supersede_def
      split: option.splits)

lemma entry_id_simps [simp]:
  "entry_id (supersede t e) = entry_id e" "entry_id (new_entry job) = job_id job"
  "entry_id (e\<lparr>seen_nonces := s\<rparr>) = entry_id e"
  by (simp_all add: entry_id_def supersede_def new_entry_def)

lemma seen_supersede [simp]: "seen_nonces (supersede t e) = seen_nonces e"
  by (simp add: supersede_def)

lemma distinct_pop_front_over:
  "distinct (map f xs) \<Longrightarrow> distinct (map f (pop_front_over cap xs))"
  by (simp only: pop_front_over_drop drop_map [symmetric] distinct_drop)

lemma jobs_inv_publish:
  assumes inv: "jobs_inv grace r" and step: "clock r \<le> now" "job_id job \<notin> issued r"
    "height_mono (current_height (store r)) (height job)"
  shows "jobs_inv grace (run_publish job now r)"
proof -
  let ?st = "publish job now (store r)"
  have h: "current_height ?st = height job" by (simp add: current_height_def)
  have "map entry_id (supersede_back now (entries (store r)) @ [new_entry job])
      = map entry_id (entries (store r)) @ [job_id job]" by (simp add: entry_id_supersede_back)
  then have "distinct (map entry_id (supersede_back now (entries (store r)) @ [new_entry job]))"
    using inv step by (auto simp: jobs_inv_def)
  then have d: "distinct (map entry_id (entries ?st))"
    by (simp add: publish_def distinct_pop_front_over del: map_append)
  have i: "entry_id ` set (entries ?st) \<subseteq> insert (job_id job) (issued r)"
    using inv by (auto simp: jobs_inv_def dest!: publish_mem)
  have c: "claimed grace now ?st k" if "k \<in> set (accepted r)" for k
    unfolding claimed_def
  proof (intro ballI impI)
    fix e assume e: "e \<in> set (entries ?st)" "entry_id e = fst k"
    have k: "fst k \<in> issued r" "claimed grace (clock r) (store r) k"
      using inv that by (auto simp: jobs_inv_def)
    with e step obtain e0 where e0: "e0 \<in> set (entries (store r))" "e = e0 \<or> e = supersede now e0"
      using publish_mem [OF e(1)] by auto
    with k e have "snd k \<in> seen_nonces e0 \<or> is_stale grace (clock r) (current_height (store r)) e0"
      by (auto simp: claimed_def)
    with e0 step show "snd k \<in> seen_nonces e \<or> is_stale grace now (current_height ?st) e"
      using is_stale_mono unfolding h by fastforce
  qed
  show ?thesis using d i c inv by (auto simp: jobs_inv_def run_publish_def publish_def)
qed

lemma find_entry:
  assumes "find (\<lambda>e. job_id (je_job e) = j) xs = Some e"
  shows "e \<in> set xs" "entry_id e = j"
  using assms by (auto simp: find_Some_iff entry_id_def)

lemma find_no_entry:
  "find (\<lambda>e. job_id (je_job e) = j) xs = None \<longleftrightarrow> j \<notin> entry_id ` set xs"
  by (auto simp: find_None_iff entry_id_def image_iff)

lemma distinct_entry_eq:
  "distinct (map entry_id xs) \<Longrightarrow> e \<in> set xs \<Longrightarrow> e' \<in> set xs \<Longrightarrow> entry_id e = entry_id e' \<Longrightarrow> e = e'"
  by (auto simp: distinct_map dest: inj_onD)

text \<open>What a submission does to the entries, given that job ids are distinct.\<close>

definition touch_entry :: "string \<Rightarrow> (string set \<Rightarrow> string set) \<Rightarrow> JobEntry \<Rightarrow> JobEntry" where
  "touch_entry jid f e = (if entry_id e = jid then e\<lparr>seen_nonces := f (seen_nonces e)\<rparr> else e)"

lemma touch_entry_id [simp]: "entry_id (touch_entry j f e) = entry_id e"
  by (simp add: touch_entry_def)

lemma touch_entry_simps [simp]:
  "je_job (touch_entry j f e) = je_job e" "superseded_at (touch_entry j f e) = superseded_at e"
  "seen_nonces (touch_entry j f e) = (if entry_id e = j then f (seen_nonces e) else seen_nonces e)"
  by (simp_all add: touch_entry_def)

lemma is_stale_touch [simp]: "is_stale g now ch (touch_entry j f e) = is_stale g now ch e"
  by (simp add: is_stale_def split: option.split)

definition touch :: "string \<Rightarrow> (string set \<Rightarrow> string set) \<Rightarrow> JobStore \<Rightarrow> JobStore" where
  "touch jid f st =
     st\<lparr>entries := map (touch_entry jid f) (entries st)\<rparr>"

lemma record_submission_cases:
  assumes "distinct (map entry_id (entries st))"
  obtains (unknown) "jid \<notin> entry_id ` set (entries st)" "record_submission jid nonce grace now st = (UnknownJob, st)"
    | (stale) e where "e \<in> set (entries st)" "entry_id e = jid"
        "is_stale grace now (current_height st) e"
        "record_submission jid nonce grace now st = (Stale, touch jid (\<lambda>_. {}) st)"
    | (duplicate) e where "e \<in> set (entries st)" "entry_id e = jid"
        "\<not> is_stale grace now (current_height st) e" "to_ascii_lowercase nonce \<in> seen_nonces e"
        "record_submission jid nonce grace now st = (Duplicate, st)"
    | (accepted) e where "e \<in> set (entries st)" "entry_id e = jid"
        "\<not> is_stale grace now (current_height st) e" "to_ascii_lowercase nonce \<notin> seen_nonces e"
        "record_submission jid nonce grace now st
           = (Accepted (je_job e), touch jid (insert (to_ascii_lowercase nonce)) st)"
proof (cases "find (\<lambda>e. job_id (je_job e) = jid) (entries st)")
  case None
  then have "jid \<notin> entry_id ` set (entries st)" by (simp only: find_no_entry not_False_eq_True)
  with None show ?thesis using unknown by (simp add: record_submission_def Let_def)
next
  case (Some e)
  note e = find_entry [OF Some]
  show ?thesis using that(2-4) [OF e] Some assms
    by (cases "is_stale grace now (current_height st) e"; cases "to_ascii_lowercase nonce \<in> seen_nonces e")
      (simp_all add: record_submission_def Let_def upd_first_map touch_def touch_entry_def [abs_def])
qed

lemma touch_ids [simp]: "map entry_id (entries (touch j f st)) = map entry_id (entries st)"
  by (simp add: touch_def comp_def)

lemma touch_set_ids [simp]: "entry_id ` set (entries (touch j f st)) = entry_id ` set (entries st)"
  using arg_cong [of _ _ set, OF touch_ids [of j f st]] by (simp only: set_map)

lemma touch_mem:
  "e \<in> set (entries (touch j f st)) \<longleftrightarrow> (\<exists>e0 \<in> set (entries st). e = touch_entry j f e0)"
  by (simp add: touch_def image_iff)

lemma touch_length [simp]: "length (entries (touch j f st)) = length (entries st)"
  by (simp add: touch_def)

lemma current_touch [simp]: "current (touch j f st) = current st"
  by (simp add: current_def touch_def last_map)

lemma current_height_touch [simp]: "current_height (touch j f st) = current_height st"
  by (simp add: current_height_def)

lemma claimed_mono:
  assumes "claimed grace now st k" "now \<le> now'" shows "claimed grace now' st k"
proof -
  have "height_mono h h" for h by (simp add: height_mono_def split: option.split)
  then show ?thesis using assms is_stale_mono(1) unfolding claimed_def by blast
qed

lemma claimed_touch:
  assumes "claimed grace now st k"
    and "(\<forall>s. s \<subseteq> f s) \<or> (\<forall>e \<in> set (entries st). entry_id e = j \<longrightarrow> is_stale grace now (current_height st) e)"
  shows "claimed grace now (touch j f st) k"
  unfolding claimed_def
proof (intro ballI impI)
  fix e assume e: "e \<in> set (entries (touch j f st))" "entry_id e = fst k"
  then obtain e0 where e0: "e0 \<in> set (entries st)" "e = touch_entry j f e0"
    unfolding touch_mem by blast
  have "entry_id e0 = fst k" using e(2) unfolding e0(2) by simp
  then have "snd k \<in> seen_nonces e0 \<or> is_stale grace now (current_height st) e0"
    using assms(1) e0(1) unfolding claimed_def by blast
  moreover have "snd k \<in> seen_nonces e0 \<Longrightarrow>
      snd k \<in> seen_nonces (touch_entry j f e0) \<or> is_stale grace now (current_height st) e0"
    using assms(2) e0(1) by (cases "entry_id e0 = j") auto
  ultimately show "snd k \<in> seen_nonces e \<or> is_stale grace now (current_height (touch j f st)) e"
    unfolding e0(2) by auto
qed

lemma claimed_insert: "claimed grace now (touch j (insert n) st) (j, n)"
  unfolding claimed_def
proof (intro ballI impI disjI1)
  fix e assume e: "e \<in> set (entries (touch j (insert n) st))" "entry_id e = fst (j, n)"
  obtain e0 where e0: "e = touch_entry j (insert n) e0" using e(1) unfolding touch_mem by blast
  show "snd (j, n) \<in> seen_nonces e" using e(2) unfolding e0 by simp
qed

lemma jobs_inv_submit:
  assumes inv: "jobs_inv grace r" and "clock r \<le> now"
  shows "jobs_inv grace (run_submit jid nonce grace now r)"
    and "accepted (run_submit jid nonce grace now r) = accepted r \<or>
      (\<exists>k. k \<notin> set (accepted r) \<and> accepted (run_submit jid nonce grace now r) = k # accepted r)"
proof -
  let ?st = "store r"
  have d: "distinct (map entry_id (entries ?st))" using inv by (simp add: jobs_inv_def)
  have c: "fst k \<in> issued r \<and> claimed grace now ?st k" if "k \<in> set (accepted r)" for k
    using inv that assms(2) by (auto simp: jobs_inv_def intro: claimed_mono)
  note base = inv [unfolded jobs_inv_def]
  show "jobs_inv grace (run_submit jid nonce grace now r)"
    using d
  proof (cases rule: record_submission_cases [where jid = jid and nonce = nonce and grace = grace and now = now])
    case (stale e)
    then have "claimed grace now (touch jid (\<lambda>_. {}) ?st) k" if "k \<in> set (accepted r)" for k
      using c [OF that] d distinct_entry_eq [OF d] by (intro claimed_touch) auto
    with stale base c show ?thesis by (auto simp: run_submit_def jobs_inv_def)
  next
    case (accepted e)
    then have "claimed grace now (touch jid (insert (to_ascii_lowercase nonce)) ?st) k"
      if "k \<in> set (accepted r)" for k
      using c [OF that] by (intro claimed_touch) auto
    with accepted base c show ?thesis by (auto simp: run_submit_def jobs_inv_def claimed_insert)
  qed (use base c in \<open>auto simp: run_submit_def jobs_inv_def\<close>)
  show "accepted (run_submit jid nonce grace now r) = accepted r \<or>
      (\<exists>k. k \<notin> set (accepted r) \<and> accepted (run_submit jid nonce grace now r) = k # accepted r)"
    using d
  proof (cases rule: record_submission_cases [where jid = jid and nonce = nonce and grace = grace and now = now])
    case (accepted e)
    then have "\<not> claimed grace now ?st (jid, to_ascii_lowercase nonce)" by (auto simp: claimed_def)
    then have "(jid, to_ascii_lowercase nonce) \<notin> set (accepted r)" using c by blast
    with accepted show ?thesis by (simp add: run_submit_def)
  qed (simp_all add: run_submit_def)
qed

interpretation jobs_once: at_most_once "jobs_step grace" "jobs_inv grace" accepted for grace
proof
  fix r r' assume "jobs_inv grace r" "jobs_step grace r r'"
  then show "jobs_inv grace r'" by (auto elim!: jobs_stepE intro: jobs_inv_publish jobs_inv_submit)
next
  fix r r' assume inv: "jobs_inv grace r" and "jobs_step grace r r'"
  from this(2) show "accepted r' = accepted r \<or> (\<exists>k. k \<notin> set (accepted r) \<and> accepted r' = k # accepted r)"
  proof (cases rule: jobs_step.cases)
    case jobs_publish
    then show ?thesis by (simp add: run_publish_def)
  next
    case jobs_submit
    then show ?thesis using jobs_inv_submit(2) [OF inv] by simp
  qed
qed

lemma jobs_inv_init: "jobs_inv grace jobs_init"
  by (simp add: jobs_inv_def jobs_init_def JobStore_new_def)

lemma record_submission_at:
  assumes "distinct (map entry_id (entries st))" "e \<in> set (entries st)"
  shows "record_submission (entry_id e) nonce grace now st =
    (if is_stale grace now (current_height st) e then (Stale, touch (entry_id e) (\<lambda>_. {}) st)
     else if to_ascii_lowercase nonce \<in> seen_nonces e then (Duplicate, st)
     else (Accepted (je_job e), touch (entry_id e) (insert (to_ascii_lowercase nonce)) st))"
  using assms(1)
proof (cases rule: record_submission_cases
    [where jid = "entry_id e" and nonce = nonce and grace = grace and now = now])
  case unknown
  then show ?thesis using assms(2) by blast
qed (use distinct_entry_eq [OF assms(1) assms(2)] in force)+

lemma current_not_stale: "superseded_at e = None \<Longrightarrow> \<not> is_stale grace now ch e"
  by (simp add: is_stale_def)

section \<open>Properties\<close>

text \<open>C9: in every run in which job ids are not reissued and the reported height
  never goes back, no pair of job id and nonce (up to letter case) is accepted twice, whichever
  sessions submit it, however the submissions interleave with new jobs, and
  although stale jobs drop their nonce sets.\<close>

theorem no_share_accepted_twice:
  assumes "(jobs_step grace)\<^sup>*\<^sup>* jobs_init r"
  shows "distinct (accepted r)"
  using jobs_once.distinct_steps [OF assms jobs_inv_init] by (simp add: jobs_init_def)

definition demo_job :: "string \<Rightarrow> u64 option \<Rightarrow> UpstreamJob" where
  "demo_job jid h = \<lparr>job_id = jid, blob_hex = ''00'', seed_hex = ''00'',
     upstream_target_hex = ''ffffffff'', upstream_diff = 1, height = h\<rparr>"

definition demo_run :: jobs_run where
  "demo_run = run_submit ''a'' ''00ff'' 10 3 (run_submit ''a'' ''00FF'' 10 2
     (run_publish (demo_job ''a'' (Some 5)) 1 jobs_init))"

lemma demo_run_reached: "(jobs_step 10)\<^sup>*\<^sup>* jobs_init demo_run"
proof -
  let ?r1 = "run_publish (demo_job ''a'' (Some 5)) 1 jobs_init"
  have "jobs_step 10 jobs_init ?r1"
    by (rule jobs_publish) (simp_all add: jobs_init_def JobStore_new_def current_height_def
        current_def height_mono_def)
  moreover have "jobs_step 10 ?r1 (run_submit ''a'' ''00FF'' 10 2 ?r1)"
    by (rule jobs_submit) (simp add: run_publish_def)
  moreover have "jobs_step 10 (run_submit ''a'' ''00FF'' 10 2 ?r1) demo_run"
    unfolding demo_run_def by (rule jobs_submit) code_simp
  ultimately show ?thesis by auto
qed

theorem no_share_accepted_twice_witness:
  "distinct (accepted demo_run) \<and> accepted demo_run = [(''a'', ''00ff'')]"
proof -
  have "accepted demo_run = [(''a'', ''00ff'')]" by code_simp
  then show ?thesis using no_share_accepted_twice [OF demo_run_reached] by blast
qed

text \<open>C10: a submission for the current job is never stale: a nonce not yet seen is
  accepted and returns that job, the same nonce again is a duplicate. A job
  superseded longer ago than the grace window, or whose height is behind the
  current one, is stale for every nonce.\<close>

theorem record_submission_window:
  assumes "jobs_inv grace r" and "e \<in> set (entries (store r))"
  shows "(superseded_at e = None \<longrightarrow>
      (if to_ascii_lowercase nonce \<in> seen_nonces e
       then fst (record_submission (entry_id e) nonce grace now (store r)) = Duplicate
       else fst (record_submission (entry_id e) nonce grace now (store r)) = Accepted (je_job e)
         \<and> fst (record_submission (entry_id e) nonce' grace now'
              (snd (record_submission (entry_id e) nonce grace now (store r))))
            = (if to_ascii_lowercase nonce' \<in> insert (to_ascii_lowercase nonce) (seen_nonces e)
               then Duplicate else Accepted (je_job e))))
    \<and> (\<forall>t. superseded_at e = Some t
          \<and> (now - t > grace \<or> height_behind (height (je_job e)) (current_height (store r)))
          \<longrightarrow> fst (record_submission (entry_id e) nonce grace now (store r)) = Stale)"
proof -
  have d: "distinct (map entry_id (entries (store r)))" using assms(1) by (simp add: jobs_inv_def)
  note at = record_submission_at [OF d assms(2)]
  let ?n = "to_ascii_lowercase nonce"
  let ?st = "touch (entry_id e) (insert ?n) (store r)"
  have "touch_entry (entry_id e) (insert ?n) e \<in> set (entries ?st)"
    using assms(2) unfolding touch_mem by blast
  then have again: "record_submission (entry_id e) nonce' grace now' ?st =
      (if to_ascii_lowercase nonce' \<in> insert ?n (seen_nonces e) then (Duplicate, ?st)
       else (Accepted (je_job e), touch (entry_id e) (insert (to_ascii_lowercase nonce')) ?st))"
    if "superseded_at e = None"
    using record_submission_at [of ?st "touch_entry (entry_id e) (insert ?n) e" nonce' grace now'] d that
    by (simp add: current_not_stale)
  have "fst (record_submission (entry_id e) nonce grace now (store r)) = Stale"
    if "is_stale grace now (current_height (store r)) e" using that by (simp add: at)
  then show ?thesis using again by (auto simp: at current_not_stale is_stale_def)
qed

theorem record_submission_window_witness:
  "fst (record_submission ''a'' ''0A'' 10 7 (store demo_run)) = Accepted (demo_job ''a'' (Some 5))"
proof -
  let ?e = "hd (entries (store demo_run))"
  have inv: "jobs_inv 10 demo_run"
    by (rule jobs_once.inv_steps [OF demo_run_reached jobs_inv_init])
  have mem: "?e \<in> set (entries (store demo_run))" by (rule hd_in_set) code_simp
  have "entry_id ?e = ''a''" "je_job ?e = demo_job ''a'' (Some 5)" "superseded_at ?e = None"
    "to_ascii_lowercase ''0A'' \<notin> seen_nonces ?e" by code_simp+
  then show ?thesis using record_submission_window [OF inv mem, where nonce = "''0A''" and now = 7]
    by (simp only: if_False)
qed

text \<open>The nonce set of a stale job is dropped on the premise that the job stays
  stale. When a later job reports a lower height, or none, the job is accepted
  again within its grace window, with an empty set: the same share is accepted
  twice.\<close>

lemma replay_after_height_regress:
  "accepted (run_submit ''a'' ''00ff'' 10 6 (run_publish (demo_job ''c'' (Some 5)) 5
     (run_submit ''a'' ''00ff'' 10 4 (run_publish (demo_job ''b'' (Some 6)) 3
       (run_submit ''a'' ''00ff'' 10 2 (run_publish (demo_job ''a'' (Some 5)) 1 jobs_init))))))
   = [(''a'', ''00ff''), (''a'', ''00ff'')]"
  by code_simp

end
