(* ===== verification/Share.thy ===== *)
theory Share
  imports Stratum Verifier Jobs Float64
begin

text \<open>
  The share pipeline of the proxy: \<open>stratum-proxy/src/share.rs\<close> (verification of
  a submitted share), \<open>stratum-proxy/src/sample.rs\<close> (when to verify) and
  \<open>ShareAccepted\<close> of \<open>pool-core/src/types.rs\<close>. The verifier is any stateful hash;
  the theorems about it hold for every instance of the locale \<open>verifier\<close>.
\<close>

section \<open>Data\<close>

datatype ShareOutcome = ShareOk bool | BelowDifficulty | InvalidHash | ShareUnknownJob | BadBlob

record 'addr VerifyInput =
  vi_miner :: 'addr
  vi_job :: UpstreamJob
  session_difficulty :: u64
  nonce_hex :: string
  claimed_result_hex :: string

record 'addr ShareAccepted =
  sa_miner :: 'addr
  sa_job_id :: string
  sa_difficulty :: u64
  accepted_at :: int
  forwarded_upstream :: bool

section \<open>Verification\<close>

definition zero_hash :: ResultHash where "zero_hash = replicate 32 0"

definition accept_claimed_result :: "hex_dec \<Rightarrow> 'addr VerifyInput \<Rightarrow> ShareOutcome \<times> ResultHash" where
  "accept_claimed_result dec i =
     (case dec (claimed_result_hex i) of
        Inl _ \<Rightarrow> (BadBlob, zero_hash)
      | Inr b \<Rightarrow>
          if length b \<noteq> 32 then (BadBlob, zero_hash)
          else if \<not> meets_difficulty b (session_difficulty i) then (BelowDifficulty, b)
          else (ShareOk (meets_difficulty b (upstream_diff (vi_job i))), b))"

definition share_seed :: "hex_dec \<Rightarrow> UpstreamJob \<Rightarrow> SeedHash" where
  "share_seed dec j =
     (case dec (seed_hex j) of
        Inl _ \<Rightarrow> replicate 32 0
      | Inr s \<Rightarrow> if length s = 32 then s else replicate 32 0)"

definition verify_error_text :: "VerifyError \<Rightarrow> string" where
  "verify_error_text e =
     (case e of BelowDifficultyErr \<Rightarrow> ''hash below target difficulty''
      | RandomXErr s \<Rightarrow> ''randomx error: '' @ s)"

definition verify_share ::
  "hex_dec \<Rightarrow> 's hasher \<Rightarrow> 's \<Rightarrow> 'addr VerifyInput \<Rightarrow> (string + ShareOutcome \<times> ResultHash) \<times> 's" where
  "verify_share dec hash s i =
     (case dec (nonce_hex i) of
        Inl _ \<Rightarrow> (Inl ''bad nonce hex'', s)
      | Inr nonce \<Rightarrow>
          if length nonce \<noteq> NONCE_LEN then (Inr (BadBlob, zero_hash), s)
          else (case assemble_blob_with_nonce dec (blob_hex (vi_job i)) (nonce_hex i) of
                  Inl _ \<Rightarrow> (Inr (BadBlob, zero_hash), s)
                | Inr blob \<Rightarrow>
                    (case hash s (share_seed dec (vi_job i)) blob of
                       (Inl e, s') \<Rightarrow> (Inl (''randomx: '' @ verify_error_text e), s')
                     | (Inr h, s') \<Rightarrow>
                         if \<not> meets_difficulty h (session_difficulty i) then (Inr (BelowDifficulty, h), s')
                         else (Inr (ShareOk (meets_difficulty h (upstream_diff (vi_job i))), h), s'))))"

section \<open>The sink of the tests\<close>

record 'addr InMemorySink =
  shares :: "'addr ShareAccepted list"

definition InMemorySink_credit :: "'addr ShareAccepted \<Rightarrow> 'addr InMemorySink \<Rightarrow> int \<times> 'addr InMemorySink" where
  "InMemorySink_credit share sink = (0, sink\<lparr>shares := shares sink @ [share]\<rparr>)"

section \<open>Sampling\<close>

record SampleConfig =
  warmup :: u32
  sample_rate :: f64

definition SampleConfig_default :: SampleConfig where
  "SampleConfig_default = \<lparr>warmup = 5, sample_rate = f64_round (1 / 10)\<rparr>"

definition SampleConfig_from :: "u32 \<Rightarrow> f64 \<Rightarrow> SampleConfig" where
  "SampleConfig_from verification_warmup verification_sample_rate =
     \<lparr>warmup = verification_warmup, sample_rate = fclamp (Fin 0) (Fin 1) verification_sample_rate\<rparr>"

text \<open>\<open>gen_bool\<close> is the random generator's draw, which panics on a probability
  outside the unit interval.\<close>

definition should_verify :: "u32 \<Rightarrow> SampleConfig \<Rightarrow> (f64 \<Rightarrow> bool exec) \<Rightarrow> bool exec" where
  "should_verify verified_count cfg gen_bool =
     (if verified_count < warmup cfg then Returns True
      else gen_bool (fclamp (Fin 0) (Fin 1) (sample_rate cfg)))"

section \<open>Properties\<close>

lemma verify_share_ShareOk:
  assumes "verify_share dec hash s i = (Inr (ShareOk fwd, h), s')"
  obtains blob where
    "assemble_blob_with_nonce dec (blob_hex (vi_job i)) (nonce_hex i) = Inr blob"
    "hash s (share_seed dec (vi_job i)) blob = (Inr h, s')"
    "meets_difficulty h (session_difficulty i)"
    "fwd = meets_difficulty h (upstream_diff (vi_job i))"
  using assms
  by (auto simp: verify_share_def split: sum.splits if_splits prod.splits)

lemma accept_claimed_ShareOk:
  assumes "accept_claimed_result dec i = (ShareOk fwd, h)"
  shows "dec (claimed_result_hex i) = Inr h" "length h = 32"
    "meets_difficulty h (session_difficulty i)"
    "fwd = meets_difficulty h (upstream_diff (vi_job i))"
  using assms by (auto simp: accept_claimed_result_def split: sum.splits if_splits)

text \<open>C13: for every verifier that keeps its contract, a verified share is accepted
  exactly when the hash of the job's blob with the submitted nonce, under the
  job's seed, meets the difficulty the session advertised, whatever result
  the miner claimed; it is forwarded exactly when that hash also meets the upstream
  difficulty.\<close>

theorem verify_share_sound:
  assumes "verifier hash ok pure" and "ok s"
  shows "(\<exists>h s'. verify_share dec hash s i = (Inr (ShareOk fwd, h), s')) \<longleftrightarrow>
    (\<exists>blob h. assemble_blob_with_nonce dec (blob_hex (vi_job i)) (nonce_hex i) = Inr blob
       \<and> pure (share_seed dec (vi_job i)) blob = Inr h
       \<and> meets_difficulty h (session_difficulty i)
       \<and> fwd = meets_difficulty h (upstream_diff (vi_job i)))"
proof
  assume "\<exists>h s'. verify_share dec hash s i = (Inr (ShareOk fwd, h), s')"
  then obtain h s' where "verify_share dec hash s i = (Inr (ShareOk fwd, h), s')" by blast
  then obtain blob where "assemble_blob_with_nonce dec (blob_hex (vi_job i)) (nonce_hex i) = Inr blob"
    "hash s (share_seed dec (vi_job i)) blob = (Inr h, s')"
    "meets_difficulty h (session_difficulty i)" "fwd = meets_difficulty h (upstream_diff (vi_job i))"
    by (rule verify_share_ShareOk)
  moreover from this verifier.hash_pure [OF assms, of "share_seed dec (vi_job i)" blob]
  have "pure (share_seed dec (vi_job i)) blob = Inr h" by simp
  ultimately show "\<exists>blob h. assemble_blob_with_nonce dec (blob_hex (vi_job i)) (nonce_hex i) = Inr blob
       \<and> pure (share_seed dec (vi_job i)) blob = Inr h
       \<and> meets_difficulty h (session_difficulty i)
       \<and> fwd = meets_difficulty h (upstream_diff (vi_job i))" by blast
next
  assume "\<exists>blob h. assemble_blob_with_nonce dec (blob_hex (vi_job i)) (nonce_hex i) = Inr blob
       \<and> pure (share_seed dec (vi_job i)) blob = Inr h
       \<and> meets_difficulty h (session_difficulty i)
       \<and> fwd = meets_difficulty h (upstream_diff (vi_job i))"
  then obtain blob h where *: "assemble_blob_with_nonce dec (blob_hex (vi_job i)) (nonce_hex i) = Inr blob"
    "pure (share_seed dec (vi_job i)) blob = Inr h" "meets_difficulty h (session_difficulty i)"
    "fwd = meets_difficulty h (upstream_diff (vi_job i))" by blast
  from *(1) obtain nonce where "dec (nonce_hex i) = Inr nonce" "length nonce = 4"
    unfolding assemble_Inr_iff by blast
  moreover obtain s' where "hash s (share_seed dec (vi_job i)) blob = (Inr h, s')"
    using verifier.hash_pure [OF assms, of "share_seed dec (vi_job i)" blob] *(2) by (metis prod.collapse)
  ultimately show "\<exists>h s'. verify_share dec hash s i = (Inr (ShareOk fwd, h), s')"
    using * by (simp add: verify_share_def NONCE_LEN_def)
qed

definition demo_input :: "nat VerifyInput" where
  "demo_input = \<lparr>vi_miner = 1, vi_job = (demo_job ''a'' None)\<lparr>blob_hex := hex_encode (replicate 76 0)\<rparr>,
     session_difficulty = 1, nonce_hex = ''00000001'', claimed_result_hex = []\<rparr>"

theorem verify_share_sound_witness:
  "(\<exists>h s'. verify_share hex_decode StubVerifier_hash () demo_input = (Inr (ShareOk True, h), s'))
   \<and> (\<exists>blob. assemble_blob_with_nonce hex_decode (blob_hex (vi_job demo_input)) (nonce_hex demo_input)
        = Inr blob)"
proof -
  have "(case verify_share hex_decode StubVerifier_hash () demo_input of
      (Inr (ShareOk True, h), s') \<Rightarrow> True | _ \<Rightarrow> False)" by code_simp
  then have "\<exists>h s'. verify_share hex_decode StubVerifier_hash () demo_input = (Inr (ShareOk True, h), s')"
    by (auto split: prod.splits sum.splits ShareOutcome.splits bool.splits)
  with verify_share_sound [OF stub.verifier_axioms TrueI, of hex_decode "()" demo_input True]
  show ?thesis by blast
qed

text \<open>C14: before the warm-up is complete every share is verified; afterwards the
  draw is made at the configured rate forced into the unit interval: at the rate itself when it lies
  there, at 1 above it and at 0 below it. So with a generator that panics only outside the unit
  interval sampling never panics for a rate that is a number; a NaN rate reaches the generator.\<close>

theorem should_verify_policy:
  assumes "\<And>p. fle (Fin 0) p \<Longrightarrow> fle p (Fin 1) \<Longrightarrow> gen_bool p \<noteq> Panics"
  shows "(count < w \<longrightarrow> should_verify count (SampleConfig_from w rate) gen_bool = Returns True)
    \<and> (rate \<noteq> NaN \<longrightarrow> should_verify count (SampleConfig_from w rate) gen_bool \<noteq> Panics)
    \<and> (\<not> count < w \<longrightarrow>
         (fle (Fin 0) rate \<and> fle rate (Fin 1) \<longrightarrow> should_verify count (SampleConfig_from w rate) gen_bool = gen_bool rate)
       \<and> (flt (Fin 1) rate \<longrightarrow> should_verify count (SampleConfig_from w rate) gen_bool = gen_bool (Fin 1))
       \<and> (flt rate (Fin 0) \<longrightarrow> should_verify count (SampleConfig_from w rate) gen_bool = gen_bool (Fin 0))
       \<and> (rate = NaN \<longrightarrow> should_verify count (SampleConfig_from w rate) gen_bool = gen_bool NaN))"
proof -
  have c: "fle (Fin 0) (fclamp (Fin 0) (Fin 1) r) \<and> fle (fclamp (Fin 0) (Fin 1) r) (Fin 1)"
    if "r \<noteq> NaN" for r using fclamp_bounds [of "Fin 0" "Fin 1" r] that by simp
  have id: "fclamp (Fin 0) (Fin 1) r = r" if "fle (Fin 0) r" "fle r (Fin 1)" for r
    using that by (cases r) (auto simp: fclamp_def Let_def)
  have out: "flt (Fin 1) r \<Longrightarrow> fclamp (Fin 0) (Fin 1) r = Fin 1" "flt r (Fin 0) \<Longrightarrow> fclamp (Fin 0) (Fin 1) r = Fin 0"
    "fclamp (Fin 0) (Fin 1) NaN = NaN" for r
    by (cases r; auto simp: fclamp_def Let_def)+
  have "gen_bool (fclamp (Fin 0) (Fin 1) (fclamp (Fin 0) (Fin 1) rate)) \<noteq> Panics" if "rate \<noteq> NaN"
    using assms c [OF that] id by simp
  then show ?thesis using id out by (auto simp: should_verify_def SampleConfig_from_def)
qed

definition demo_gen :: "f64 \<Rightarrow> bool exec" where
  "demo_gen p = (if fle (Fin 0) p \<and> fle p (Fin 1) then Returns (p = Fin 1) else Panics)"

theorem should_verify_policy_witness:
  "should_verify 2 (SampleConfig_from 5 (Fin 0)) demo_gen = Returns True
   \<and> should_verify 9 (SampleConfig_from 5 (Fin 0)) demo_gen = demo_gen (Fin 0)
   \<and> should_verify 9 (SampleConfig_from 5 (Fin 7)) demo_gen = Returns True
   \<and> should_verify 9 (SampleConfig_from 5 (Fin (- 3))) demo_gen = Returns False"
  using should_verify_policy [of demo_gen 2 5 "Fin 0"] should_verify_policy [of demo_gen 9 5 "Fin 0"]
    should_verify_policy [of demo_gen 9 5 "Fin 7"] should_verify_policy [of demo_gen 9 5 "Fin (- 3)"]
  by (simp add: demo_gen_def)

end
