(* ===== verification/Metrics.thy ===== *)
theory Metrics
  imports Float64
begin

text \<open>
  \<open>pool-core/src/metrics.rs\<close>: the in-process counters. Instants are nanoseconds of a
  monotonic clock, atomics are fields, the 16 locked shards a list of maps, and
  the hashrate window a ring of 24 buckets; \<open>u64\<close> sums wrap as in a release build. The specification is the history of all
  shares; the counters and the ring are shown to implement it.
\<close>

section \<open>Data\<close>

type_synonym addr_bytes = "u8 list"

record MinerStats =
  st_work :: u64
  st_shares :: u64
  st_last_share_ms :: int

definition HASHRATE_WINDOW :: int where "HASHRATE_WINDOW = 120000000000"
definition BUCKET :: int where "BUCKET = 5000000000"
definition NUM_BUCKETS :: nat where "NUM_BUCKETS = 24"

type_synonym bucket = "int \<times> u64"

record WindowedHashrate =
  buckets :: "bucket list"
  head :: nat

record Metrics =
  shards :: "(addr_bytes \<Rightarrow> MinerStats option) list"
  hashrate_window :: WindowedHashrate
  live_sessions :: int
  mx_total_work :: u64
  upstream_connected :: bool
  upstream_last_change_unix_ms :: int
  upstream_consecutive_failures :: u32
  upstream_submit_rejects_total :: u64
  upstream_submit_accepts_total :: u64

record UpstreamHealth =
  uh_connected :: bool
  uh_last_change_unix_ms :: int
  uh_consecutive_failures :: u32
  uh_submit_rejects_total :: u64
  uh_submit_accepts_total :: u64

section \<open>The hashrate window\<close>

definition WindowedHashrate_new :: "int \<Rightarrow> WindowedHashrate" where
  "WindowedHashrate_new now = \<lparr>buckets = replicate NUM_BUCKETS (now - HASHRATE_WINDOW, 0), head = 0\<rparr>"

text \<open>\<open>duration_since\<close> saturates at zero.\<close>

definition observe :: "u64 \<Rightarrow> int \<Rightarrow> WindowedHashrate \<Rightarrow> WindowedHashrate" where
  "observe work now w =
     (case buckets w ! head w of (head_t, head_w) \<Rightarrow>
        if max 0 (now - head_t) < BUCKET
        then w\<lparr>buckets := (buckets w)[head w := (head_t, head_w + work)]\<rparr>
        else let h = (head w + 1) mod NUM_BUCKETS
             in w\<lparr>head := h, buckets := (buckets w)[h := (now, work)]\<rparr>)"

definition window_total :: "int \<Rightarrow> bucket list \<Rightarrow> u64" where
  "window_total cutoff bs = sum_list (map snd (filter (\<lambda>(t, _). cutoff \<le> t) bs))"

text \<open>Instants are integers without a lower end, so \<open>checked_sub\<close> never fails; on a real clock it may only within
  the first window after the clock's origin, where \<open>read\<close> returns 0.\<close>

definition window_read :: "int \<Rightarrow> WindowedHashrate \<Rightarrow> f64" where
  "window_read now w =
     fdiv (f64_of_word (window_total (now - HASHRATE_WINDOW) (buckets w))) (f64_of_int 120)"

section \<open>The counters\<close>

definition Metrics_new :: "int \<Rightarrow> Metrics" where
  "Metrics_new now = \<lparr>shards = replicate 16 (\<lambda>_. None), hashrate_window = WindowedHashrate_new now,
     live_sessions = 0, mx_total_work = 0, upstream_connected = False, upstream_last_change_unix_ms = 0,
     upstream_consecutive_failures = 0, upstream_submit_rejects_total = 0, upstream_submit_accepts_total = 0\<rparr>"

definition mark_upstream_connected :: "int \<Rightarrow> Metrics \<Rightarrow> Metrics" where
  "mark_upstream_connected ms m =
     (let m1 = m\<lparr>upstream_connected := True\<rparr>
      in if upstream_connected m then m1 else m1\<lparr>upstream_last_change_unix_ms := ms\<rparr>)"

definition mark_upstream_disconnected :: "int \<Rightarrow> Metrics \<Rightarrow> bool \<times> Metrics" where
  "mark_upstream_disconnected ms m =
     (let m1 = m\<lparr>upstream_connected := False\<rparr>
      in (upstream_connected m, if upstream_connected m then m1\<lparr>upstream_last_change_unix_ms := ms\<rparr> else m1))"

text \<open>The counter itself wraps; the returned value saturates.\<close>

definition record_upstream_failure :: "Metrics \<Rightarrow> u32 \<times> Metrics" where
  "record_upstream_failure m =
     (sat_add (upstream_consecutive_failures m) 1,
      m\<lparr>upstream_consecutive_failures := upstream_consecutive_failures m + 1\<rparr>)"

definition record_upstream_submit_reject :: "Metrics \<Rightarrow> Metrics" where
  "record_upstream_submit_reject m = m\<lparr>upstream_submit_rejects_total := upstream_submit_rejects_total m + 1\<rparr>"

definition record_upstream_submit_accept :: "Metrics \<Rightarrow> Metrics" where
  "record_upstream_submit_accept m = m\<lparr>upstream_submit_accepts_total := upstream_submit_accepts_total m + 1\<rparr>"

definition upstream_health :: "Metrics \<Rightarrow> UpstreamHealth" where
  "upstream_health m = \<lparr>uh_connected = upstream_connected m, uh_last_change_unix_ms = upstream_last_change_unix_ms m,
     uh_consecutive_failures = upstream_consecutive_failures m,
     uh_submit_rejects_total = upstream_submit_rejects_total m,
     uh_submit_accepts_total = upstream_submit_accepts_total m\<rparr>"

definition shard_of :: "addr_bytes \<Rightarrow> nat" where
  "shard_of addr = unat (addr ! 0) mod 16"

definition stats_default :: MinerStats where
  "stats_default = \<lparr>st_work = 0, st_shares = 0, st_last_share_ms = 0\<rparr>"

definition stats_entry :: "addr_bytes \<Rightarrow> Metrics \<Rightarrow> MinerStats" where
  "stats_entry addr m = (case (shards m ! shard_of addr) addr of Some s \<Rightarrow> s | None \<Rightarrow> stats_default)"

definition record_share :: "addr_bytes \<Rightarrow> u64 \<Rightarrow> int \<Rightarrow> int \<Rightarrow> Metrics \<Rightarrow> Metrics" where
  "record_share miner difficulty now ms m =
     (let s = stats_entry miner m;
          s1 = s\<lparr>st_work := st_work s + difficulty, st_shares := st_shares s + 1, st_last_share_ms := ms\<rparr>;
          i = shard_of miner
      in m\<lparr>shards := (shards m)[i := (shards m ! i)(miner := Some s1)],
           mx_total_work := mx_total_work m + difficulty,
           hashrate_window := observe difficulty now (hashrate_window m)\<rparr>)"

definition miner_snapshot :: "addr_bytes \<Rightarrow> Metrics \<Rightarrow> MinerStats option" where
  "miner_snapshot addr m = (shards m ! shard_of addr) addr"

definition hashrate :: "int \<Rightarrow> Metrics \<Rightarrow> f64" where
  "hashrate now m = window_read now (hashrate_window m)"

definition total_work :: "Metrics \<Rightarrow> u64" where
  "total_work m = mx_total_work m"

definition active_miners :: "Metrics \<Rightarrow> nat" where
  "active_miners m = nat (max (live_sessions m) 0)"

definition session_opened :: "Metrics \<Rightarrow> Metrics" where
  "session_opened m = m\<lparr>live_sessions := i64_wrap (live_sessions m + 1)\<rparr>"

definition session_closed :: "Metrics \<Rightarrow> Metrics" where
  "session_closed m = m\<lparr>live_sessions := i64_wrap (live_sessions m - 1)\<rparr>"

section \<open>The specification\<close>

text \<open>A share as recorded: miner, difficulty, instant, wall clock. The history is a list,
  oldest first.\<close>

type_synonym share_rec = "addr_bytes \<times> u64 \<times> int \<times> int"

fun run_shares :: "share_rec list \<Rightarrow> Metrics \<Rightarrow> Metrics" where
  "run_shares [] m = m"
| "run_shares ((a, d, now, ms) # h) m = run_shares h (record_share a d now ms m)"

definition shares_of :: "addr_bytes \<Rightarrow> share_rec list \<Rightarrow> share_rec list" where
  "shares_of a h = filter (\<lambda>(b, _). b = a) h"

definition spec_work :: "share_rec list \<Rightarrow> u64" where
  "spec_work h = sum_list (map (\<lambda>(_, d, _). d) h)"

definition spec_snapshot :: "addr_bytes \<Rightarrow> share_rec list \<Rightarrow> MinerStats option" where
  "spec_snapshot a h =
     (if shares_of a h = [] then None
      else Some \<lparr>st_work = spec_work (shares_of a h), st_shares = of_nat (length (shares_of a h)),
                 st_last_share_ms = (case last (shares_of a h) of (_, _, _, ms) \<Rightarrow> ms)\<rparr>)"

text \<open>Every share opens a bucket or falls into the one opened less than \<open>BUCKET\<close> before it;
  nothing is ever forgotten.\<close>

definition put_bucket :: "u64 \<Rightarrow> int \<Rightarrow> bucket list \<Rightarrow> bucket list" where
  "put_bucket d now bs =
     (if bs \<noteq> [] \<and> max 0 (now - fst (last bs)) < BUCKET
      then butlast bs @ [(fst (last bs), snd (last bs) + d)] else bs @ [(now, d)])"

fun spec_buckets :: "share_rec list \<Rightarrow> bucket list \<Rightarrow> bucket list" where
  "spec_buckets [] bs = bs"
| "spec_buckets ((a, d, now, ms) # h) bs = spec_buckets h (put_bucket d now bs)"

definition spec_hashrate :: "int \<Rightarrow> share_rec list \<Rightarrow> f64" where
  "spec_hashrate now h =
     fdiv (f64_of_word (window_total (now - HASHRATE_WINDOW) (spec_buckets h []))) (f64_of_int 120)"


section \<open>The ring is the tail of the history\<close>

text \<open>The buckets of the ring, oldest first.\<close>

definition unrolled :: "WindowedHashrate \<Rightarrow> bucket list" where
  "unrolled w = drop (Suc (head w)) (buckets w) @ take (Suc (head w)) (buckets w)"

definition ring_ok :: "WindowedHashrate \<Rightarrow> bool" where
  "ring_ok w \<longleftrightarrow> length (buckets w) = NUM_BUCKETS \<and> head w < NUM_BUCKETS"

lemma unrolled_snoc:
  assumes "h < length b"
  shows "drop (Suc h) b @ take (Suc h) b = (drop (Suc h) b @ take h b) @ [b ! h]"
  using assms by (simp add: take_Suc_conv_app_nth)

lemma unrolled_eq:
  assumes "ring_ok w"
  shows "unrolled w = (drop (Suc (head w)) (buckets w) @ take (head w) (buckets w)) @ [buckets w ! head w]"
  using assms unrolled_snoc [of "head w" "buckets w"] by (simp add: unrolled_def ring_ok_def)

lemma unrolled_last:
  assumes "ring_ok w"
  shows "last (unrolled w) = buckets w ! head w"
    and "butlast (unrolled w) = drop (Suc (head w)) (buckets w) @ take (head w) (buckets w)"
    and "unrolled w \<noteq> []"
  unfolding unrolled_eq [OF assms] last_snoc butlast_snoc by simp_all

lemma roll_list:
  assumes "h < length b"
  shows "drop (Suc (Suc h mod length b)) (b[Suc h mod length b := x]) @
         take (Suc (Suc h mod length b)) (b[Suc h mod length b := x]) =
         tl (drop (Suc h) b @ take (Suc h) b) @ [x]"
proof (cases "Suc h < length b")
  case True
  then show ?thesis
    by (simp add: take_Suc_conv_app_nth Cons_nth_drop_Suc [symmetric])
next
  case False
  with assms have "Suc h = length b" by simp
  with assms show ?thesis by (cases b) auto
qed

lemma observe_unrolled:
  assumes "ring_ok w"
  shows "ring_ok (observe d now w)"
    and "unrolled (observe d now w) =
           (case last (unrolled w) of (t, s) \<Rightarrow>
              if max 0 (now - t) < BUCKET then butlast (unrolled w) @ [(t, s + d)]
              else tl (unrolled w) @ [(now, d)])"
proof -
  have len: "length (buckets w) = 24" "head w < 24"
    using assms by (auto simp: ring_ok_def NUM_BUCKETS_def)
  show "ring_ok (observe d now w)"
    using len by (auto simp: observe_def ring_ok_def NUM_BUCKETS_def Let_def split: prod.splits)
  obtain t s where hd: "buckets w ! head w = (t, s)" by (cases "buckets w ! head w")
  show "unrolled (observe d now w) =
           (case last (unrolled w) of (t, s) \<Rightarrow>
              if max 0 (now - t) < BUCKET then butlast (unrolled w) @ [(t, s + d)]
              else tl (unrolled w) @ [(now, d)])"
  proof (cases "max 0 (now - t) < BUCKET")
    case True
    then show ?thesis
      using len hd unrolled_last(1,2) [OF assms]
      by (simp add: observe_def unrolled_def take_Suc_conv_app_nth)
  next
    case False
    then have "observe d now w = w\<lparr>head := Suc (head w) mod 24, buckets := (buckets w)[Suc (head w) mod 24 := (now, d)]\<rparr>"
      using hd by (simp only: observe_def NUM_BUCKETS_def Let_def prod.case if_False Suc_eq_plus1)
    then have "unrolled (observe d now w) = tl (unrolled w) @ [(now, d)]"
      using len roll_list [of "head w" "buckets w" "(now, d)"] by (simp add: unrolled_def)
    with False hd unrolled_last(1) [OF assms] show ?thesis by auto
  qed
qed

lemma unrolled_mset:
  "window_total c (unrolled w) = window_total c (buckets w)"
proof -
  have "window_total c (xs @ ys) = window_total c xs + window_total c ys" for xs ys
    by (simp add: window_total_def)
  then have "window_total c (unrolled w) = window_total c (take (Suc (head w)) (buckets w) @ drop (Suc (head w)) (buckets w))"
    by (simp add: unrolled_def add.commute del: append_take_drop_id)
  then show ?thesis by simp
qed

text \<open>The history: buckets at least \<open>BUCKET\<close> apart, of which the ring holds the last 24.\<close>

definition spaced :: "bucket list \<Rightarrow> bool" where
  "spaced bs \<longleftrightarrow> (\<forall>i. Suc i < length bs \<longrightarrow> fst (bs ! i) + BUCKET \<le> fst (bs ! Suc i))"

definition last_n :: "nat \<Rightarrow> 'a list \<Rightarrow> 'a list" where
  "last_n n xs = drop (length xs - n) xs"

definition holds_history :: "int \<Rightarrow> WindowedHashrate \<Rightarrow> bucket list \<Rightarrow> bool" where
  "holds_history epoch w bs \<longleftrightarrow> ring_ok w \<and> spaced bs \<and>
     unrolled w = last_n NUM_BUCKETS (replicate NUM_BUCKETS (epoch, 0) @ bs)"

lemma spaced_gap:
  assumes "spaced bs" "i + k < length bs"
  shows "fst (bs ! i) + int k * BUCKET \<le> fst (bs ! (i + k))"
  using assms(2)
proof (induction k)
  case (Suc k)
  then have "fst (bs ! (i + k)) + BUCKET \<le> fst (bs ! Suc (i + k))"
    using assms(1) by (simp add: spaced_def)
  with Suc show ?case by (simp add: algebra_simps)
qed simp

lemma spaced_snoc:
  "spaced (bs @ [x]) \<longleftrightarrow> spaced bs \<and> (bs \<noteq> [] \<longrightarrow> fst (last bs) + BUCKET \<le> fst x)"
  by (cases bs rule: rev_cases) (auto simp: spaced_def nth_append less_Suc_eq)

lemma spaced_put:
  assumes "spaced bs"
  shows "spaced (put_bucket d now bs)"
proof (cases "bs \<noteq> [] \<and> max 0 (now - fst (last bs)) < BUCKET")
  case True
  then show ?thesis using assms spaced_snoc [of "butlast bs" "last bs"]
    by (simp add: put_bucket_def spaced_snoc)
next
  case False
  then have "put_bucket d now bs = bs @ [(now, d)]" by (simp only: put_bucket_def if_False)
  with False assms show ?thesis by (auto simp: spaced_snoc BUCKET_def)
qed

lemma last_n_snoc:
  "0 < n \<Longrightarrow> n \<le> length xs \<Longrightarrow> last_n n (xs @ [x]) = tl (last_n n xs) @ [x]"
  by (simp add: last_n_def Suc_diff_le drop_Suc tl_drop)

lemma last_n_upd:
  "0 < n \<Longrightarrow> n \<le> length xs \<Longrightarrow> last_n n (butlast xs @ [x]) = butlast (last_n n xs) @ [x]"
  by (cases xs rule: rev_cases) (auto simp: last_n_def Suc_diff_le butlast_drop)

lemma last_last_n:
  "0 < n \<Longrightarrow> n \<le> length xs \<Longrightarrow> last (last_n n xs) = last xs"
  by (simp add: last_n_def)

text \<open>The first share must find the sentinel bucket stale.\<close>

lemma observe_history:
  assumes "holds_history epoch w bs" "bs = [] \<longrightarrow> epoch + BUCKET \<le> now"
  shows "holds_history epoch (observe d now w) (put_bucket d now bs)"
proof -
  define all where "all = replicate NUM_BUCKETS (epoch, 0 :: u64) @ bs"
  have n: "0 < NUM_BUCKETS" "NUM_BUCKETS \<le> length all" "all \<noteq> []" by (auto simp: all_def NUM_BUCKETS_def)
  have ok: "ring_ok w" "spaced bs" and un: "unrolled w = last_n NUM_BUCKETS all"
    using assms(1) by (auto simp: holds_history_def all_def)
  have l: "last all = (if bs = [] then (epoch, 0) else last bs)"
    by (simp add: all_def NUM_BUCKETS_def numeral_eq_Suc)
  have "replicate NUM_BUCKETS (epoch, 0) @ put_bucket d now bs =
     (case last all of (t, s) \<Rightarrow> if max 0 (now - t) < BUCKET then butlast all @ [(t, s + d)] else all @ [(now, d)])"
    unfolding l using assms(2)
    by (cases "last bs"; cases "bs = []") (simp_all add: put_bucket_def all_def butlast_append BUCKET_def)
  then have "unrolled (observe d now w) = last_n NUM_BUCKETS (replicate NUM_BUCKETS (epoch, 0) @ put_bucket d now bs)"
    unfolding observe_unrolled(2) [OF ok(1)] un last_last_n [OF n(1,2)]
    by (cases "last all") (simp add: last_n_snoc last_n_upd n)
  with ok show ?thesis by (simp add: holds_history_def observe_unrolled(1) spaced_put)
qed

lemma window_total_zero:
  "(\<And>t s. (t, s) \<in> set bs \<Longrightarrow> c \<le> t \<Longrightarrow> s = 0) \<Longrightarrow> window_total c bs = 0"
proof (induction bs)
  case (Cons x bs)
  then have "window_total c bs = 0" by (auto intro: Cons.IH)
  with Cons.prems [of "fst x" "snd x"] show ?case by (cases x) (simp add: window_total_def)
qed (simp add: window_total_def)

lemma window_total_append [simp]:
  "window_total c (xs @ ys) = window_total c xs + window_total c ys"
  by (simp add: window_total_def)

text \<open>What the ring has overwritten started more than a window before any later read.\<close>

lemma ring_read:
  assumes "holds_history epoch w bs" "\<forall>(t, s) \<in> set bs. t < now"
  shows "window_total (now - HASHRATE_WINDOW) (buckets w) = window_total (now - HASHRATE_WINDOW) bs"
proof -
  let ?c = "now - HASHRATE_WINDOW"
  define all where "all = replicate NUM_BUCKETS (epoch, 0 :: u64) @ bs"
  have sp: "spaced bs" and un: "unrolled w = drop (length bs) all"
    using assms(1) by (auto simp: holds_history_def all_def last_n_def)
  have "s = 0" if "(t, s) \<in> set (take (length bs) all)" "?c \<le> t" for t s
  proof -
    from that(1) obtain i where i: "i < length bs" "all ! i = (t, s)"
      unfolding in_set_conv_nth by (auto simp del: append_take_drop_id)
    show ?thesis
    proof (cases "i < NUM_BUCKETS")
      case False
      then have "bs ! (i - NUM_BUCKETS) = (t, s)" using i(2) by (simp add: all_def nth_append)
      with spaced_gap [OF sp, of "i - NUM_BUCKETS" NUM_BUCKETS] False i(1)
      have "t + HASHRATE_WINDOW \<le> fst (bs ! i)"
        by (simp add: NUM_BUCKETS_def BUCKET_def HASHRATE_WINDOW_def)
      moreover have "fst (bs ! i) < now" using assms(2) nth_mem [OF i(1)] by fastforce
      ultimately show ?thesis using that(2) by simp
    qed (use i(2) in \<open>simp add: all_def nth_append\<close>)
  qed
  then have "window_total ?c (take (length bs) all) = 0" by (rule window_total_zero)
  moreover have "window_total ?c all = window_total ?c (take (length bs) all) + window_total ?c (drop (length bs) all)"
    by (simp flip: window_total_append)
  ultimately have "window_total ?c (buckets w) = window_total ?c all"
    using un unrolled_mset [of ?c w] by simp
  also have "\<dots> = window_total ?c bs"
    unfolding all_def window_total_append
    using window_total_zero [of "replicate NUM_BUCKETS (epoch, 0)"] by simp
  finally show ?thesis .
qed

section \<open>The counters implement the history\<close>

definition mx_rel :: "int \<Rightarrow> Metrics \<Rightarrow> share_rec list \<Rightarrow> bool" where
  "mx_rel epoch m h \<longleftrightarrow> length (shards m) = 16 \<and> (\<forall>a. miner_snapshot a m = spec_snapshot a h) \<and>
     total_work m = spec_work h \<and> holds_history epoch (hashrate_window m) (spec_buckets h [])"

lemma spec_buckets_append:
  "spec_buckets (h @ [(a, d, now, ms)]) bs = put_bucket d now (spec_buckets h bs)"
  by (induction h bs rule: spec_buckets.induct) auto

lemma spec_buckets_nonempty:
  "spec_buckets h [] = [] \<Longrightarrow> h = []"
  by (cases h rule: rev_cases) (auto simp: spec_buckets_append put_bucket_def split: if_splits)

lemma put_bucket_starts:
  "fst ` set (put_bucket d now bs) \<subseteq> insert now (fst ` set bs)"
  by (cases bs rule: rev_cases) (auto simp: put_bucket_def)

lemma spec_buckets_starts:
  "fst ` set (spec_buckets h bs) \<subseteq> fst ` set bs \<union> (\<lambda>(_, _, t, _). t) ` set h"
proof (induction h bs rule: spec_buckets.induct)
  case (2 a d now ms h bs)
  then show ?case using put_bucket_starts [of d now bs] by auto
qed simp

lemma shard_of_bound: "shard_of a < 16"
  by (simp add: shard_of_def)

lemma snapshot_record_share:
  assumes "length (shards m) = 16"
  shows "miner_snapshot a (record_share b d now ms m) =
     (if a = b then Some \<lparr>st_work = st_work (stats_entry b m) + d, st_shares = st_shares (stats_entry b m) + 1,
                          st_last_share_ms = ms\<rparr>
      else miner_snapshot a m)"
  using assms shard_of_bound [of b]
  by (auto simp: miner_snapshot_def record_share_def Let_def nth_list_update)

lemma spec_snapshot_snoc:
  "spec_snapshot a (h @ [(b, d, now, ms)]) =
     (if a = b then Some (case spec_snapshot b h of
         None \<Rightarrow> \<lparr>st_work = d, st_shares = 1, st_last_share_ms = ms\<rparr>
       | Some s \<Rightarrow> \<lparr>st_work = st_work s + d, st_shares = st_shares s + 1, st_last_share_ms = ms\<rparr>)
      else spec_snapshot a h)"
  by (auto simp: spec_snapshot_def shares_of_def spec_work_def)

lemma mx_rel_new: "mx_rel (now - HASHRATE_WINDOW) (Metrics_new now) []"
proof -
  have "holds_history (now - HASHRATE_WINDOW) (WindowedHashrate_new now) []"
    by (simp add: holds_history_def spaced_def ring_ok_def WindowedHashrate_new_def
        unrolled_def last_n_def NUM_BUCKETS_def numeral_eq_Suc)
  then show ?thesis
    by (simp add: mx_rel_def Metrics_new_def miner_snapshot_def spec_snapshot_def shares_of_def
        total_work_def spec_work_def shard_of_bound)
qed

lemma mx_rel_step:
  assumes r: "mx_rel epoch m h" and t: "epoch + BUCKET \<le> now"
  shows "mx_rel epoch (record_share b d now ms m) (h @ [(b, d, now, ms)])"
proof -
  have l: "length (shards m) = 16" and s: "\<And>a. miner_snapshot a m = spec_snapshot a h"
    using r by (auto simp: mx_rel_def)
  have e: "stats_entry b m = (case spec_snapshot b h of None \<Rightarrow> stats_default | Some x \<Rightarrow> x)"
    using s [of b] by (simp add: stats_entry_def miner_snapshot_def split: option.splits)
  have "miner_snapshot a (record_share b d now ms m) = spec_snapshot a (h @ [(b, d, now, ms)])" for a
    unfolding snapshot_record_share [OF l] spec_snapshot_snoc e s
    by (simp add: stats_default_def split: option.splits)
  moreover have "holds_history epoch (hashrate_window (record_share b d now ms m)) (spec_buckets (h @ [(b, d, now, ms)]) [])"
    using r t observe_history [of epoch "hashrate_window m" "spec_buckets h []" now d]
    by (simp add: mx_rel_def record_share_def Let_def spec_buckets_append)
  ultimately show ?thesis
    using r by (simp add: mx_rel_def record_share_def Let_def total_work_def spec_work_def)
qed

lemma mx_rel_run:
  "mx_rel epoch m h \<Longrightarrow> \<forall>(_, _, t, _) \<in> set h2. epoch + BUCKET \<le> t \<Longrightarrow> mx_rel epoch (run_shares h2 m) (h @ h2)"
proof (induction h2 m arbitrary: h rule: run_shares.induct)
  case (2 a d now ms h2 m)
  have "mx_rel epoch (record_share a d now ms m) (h @ [(a, d, now, ms)])"
    by (rule mx_rel_step) (use 2 in auto)
  from 2(1) [OF this] 2(3) show ?case by simp
qed simp

text \<open>C27: the metrics implement the history of shares. After any sequence of \<open>record_share\<close>
  calls not earlier than the start, in any order of instants, the sharded counters show
  for every address exactly its share count, its work and its last wall-clock time,
  \<open>total_work\<close> is the sum of all difficulties, and at any later instant the
  24-slot ring reads the same hashrate as a log of buckets from which nothing is ever dropped.\<close>

theorem metrics_implement_history:
  assumes "\<forall>(_, _, t, _) \<in> set h. start \<le> t" and "\<forall>(_, _, t, _) \<in> set h. t < now"
  shows "miner_snapshot a (run_shares h (Metrics_new start)) = spec_snapshot a h \<and>
    total_work (run_shares h (Metrics_new start)) = spec_work h \<and>
    hashrate now (run_shares h (Metrics_new start)) = spec_hashrate now h"
proof -
  have "mx_rel (start - HASHRATE_WINDOW) (run_shares h (Metrics_new start)) ([] @ h)"
    by (rule mx_rel_run [OF mx_rel_new]) (use assms(1) in \<open>fastforce simp: HASHRATE_WINDOW_def BUCKET_def\<close>)
  then have r: "mx_rel (start - HASHRATE_WINDOW) (run_shares h (Metrics_new start)) h" by simp
  have "\<forall>(t, s) \<in> set (spec_buckets h []). t < now"
    using spec_buckets_starts [of h "[]"] assms(2) by fastforce
  with r show ?thesis
    by (auto simp: mx_rel_def hashrate_def window_read_def spec_hashrate_def ring_read)
qed

theorem metrics_implement_history_witness:
  "hashrate 9000000000 (run_shares [([7], 600, 0, 1), ([7], 600, 8000000000, 2)] (Metrics_new 0)) = f64_of_int 10
   \<and> spec_hashrate 9000000000 [([7], 600, 0, 1), ([7], 600, 8000000000, 2)] = f64_of_int 10"
proof -
  have "spec_hashrate 9000000000 [([7], 600, 0, 1), ([7], 600, 8000000000, 2)] = f64_of_int 10" by code_simp
  with metrics_implement_history [of "[([7], 600, 0, 1), ([7], 600, 8000000000, 2)]" 0 9000000000 "[7]"]
  show ?thesis by simp
qed

end
