(* ===== verification/Voucher.thy ===== *)
theory Voucher
  imports Decimal Hex Store Token Rates Share Metrics
begin

text \<open>
  The credit path: \<open>accountant\<close> (\<open>credit\<close>), \<open>pool-core/src/voucher.rs\<close> (\<open>decide\<close>) and the
  voucher service of \<open>voucher-signer\<close>. The EIP-712 signature is a parameter: \<open>sign\<close> answers
  with the bytes or fails, \<open>parse_sig\<close> accepts raw bytes and \<open>recover\<close> is the one
  of the token. Reading \<open>claimed\<close> from the chain gives an optional reply.
\<close>

section \<open>Crediting a share\<close>

definition into_array :: "address \<Rightarrow> addr_bytes" where
  "into_array a = map (\<lambda>i. ucast (drop_bit (8 * (19 - i)) a)) [0..<20]"

definition credit_of :: "f64 \<Rightarrow> u64 \<Rightarrow> int" where
  "credit_of rate difficulty = f64_to_i64 (fmul rate (f64_of_word difficulty))"

text \<open>The result is \<open>None\<close> where a Redis error is returned.\<close>

definition credit ::
  "io \<Rightarrow> io \<Rightarrow> int \<Rightarrow> int \<Rightarrow> RateCache \<Rightarrow> address ShareAccepted \<Rightarrow> address Store \<times> Metrics \<Rightarrow>
   int option \<times> address Store \<times> Metrics" where
  "credit io1 io2 now ms rate share = (\<lambda>(s, mx).
     let c = credit_of (RateCache_get rate) (sa_difficulty share)
     in if c < 0 then (Some 0, s, mx)
        else let mx1 = record_share (into_array (sa_miner share)) (sa_difficulty share) now ms mx
             in if c = 0 then (Some 0, s, mx1)
                else case add_earned io1 (sa_miner share) c s of
                       (None, s1) \<Rightarrow> (None, s1, mx1)
                     | (Some _, s1) \<Rightarrow>
                         let fee = credit_of (fee_rate rate) (sa_difficulty share)
                         in if fee > 0 then
                              (case add_fee_accrued io2 fee s1 of
                                 (None, s2) \<Rightarrow> (None, s2, mx1)
                               | (Some _, s2) \<Rightarrow> (Some c, s2, mx1))
                            else (Some c, s1, mx1))"

section \<open>The voucher decision\<close>

record VoucherInputs =
  vi_earned_cumulative :: int
  vi_last_voucher_cumulative :: int
  vi_on_chain_claimed :: int
  vi_requested_amount :: "int option"

record VoucherDecision =
  vd_new_cumulative :: int
  vd_marginal :: int

datatype VoucherError = NonPositive | Insufficient int int | Empty

definition voucher_error_text :: "VoucherError \<Rightarrow> string" where
  "voucher_error_text e = (case e of
     NonPositive \<Rightarrow> ''amount must be positive''
   | Insufficient requested available \<Rightarrow>
       ''only '' @ show_int available @ '' available beyond prior vouchers/claims; requested '' @ show_int requested
   | Empty \<Rightarrow> ''nothing to issue: already covered by prior vouchers or claims'')"

definition decide :: "VoucherInputs \<Rightarrow> VoucherError + VoucherDecision" where
  "decide i =
     (let base = max (max (vi_last_voucher_cumulative i) (vi_on_chain_claimed i)) 0;
          earned = max (vi_earned_cumulative i) 0;
          available = i64_sat (earned - base)
      in if available \<le> 0 then Inl Empty
         else let amount = (case vi_requested_amount i of None \<Rightarrow> available | Some a \<Rightarrow> a)
              in if amount \<le> 0 then Inl NonPositive
                 else if amount > available then Inl (Insufficient amount available)
                 else Inr \<lparr>vd_new_cumulative = i64_wrap (base + amount), vd_marginal = amount\<rparr>)"

section \<open>The voucher service\<close>

definition u256_to_i64_or :: "u256 \<Rightarrow> int \<Rightarrow> int" where
  "u256_to_i64_or v fallback =
     (if drop_bit 64 v \<noteq> 0 then fallback else if uint v > i64_max then fallback else uint v)"

record StubClaimedReader =
  scr_fixed :: "address \<Rightarrow> u256 option"

definition StubClaimedReader_set :: "address \<Rightarrow> u256 \<Rightarrow> StubClaimedReader \<Rightarrow> StubClaimedReader" where
  "StubClaimedReader_set user v r = r\<lparr>scr_fixed := (scr_fixed r)(user := Some v)\<rparr>"

definition StubClaimedReader_read :: "address \<Rightarrow> StubClaimedReader \<Rightarrow> u256 option" where
  "StubClaimedReader_read user r = Some (case scr_fixed r user of Some v \<Rightarrow> v | None \<Rightarrow> 0)"

text \<open>The service without its store and reader, which the calls take as arguments. The
  last four fields are the third-party calls: address text and its parser, raw bytes of a
  signature, and signing (which records nothing; the token's \<open>recover\<close> is its inverse).\<close>

record Service =
  sv_signer :: address
  sv_recover :: "u8 list recover"
  sv_parse_sig :: "u8 list \<Rightarrow> bool"
  sv_fmt_address :: "address \<Rightarrow> string"
  sv_parse_address :: "string \<Rightarrow> string + address"
  sv_hex_encode :: hex_enc
  sv_hex_decode :: hex_dec
  sv_hex_error :: "FromHexError \<Rightarrow> string"

record VoucherOut =
  vo_user :: string
  vo_cumulative_amount :: string
  vo_marginal :: int
  vo_signed_at :: u64
  vo_signature :: string
  vo_earned_cumulative :: int
  vo_last_voucher_cumulative :: int
  vo_on_chain_claimed :: string

record StateOut =
  so_user :: string
  so_earned_cumulative :: int
  so_last_voucher_cumulative :: int
  so_on_chain_claimed :: string
  so_available_to_voucher :: int

datatype ServiceError = BadRequest string | Internal string

definition claimed_or_zero :: "u256 option \<Rightarrow> u256" where
  "claimed_or_zero r = (case r of Some v \<Rightarrow> v | None \<Rightarrow> 0)"

text \<open>The text of a Redis or signing error is an argument \<open>e\<close>.\<close>

definition state :: "Service \<Rightarrow> string \<Rightarrow> io \<Rightarrow> u256 option \<Rightarrow> address \<Rightarrow> address Store \<Rightarrow>
    (ServiceError + StateOut) \<times> address Store" where
  "state sv e io claimed_reply user s =
     (case balance_state io user s of
        (None, s1) \<Rightarrow> (Inl (Internal e), s1)
      | (Some st, s1) \<Rightarrow>
          let claimed = claimed_or_zero claimed_reply;
              claimed_i64 = u256_to_i64_or claimed i64_max;
              base = max (bs_last_voucher_cumulative st) claimed_i64;
              available = max (i64_wrap (bs_earned st - base)) 0
          in (Inr \<lparr>so_user = sv_fmt_address sv user, so_earned_cumulative = bs_earned st,
                   so_last_voucher_cumulative = bs_last_voucher_cumulative st,
                   so_on_chain_claimed = show_nat (uint claimed), so_available_to_voucher = available\<rparr>, s1))"

text \<open>\<open>issue\<close> holds the user's lock; \<open>sign\<close> is the signer's answer for this call. Besides the
  reply it gives the voucher that was signed, if one was.\<close>

definition issue :: "Service \<Rightarrow> string \<Rightarrow> io \<Rightarrow> u256 option \<Rightarrow> io \<Rightarrow> int \<Rightarrow> (address \<Rightarrow> u256 \<Rightarrow> u256 \<Rightarrow> u8 list option) \<Rightarrow>
    address \<Rightarrow> int option \<Rightarrow> address Store \<Rightarrow>
    (ServiceError + VoucherOut) \<times> (address \<times> u256 \<times> u256) option \<times> address Store" where
  "issue sv e io1 claimed_reply io2 timestamp sign user amount s =
     (case balance_state io1 user s of
        (None, s1) \<Rightarrow> (Inl (Internal e), None, s1)
      | (Some st, s1) \<Rightarrow>
          let claimed = claimed_or_zero claimed_reply;
              claimed_i64 = u256_to_i64_or claimed i64_max
          in case decide \<lparr>vi_earned_cumulative = bs_earned st,
                          vi_last_voucher_cumulative = bs_last_voucher_cumulative st,
                          vi_on_chain_claimed = claimed_i64, vi_requested_amount = amount\<rparr> of
               Inl err \<Rightarrow> (Inl (BadRequest (voucher_error_text err)), None, s1)
             | Inr d \<Rightarrow>
                 (case set_last_voucher_cumulative io2 user (vd_new_cumulative d) s1 of
                    (None, s2) \<Rightarrow> (Inl (Internal e), None, s2)
                  | (Some _, s2) \<Rightarrow>
                      let signed_at = word_of_int (max timestamp 0) :: u64;
                          cum = ucast (word_of_int (vd_new_cumulative d) :: u64) :: u256;
                          sec = ucast signed_at :: u256
                      in case sign user cum sec of
                           None \<Rightarrow> (Inl (Internal e), None, s2)
                         | Some sig \<Rightarrow>
                             (Inr \<lparr>vo_user = sv_fmt_address sv user,
                                vo_cumulative_amount = show_int (vd_new_cumulative d),
                                vo_marginal = vd_marginal d, vo_signed_at = signed_at,
                                vo_signature = ''0x'' @ sv_hex_encode sv sig,
                                vo_earned_cumulative = bs_earned st,
                                vo_last_voucher_cumulative = vd_new_cumulative d,
                                vo_on_chain_claimed = show_nat (uint claimed)\<rparr>,
                              Some (user, cum, sec), s2)))"

fun trim_start_0x :: "string \<Rightarrow> string" where
  "trim_start_0x (a # b # s) = (if a = CHR ''0'' \<and> b = CHR ''x'' then trim_start_0x s else a # b # s)"
| "trim_start_0x s = s"

definition restore :: "Service \<Rightarrow> string \<Rightarrow> io \<Rightarrow> io \<Rightarrow> u256 option \<Rightarrow> address \<Rightarrow> int \<Rightarrow> u64 \<Rightarrow> string \<Rightarrow> address Store \<Rightarrow>
    (ServiceError + StateOut) \<times> address Store" where
  "restore sv e io1 io2 claimed_reply user cumulative_amount signed_at signature s =
     (if cumulative_amount \<le> 0 then (Inl (BadRequest ''cumulative_amount must be positive''), s)
      else case sv_hex_decode sv (trim_start_0x (str_trim signature)) of
             Inl err \<Rightarrow> (Inl (BadRequest (''bad signature hex: '' @ sv_hex_error sv err)), s)
           | Inr raw \<Rightarrow>
               if \<not> sv_parse_sig sv raw then (Inl (BadRequest (''bad signature: '' @ e)), s)
               else case sv_recover sv user (ucast (word_of_int cumulative_amount :: u64)) (ucast signed_at) raw of
                      None \<Rightarrow> (Inl (BadRequest (''cannot recover signer: '' @ e)), s)
                    | Some recovered \<Rightarrow>
                        if recovered \<noteq> sv_signer sv
                        then (Inl (BadRequest ''voucher not signed by this pool's signer''), s)
                        else case restore_cumulative io1 user cumulative_amount s of
                               (None, s1) \<Rightarrow> (Inl (Internal e), s1)
                             | (Some _, s1) \<Rightarrow> state sv e io2 claimed_reply user s1)"

section \<open>The HTTP routes\<close>

record VoucherReq =
  vq_user :: string
  vq_amount :: "int option"

record RestoreReq =
  rq_user :: string
  rq_cumulative_amount :: string
  rq_signed_at :: u64
  rq_signature :: string

definition into_http :: "ServiceError \<Rightarrow> nat \<times> string" where
  "into_http e = (case e of BadRequest m \<Rightarrow> (400, m) | Internal m \<Rightarrow> (500, m))"

definition to_reply :: "ServiceError + 'a \<Rightarrow> (nat \<times> string) + 'a" where
  "to_reply r = (case r of Inl e \<Rightarrow> Inl (into_http e) | Inr x \<Rightarrow> Inr x)"

definition http_state :: "Service \<Rightarrow> string \<Rightarrow> io \<Rightarrow> u256 option \<Rightarrow> string \<Rightarrow> address Store \<Rightarrow>
    ((nat \<times> string) + StateOut) \<times> address Store" where
  "http_state sv e io claimed_reply addr s =
     (case sv_parse_address sv addr of
        Inl m \<Rightarrow> (Inl (400, m), s)
      | Inr user \<Rightarrow> (case state sv e io claimed_reply user s of (r, s1) \<Rightarrow> (to_reply r, s1)))"

definition http_issue :: "Service \<Rightarrow> string \<Rightarrow> io \<Rightarrow> u256 option \<Rightarrow> io \<Rightarrow> int \<Rightarrow>
    (address \<Rightarrow> u256 \<Rightarrow> u256 \<Rightarrow> u8 list option) \<Rightarrow> VoucherReq \<Rightarrow> address Store \<Rightarrow>
    ((nat \<times> string) + VoucherOut) \<times> (address \<times> u256 \<times> u256) option \<times> address Store" where
  "http_issue sv e io1 claimed_reply io2 timestamp sign r s =
     (case sv_parse_address sv (str_trim (vq_user r)) of
        Inl m \<Rightarrow> (Inl (400, m), None, s)
      | Inr user \<Rightarrow> (case issue sv e io1 claimed_reply io2 timestamp sign user (vq_amount r) s of
                      (x, v, s1) \<Rightarrow> (to_reply x, v, s1)))"

definition http_restore :: "Service \<Rightarrow> string \<Rightarrow> io \<Rightarrow> io \<Rightarrow> u256 option \<Rightarrow> RestoreReq \<Rightarrow> address Store \<Rightarrow>
    ((nat \<times> string) + StateOut) \<times> address Store" where
  "http_restore sv e io1 io2 claimed_reply r s =
     (case sv_parse_address sv (str_trim (rq_user r)) of
        Inl m \<Rightarrow> (Inl (400, m), s)
      | Inr user \<Rightarrow>
          case parse_i64 (str_trim (rq_cumulative_amount r)) of
            Inl err \<Rightarrow> (Inl (400, ''bad cumulative_amount: '' @ parse_int_error_text err), s)
          | Inr cumulative \<Rightarrow>
              (case restore sv e io1 io2 claimed_reply user cumulative (rq_signed_at r) (rq_signature r) s of
                 (x, s1) \<Rightarrow> (to_reply x, s1)))"

section \<open>What the service signs\<close>

lemma u256_to_i64_or_bounds:
  "uint v \<le> i64_max \<Longrightarrow> u256_to_i64_or v i64_max = uint v"
  "i64_max < uint v \<Longrightarrow> u256_to_i64_or v i64_max = i64_max"
proof -
  have d: "drop_bit 64 v = 0" if "uint v \<le> i64_max"
  proof -
    have "uint v < 2 ^ 64" using that by (simp add: i64_max_def)
    then have "unat v < 2 ^ 64" unfolding unat_eq_nat_uint nat_less_iff [OF uint_ge_0] by simp
    then have "unat (drop_bit 64 v) = 0" unfolding unat_drop_bit_eq by (simp add: drop_bit_eq_div)
    then show ?thesis by (simp only: unat_eq_0)
  qed
  show "uint v \<le> i64_max \<Longrightarrow> u256_to_i64_or v i64_max = uint v"
    using d by (simp add: u256_to_i64_or_def)
  show "i64_max < uint v \<Longrightarrow> u256_to_i64_or v i64_max = i64_max"
    by (simp add: u256_to_i64_or_def)
qed

lemma u256_to_i64_or_range:
  "0 \<le> u256_to_i64_or v i64_max" "u256_to_i64_or v i64_max \<le> i64_max"
  using u256_to_i64_or_bounds [of v] uint_ge_0 [of v] by (cases "uint v \<le> i64_max"; simp add: i64_max_def)+

lemma below_claimed:
  "u256_to_i64_or v i64_max < c \<Longrightarrow> c \<le> i64_max \<Longrightarrow> uint v < c"
  using u256_to_i64_or_bounds [of v] by (cases "uint v \<le> i64_max") auto

text \<open>The base, what is available over it and what a request asks for.\<close>

definition voucher_base :: "u256 option \<Rightarrow> address \<Rightarrow> address Store \<Rightarrow> int" where
  "voucher_base reply user s =
     max (max (or_zero (st_last_voucher s user)) (u256_to_i64_or (claimed_or_zero reply) i64_max)) 0"

definition voucher_available :: "u256 option \<Rightarrow> address \<Rightarrow> address Store \<Rightarrow> int" where
  "voucher_available reply user s = or_zero (st_earned s user) - voucher_base reply user s"

definition voucher_amount :: "u256 option \<Rightarrow> address \<Rightarrow> int option \<Rightarrow> address Store \<Rightarrow> int" where
  "voucher_amount reply user amount s =
     (case amount of None \<Rightarrow> voucher_available reply user s | Some a \<Rightarrow> a)"

definition grants :: "u256 option \<Rightarrow> address \<Rightarrow> int option \<Rightarrow> address Store \<Rightarrow> bool" where
  "grants reply user amount s \<longleftrightarrow> 0 < voucher_amount reply user amount s \<and>
     voucher_amount reply user amount s \<le> voucher_available reply user s"

definition cum_word :: "int \<Rightarrow> u256" where
  "cum_word n = ucast (word_of_int n :: u64)"

lemma uint_cum_word: "0 \<le> n \<Longrightarrow> in_i64 n \<Longrightarrow> uint (cum_word n) = n"
proof -
  assume n: "0 \<le> n" "in_i64 n"
  then have "uint (word_of_int n :: u64) = n"
    by (simp add: uint_word_of_int in_i64_def i64_max_def)
  with n show ?thesis by (simp add: cum_word_def unsigned_ucast_eq in_i64_def i64_max_def take_bit_int_eq_self)
qed

lemma voucher_base_nonneg: "0 \<le> voucher_base reply user s"
  by (simp add: voucher_base_def)

lemma decide_store:
  assumes "in_i64 (or_zero (st_earned s user))"
  shows "decide \<lparr>vi_earned_cumulative = or_zero (st_earned s user),
                 vi_last_voucher_cumulative = or_zero (st_last_voucher s user),
                 vi_on_chain_claimed = u256_to_i64_or (claimed_or_zero reply) i64_max,
                 vi_requested_amount = amount\<rparr> =
    (if grants reply user amount s
     then Inr \<lparr>vd_new_cumulative = voucher_base reply user s + voucher_amount reply user amount s,
               vd_marginal = voucher_amount reply user amount s\<rparr>
     else if voucher_available reply user s \<le> 0 then Inl Empty
     else if voucher_amount reply user amount s \<le> 0 then Inl NonPositive
     else Inl (Insufficient (voucher_amount reply user amount s) (voucher_available reply user s)))"
proof -
  define b where "b = voucher_base reply user s"
  define e where "e = or_zero (st_earned s user)"
  have b: "0 \<le> b" by (simp add: b_def voucher_base_nonneg)
  have e: "in_i64 e" using assms by (simp add: e_def)
  have sat: "i64_sat (max e 0 - b) = max e 0 - b" if "0 < max e 0 - b"
    using that e b by (simp add: i64_sat_def in_i64_def i64_min_def)
  have nsat: "i64_sat (max e 0 - b) \<le> 0" if "max e 0 - b \<le> 0"
    using that by (auto simp: i64_sat_def i64_max_def i64_min_def)
  have wr: "i64_wrap (b + a) = b + a" if "0 < a" "a \<le> e - b" for a
    using that e b by (intro i64_wrap_id) (simp add: in_i64_def i64_min_def)
  show ?thesis
  proof (cases "e - b \<le> 0")
    case True
    then have "max e 0 - b \<le> 0" using b by simp
    with True nsat show ?thesis
      by (auto simp: decide_def Let_def grants_def voucher_available_def b_def e_def voucher_base_def)
  next
    case False
    then have m: "max e 0 = e" "0 < e - b" using b by simp_all
    then show ?thesis using sat wr
      unfolding decide_def grants_def voucher_amount_def voucher_available_def voucher_base_def [symmetric]
        e_def [symmetric] b_def [symmetric]
      by (auto simp: Let_def voucher_base_def [symmetric] e_def [symmetric] b_def [symmetric] split: option.splits)
  qed
qed

lemma balance_state_eq:
  "balance_state io user s =
     ((if io = IoOk then Some \<lparr>bs_earned = or_zero (st_earned s user),
         bs_last_voucher_cumulative = or_zero (st_last_voucher s user)\<rparr> else None), s)"
  by (cases io) (simp_all add: balance_state_def round_trip_def)

definition with_last :: "address \<Rightarrow> int \<Rightarrow> address Store \<Rightarrow> address Store" where
  "with_last user v s = s\<lparr>st_last_voucher := (st_last_voucher s)(user := Some v)\<rparr>"

lemma set_last_eq:
  "set_last_voucher_cumulative io user v s =
     ((if io = IoOk then Some () else None), (if io = IoFail then s else with_last user v s))"
  by (cases io) (simp_all add: set_last_voucher_cumulative_def round_trip_def with_last_def)

lemma issue_eq:
  assumes "in_i64 (or_zero (st_earned s user))"
  shows "issue sv e io1 reply io2 ts sign user amount s =
    (let c = voucher_base reply user s + voucher_amount reply user amount s;
         at' = word_of_int (max ts 0) :: u64
     in if io1 \<noteq> IoOk then (Inl (Internal e), None, s)
        else if grants reply user amount s then
          (if io2 \<noteq> IoOk then (Inl (Internal e), None, if io2 = IoFail then s else with_last user c s)
           else case sign user (cum_word c) (ucast at') of
                  None \<Rightarrow> (Inl (Internal e), None, with_last user c s)
                | Some sig \<Rightarrow>
                    (Inr \<lparr>vo_user = sv_fmt_address sv user, vo_cumulative_amount = show_int c,
                       vo_marginal = voucher_amount reply user amount s, vo_signed_at = at',
                       vo_signature = ''0x'' @ sv_hex_encode sv sig,
                       vo_earned_cumulative = or_zero (st_earned s user), vo_last_voucher_cumulative = c,
                       vo_on_chain_claimed = show_nat (uint (claimed_or_zero reply))\<rparr>,
                     Some (user, cum_word c, ucast at'), with_last user c s))
        else (Inl (BadRequest (voucher_error_text
               (if voucher_available reply user s \<le> 0 then Empty
                else if voucher_amount reply user amount s \<le> 0 then NonPositive
                else Insufficient (voucher_amount reply user amount s) (voucher_available reply user s)))), None, s))"
proof (cases "io1 = IoOk \<and> grants reply user amount s")
  case True
  define c where "c = voucher_base reply user s + voucher_amount reply user amount s"
  have d: "decide \<lparr>vi_earned_cumulative = or_zero (st_earned s user),
      vi_last_voucher_cumulative = or_zero (st_last_voucher s user),
      vi_on_chain_claimed = u256_to_i64_or (claimed_or_zero reply) i64_max, vi_requested_amount = amount\<rparr> =
      Inr \<lparr>vd_new_cumulative = c, vd_marginal = voucher_amount reply user amount s\<rparr>"
    using decide_store [OF assms, of reply amount] True by (simp add: c_def)
  show ?thesis
    unfolding issue_def balance_state_eq cum_word_def [symmetric] Let_def c_def [symmetric] set_last_eq
    using True d by (cases io2) (simp_all split: option.split)
next
  case False
  then show ?thesis
    unfolding issue_def balance_state_eq using decide_store [OF assms, of reply amount]
    by (cases "io1 = IoOk") (simp_all add: Let_def)
qed

lemma grants_bounds:
  assumes "grants reply user amount s" "in_i64 (or_zero (st_earned s user))"
  defines "c \<equiv> voucher_base reply user s + voucher_amount reply user amount s"
  shows "0 < c" "c \<le> or_zero (st_earned s user)" "or_zero (st_last_voucher s user) < c"
    "uint (claimed_or_zero reply) < c" "uint (cum_word c) = c"
proof -
  have b: "0 \<le> voucher_base reply user s" "or_zero (st_last_voucher s user) \<le> voucher_base reply user s"
    "u256_to_i64_or (claimed_or_zero reply) i64_max \<le> voucher_base reply user s"
    by (auto simp: voucher_base_def)
  show p: "0 < c" "c \<le> or_zero (st_earned s user)" "or_zero (st_last_voucher s user) < c"
    using assms(1) b by (simp_all add: grants_def voucher_available_def c_def)
  have i: "in_i64 c" using p assms(2) by (simp add: in_i64_def i64_min_def)
  show "uint (claimed_or_zero reply) < c"
    using b(3) assms(1) i by (intro below_claimed) (auto simp: grants_def c_def in_i64_def)
  show "uint (cum_word c) = c" using p(1) i by (intro uint_cum_word) auto
qed

text \<open>C28: the voucher service never over-signs. A call signs a voucher exactly when the
  store answers both times, the request is positive and within what the miner has earned beyond the
  last voucher and the claim on chain, and the signer answers. The voucher is for that
  miner, its cumulative amount is the base plus the request, above every earlier voucher on record
  and above the claim read, never above the earned total; the amount was
  recorded as the last voucher before the signature left, and no other balance changes.\<close>

theorem issue_sound:
  assumes "in_i64 (or_zero (st_earned s user))"
    and "issue sv e io1 reply io2 ts sign user amount s = (r, v, s')"
  shows "(v \<noteq> None \<longleftrightarrow> io1 = IoOk \<and> io2 = IoOk \<and> grants reply user amount s \<and>
        sign user (cum_word (voucher_base reply user s + voucher_amount reply user amount s))
          (ucast (word_of_int (max ts 0) :: u64)) \<noteq> None) \<and>
    (isl r \<longleftrightarrow> v = None) \<and>
    (\<forall>u cum sec. v = Some (u, cum, sec) \<longrightarrow> u = user \<and>
        uint cum = voucher_base reply user s + voucher_amount reply user amount s \<and>
        uint cum \<le> or_zero (st_earned s user) \<and> or_zero (st_last_voucher s user) < uint cum \<and>
        claimed_or_zero reply < cum \<and> st_last_voucher s' user = Some (uint cum)) \<and>
    st_earned s' = st_earned s \<and> (\<forall>u. u \<noteq> user \<longrightarrow> st_last_voucher s' u = st_last_voucher s u)"
proof -
  define c where "c = voucher_base reply user s + voucher_amount reply user amount s"
  define k where "k = sign user (cum_word c) (ucast (word_of_int (max ts 0) :: u64))"
  have eq: "r = fst (issue sv e io1 reply io2 ts sign user amount s)"
    "v = fst (snd (issue sv e io1 reply io2 ts sign user amount s))"
    "s' = snd (snd (issue sv e io1 reply io2 ts sign user amount s))" using assms(2) by simp_all
  show ?thesis
  proof (cases "grants reply user amount s")
    case True
    note g = grants_bounds [OF True assms(1), folded c_def]
    have "claimed_or_zero reply < cum_word c" using g(4,5) by (simp add: word_less_alt)
    with True g show ?thesis
      unfolding eq issue_eq [OF assms(1)] Let_def c_def [symmetric] k_def [symmetric]
      by (cases io1; cases io2; cases k) (simp_all add: with_last_def)
  next
    case False
    then show ?thesis
      unfolding eq issue_eq [OF assms(1)] Let_def by (cases "io1 = IoOk") simp_all
  qed
qed

section \<open>Demonstration service\<close>

definition demo_sig :: "address \<Rightarrow> u256 \<Rightarrow> u256 \<Rightarrow> u8 list" where
  "demo_sig u c t = [ucast u, ucast c, ucast t]"

definition demo_service :: Service where
  "demo_service = \<lparr>sv_signer = 1,
     sv_recover = (\<lambda>u c t sig. if sig = demo_sig u c t then Some 1 else None),
     sv_parse_sig = (\<lambda>b. length b = 3),
     sv_fmt_address = (\<lambda>u. ''0x'' @ concat (map fmt_02x (into_array u))),
     sv_parse_address = (\<lambda>s. case hex_decode (drop 2 s) of
        Inr bs \<Rightarrow> Inr (word_of_int (le_int (rev bs))) | Inl _ \<Rightarrow> Inl ''invalid string length''),
     sv_hex_encode = hex_encode, sv_hex_decode = hex_decode, sv_hex_error = (\<lambda>_. ''odd number of digits'')\<rparr>"

definition demo_store :: "address Store" where
  "demo_store = empty_store\<lparr>st_earned := [7 \<mapsto> 1000], st_last_voucher := [7 \<mapsto> 300]\<rparr>"

theorem issue_sound_witness:
  "\<exists>r s'. issue demo_service ''io'' IoOk (Some 400) IoOk 1700000000 (\<lambda>u c t. Some (demo_sig u c t)) 7 (Some 250) demo_store =
     (r, Some (7, 650, 1700000000), s') \<and> st_last_voucher s' 7 = Some 650 \<and> \<not> isl r"
proof -
  obtain r v s' where eq: "issue demo_service ''io'' IoOk (Some 400) IoOk 1700000000
      (\<lambda>u c t. Some (demo_sig u c t)) 7 (Some 250) demo_store = (r, v, s')"
    by (metis prod_cases3)
  have e: "in_i64 (or_zero (st_earned demo_store 7))" by code_simp
  have g: "voucher_base (Some 400) 7 demo_store = 400" "grants (Some 400) 7 (Some 250) demo_store" by code_simp+
  have "fst (snd (issue demo_service ''io'' IoOk (Some 400) IoOk 1700000000
      (\<lambda>u c t. Some (demo_sig u c t)) 7 (Some 250) demo_store)) = Some (7, 650, 1700000000)" by code_simp
  then have v: "v = Some (7, 650, 1700000000)" unfolding eq by simp
  from issue_sound [OF e eq] v have "st_last_voucher s' 7 = Some (uint (650 :: u256))" "\<not> isl r" by auto
  with eq v show ?thesis by simp
qed

section \<open>A voucher restores the balance it stands for\<close>

lemma hex_printable: "\<forall>c\<in>set (concat (map fmt_02x bs)). printable c \<and> c \<noteq> CHR ''x''"
proof -
  have d: "printable (hex_digit n) \<and> hex_digit n \<noteq> CHR ''x''" if "n < 16" for n
    using that hex_digit_code [OF that] char_eq_nat [of "hex_digit n" "CHR ''x''"]
    by (simp add: printable_def)
  show ?thesis
  proof (induction bs)
    case (Cons b bs)
    then show ?case using d [of "unat b div 16"] d [of "unat b mod 16"] unat_div16 [of b]
      by (simp add: fmt_02x_def)
  qed simp
qed

lemma signature_text: "trim_start_0x (str_trim (''0x'' @ concat (map fmt_02x bs))) = concat (map fmt_02x bs)"
proof -
  have "\<forall>c\<in>set (''0x'' @ concat (map fmt_02x bs)). printable c"
    using hex_printable [of bs] by (simp add: printable_def)
  then have "str_trim (''0x'' @ concat (map fmt_02x bs)) = ''0x'' @ concat (map fmt_02x bs)"
    by (rule str_trim_printable)
  moreover have "trim_start_0x s = s" if "\<forall>c\<in>set s. c \<noteq> CHR ''x''" for s
    using that by (cases s rule: trim_start_0x.cases) auto
  ultimately show ?thesis using hex_printable [of bs] by simp
qed

lemma show_int_printable: "\<forall>c\<in>set (show_int n). printable c"
proof -
  have "printable (digit_char d)" if "0 \<le> d" "d \<le> 9" for d
  proof -
    have "digit_value (digit_char d) = Some d" using that by simp
    then have "48 \<le> (of_char (digit_char d) :: int)" "(of_char (digit_char d) :: int) \<le> 57"
      by (auto simp: digit_value_def Let_def split: if_splits)
    moreover have "int (of_char (digit_char d)) = of_char (digit_char d)" by (rule of_nat_of_char)
    ultimately show ?thesis unfolding printable_def by linarith
  qed
  then have "\<forall>c\<in>set (show_nat m). printable c" for m using show_nat_digits [of _ m] by auto
  then show ?thesis by (simp add: show_int_def printable_def)
qed

lemma issue_Inr:
  assumes "in_i64 (or_zero (st_earned s user))"
    and "issue sv e io1 reply io2 ts sign user amount s = (Inr out, v, s')"
  defines "c \<equiv> voucher_base reply user s + voucher_amount reply user amount s"
  obtains sig where "grants reply user amount s"
    "sign user (cum_word c) (ucast (word_of_int (max ts 0) :: u64)) = Some sig"
    "vo_user out = sv_fmt_address sv user" "vo_cumulative_amount out = show_int c"
    "vo_signed_at out = word_of_int (max ts 0)"
    "vo_signature out = ''0x'' @ sv_hex_encode sv sig" "vo_last_voucher_cumulative out = c"
  using assms(2) unfolding issue_eq [OF assms(1)] Let_def c_def
  by (auto split: if_splits option.splits)

text \<open>C29: a voucher is proof of the balance. The reply of \<open>/voucher\<close>, posted unchanged to
  \<open>/restore\<close> of a pool with the same signing key and any store, is accepted, and raises
  the miner's earned total and last voucher to at least the voucher's cumulative amount, and lowers
  neither, as long as the amounts are at most \<open>2 ^ 53\<close>. Assumed of the third-party
  calls: hex is a codec, printed addresses parse, signatures recover the signer.\<close>

theorem voucher_restores_balance:
  assumes sv: "sv_hex_encode sv = enc" "sv_hex_decode sv = dec" and codec: "hex_codec enc dec"
    and addr: "sv_parse_address sv (str_trim (sv_fmt_address sv user)) = Inr user"
    and sig: "\<forall>u c t b. sign u c t = Some b \<longrightarrow> sv_parse_sig sv b \<and> sv_recover sv u c t b = Some (sv_signer sv)"
    and user: "sv_parse_address sv (str_trim (vq_user req)) = Inr user"
    and exact: "\<bar>or_zero (st_earned s user)\<bar> \<le> 2 ^ 53" "\<bar>or_zero (st_earned s2 user)\<bar> \<le> 2 ^ 53"
      "\<bar>or_zero (st_last_voucher s2 user)\<bar> \<le> 2 ^ 53"
    and out: "http_issue sv e io1 reply io2 ts sign req s = (Inr out, v, s')"
  shows "\<exists>st s3. http_restore sv e IoOk IoOk reply2
      \<lparr>rq_user = vo_user out, rq_cumulative_amount = vo_cumulative_amount out,
       rq_signed_at = vo_signed_at out, rq_signature = vo_signature out\<rparr> s2 = (Inr st, s3) \<and>
    so_user st = vo_user out \<and>
    so_earned_cumulative st = max (or_zero (st_earned s2 user)) (vo_last_voucher_cumulative out) \<and>
    so_last_voucher_cumulative st = max (or_zero (st_last_voucher s2 user)) (vo_last_voucher_cumulative out)"
proof -
  have i: "in_i64 (or_zero (st_earned s user))"
    using exact(1) by (auto simp: in_i64_def i64_max_def i64_min_def)
  define c where "c = voucher_base reply user s + voucher_amount reply user (vq_amount req) s"
  let ?sec = "word_of_int (max ts 0) :: u64"
  have "issue sv e io1 reply io2 ts sign user (vq_amount req) s = (Inr out, v, s')"
    using out user by (auto simp: http_issue_def to_reply_def split: prod.splits sum.splits)
  from issue_Inr [OF i this, folded c_def]
  obtain b where b: "grants reply user (vq_amount req) s" "sign user (cum_word c) (ucast ?sec) = Some b"
    "vo_user out = sv_fmt_address sv user" "vo_cumulative_amount out = show_int c" "vo_signed_at out = ?sec"
    "vo_signature out = ''0x'' @ enc b" "vo_last_voucher_cumulative out = c"
    using sv(1) by blast
  note g = grants_bounds [OF b(1) i, folded c_def]
  have cb: "in_i64 c" "\<bar>c\<bar> \<le> 2 ^ 53" using g(1,2) exact(1) by (simp_all add: in_i64_def i64_max_def i64_min_def)
  have e: "enc b = concat (map fmt_02x b)" "dec (enc b) = Inr b"
    using codec by (auto simp: hex_codec_def concat_fmt_lower)
  have "restore sv e IoOk IoOk reply2 user c ?sec (''0x'' @ enc b) s2 =
      state sv e IoOk reply2 user (snd (restore_cumulative IoOk user c s2))"
    using g(1) sig b(2) e signature_text [of b]
    by (simp add: restore_def sv cum_word_def restore_cumulative_def round_trip_def Let_def)
  moreover have "parse_i64 (str_trim (show_int c)) = Inr c"
    using str_trim_printable [OF show_int_printable] parse_show_int [OF cb(1)] by simp
  ultimately show ?thesis
    using addr cb exact by (simp add: http_restore_def b to_reply_def state_def balance_state_eq Let_def
        restore_cumulative_def round_trip_def or_zero_def lua_num_exact max_def)
qed

theorem voucher_restores_balance_witness:
  "\<exists>out v s' st s3.
     http_issue demo_service ''io'' IoOk None IoOk 1700000000 (\<lambda>u c t. Some (demo_sig u c t))
       \<lparr>vq_user = '' 0x0000000000000000000000000000000000000007 '', vq_amount = None\<rparr> demo_store = (Inr out, v, s') \<and>
     http_restore demo_service ''io'' IoOk IoOk None
       \<lparr>rq_user = vo_user out, rq_cumulative_amount = vo_cumulative_amount out,
        rq_signed_at = vo_signed_at out, rq_signature = vo_signature out\<rparr> empty_store = (Inr st, s3) \<and>
     so_earned_cumulative st = 1000 \<and> so_last_voucher_cumulative st = 1000"
proof -
  let ?sign = "\<lambda>u c t. Some (demo_sig u c t)"
  let ?req = "\<lparr>vq_user = '' 0x0000000000000000000000000000000000000007 '', vq_amount = None\<rparr>"
  obtain r v s' where eq: "http_issue demo_service ''io'' IoOk None IoOk 1700000000 ?sign ?req demo_store = (r, v, s')"
    by (metis prod_cases3)
  have "case fst (http_issue demo_service ''io'' IoOk None IoOk 1700000000 ?sign ?req demo_store) of
      Inl _ \<Rightarrow> False | Inr o1 \<Rightarrow> vo_last_voucher_cumulative o1 = 1000" by code_simp
  then obtain out where out: "r = Inr out" "vo_last_voucher_cumulative out = 1000"
    by (auto simp: eq split: sum.splits)
  have sv: "sv_hex_encode demo_service = hex_encode" "sv_hex_decode demo_service = hex_decode"
    by (simp_all add: demo_service_def)
  have addr: "sv_parse_address demo_service (str_trim (sv_fmt_address demo_service 7)) = Inr 7"
    "sv_parse_address demo_service (str_trim (vq_user ?req)) = Inr 7" by code_simp+
  have sig: "\<forall>u c t b. ?sign u c t = Some b \<longrightarrow> sv_parse_sig demo_service b \<and>
      sv_recover demo_service u c t b = Some (sv_signer demo_service)"
    by (simp add: demo_service_def demo_sig_def)
  have ex: "\<bar>or_zero (st_earned demo_store 7)\<bar> \<le> 2 ^ 53" "\<bar>or_zero (st_earned (empty_store :: address Store) 7)\<bar> \<le> 2 ^ 53"
    "\<bar>or_zero (st_last_voucher (empty_store :: address Store) 7)\<bar> \<le> 2 ^ 53"
    "or_zero (st_earned (empty_store :: address Store) 7) = 0"
    "or_zero (st_last_voucher (empty_store :: address Store) 7) = 0"
    by (simp_all add: demo_store_def empty_store_def or_zero_def)
  from voucher_restores_balance [OF sv ref_hex.hex_codec_axioms addr(1) sig addr(2) ex(1,2,3)
      eq [unfolded out(1)], of None] eq out ex(4,5)
  show ?thesis by (simp add: max_def) blast
qed

end
