(* ===== verification/Fee_Swap.thy ===== *)
theory Fee_Swap
  imports Rates Store Token Json Hex
begin

text \<open>
  \<open>redemption-watcher/src/fee_swap.rs\<close>: the task that mints the accrued pool fee and sells
  it for rent, and the controller of the adaptive fee. Chain reads, the signer and
  rofl-appd are the environment of one tick; the calls a tick makes are logged.
\<close>

section \<open>Sizing a swap\<close>

definition u256_to_u128 :: "u256 \<Rightarrow> u128" where
  "u256_to_u128 v = (if drop_bit 128 v \<noteq> 0 then - 1 else ucast v)"

definition mintable_fee :: "u128 \<Rightarrow> u128 \<Rightarrow> u128 \<Rightarrow> f64 \<Rightarrow> u64 \<Rightarrow> u64" where
  "mintable_fee unlocked supply pending ratio0 max_swap =
     (let ratio = fmax ratio0 (Fin 1);
          required = fmul (f64_of_word (supply + pending)) ratio;
          surplus = fsub (f64_of_word unlocked) required
      in if fle surplus (Fin 0) then 0
         else f64_to_word (fmax (fmin (ffloor (fdiv surplus ratio)) (f64_of_word max_swap)) (Fin 0)))"

definition swap_delta_atomic :: "u128 \<Rightarrow> u128 \<Rightarrow> u64 \<Rightarrow> u64 option \<Rightarrow> u64" where
  "swap_delta_atomic accrued already_minted max_swap wallet_cap =
     (if accrued \<le> already_minted then 0
      else let delta = min (accrued - already_minted) (ucast max_swap);
               delta1 = (case wallet_cap of Some cap \<Rightarrow> min delta (ucast cap) | None \<Rightarrow> delta)
           in ucast delta1)"

section \<open>One tick\<close>

record FeeSwapConfig =
  fs_rent_floor_wei :: string
  fs_min_swap_atomic :: u64
  fs_max_swap_atomic :: u64
  fs_slippage_bps :: u64
  fs_check_interval_secs :: u64
  fs_jitter_secs :: u64
  fs_min_swap_gas_multiple :: u64

record FeeSwapTask =
  ft_token :: address
  ft_fee_swapper :: address
  ft_reserve_ratio :: f64
  ft_cfg :: FeeSwapConfig
  ft_parse_u256 :: "string \<Rightarrow> u256 option"

record FeeSwapEnv =
  fe_reservoir :: "address option"
  fe_balance :: "address \<Rightarrow> u256 option"
  fe_claimed :: "address \<Rightarrow> u256 option"
  fe_accrued_io :: io
  fe_snapshot_io :: io
  fe_quote :: "u64 \<Rightarrow> u256 option"
  fe_gas_price :: "u128 option"
  fe_now_sign :: int
  fe_now_claim :: int
  fe_now_swap :: int
  fe_sign :: "address \<Rightarrow> u256 \<Rightarrow> u256 \<Rightarrow> u8 list option"
  fe_claim_reply :: "string option"
  fe_swap_reply :: "string option"

datatype app_call =
    Signed address u256 u256
  | ClaimCall address u256 u256 "u8 list"
  | SwapCall u256 u256 u256

definition now_secs :: "int \<Rightarrow> u64" where
  "now_secs ts = word_of_int (max ts 0)"

text \<open>A call failed when appd did not answer or its reply has an error field.\<close>

definition send_ok :: "string option \<Rightarrow> bool" where
  "send_ok reply = (case reply of None \<Rightarrow> False | Some r \<Rightarrow> \<not> str_contains r ''\"error\"'')"

definition wallet_cap :: "FeeSwapTask \<Rightarrow> TreasurySnapshot option \<Rightarrow> u64 option" where
  "wallet_cap task snap =
     (case snap of
        Some sn \<Rightarrow> if monero_unlocked_atomic sn > 0
                   then Some (mintable_fee (monero_unlocked_atomic sn) (mining_pool_token_total_supply sn) (pending_redemptions_atomic sn)
                                (ft_reserve_ratio task) (fs_max_swap_atomic (ft_cfg task)))
                   else None
      | None \<Rightarrow> None)"

definition swap_min_out :: "FeeSwapConfig \<Rightarrow> u128 \<Rightarrow> u128" where
  "swap_min_out cfg quote = quote * ucast (10000 - fs_slippage_bps cfg) div 10000"

definition swap_gas_floor :: "FeeSwapConfig \<Rightarrow> u128 \<Rightarrow> u128" where
  "swap_gas_floor cfg gas_price =
     sat_mul (sat_mul gas_price 600000) (ucast (max (fs_min_swap_gas_multiple cfg) 1))"

text \<open>Minting and selling, once the amount and the least proceeds are fixed.\<close>

definition mint_and_swap :: "FeeSwapTask \<Rightarrow> FeeSwapEnv \<Rightarrow> u256 \<Rightarrow> u64 \<Rightarrow> u128 \<Rightarrow>
    (string + (u64 \<times> u128) option) \<times> app_call list" where
  "mint_and_swap task ev prev delta min_out =
     (let new_cum = prev + ucast delta;
          sec = ucast (now_secs (fe_now_sign ev))
      in case fe_sign ev (ft_fee_swapper task) new_cum sec of
           None \<Rightarrow> (Inl ''sign voucher'', [])
         | Some sig \<Rightarrow>
             let log1 = [Signed (ft_fee_swapper task) new_cum sec,
                         ClaimCall (ft_fee_swapper task) new_cum (ucast (now_secs (fe_now_claim ev))) sig]
             in if \<not> send_ok (fe_claim_reply ev) then (Inl ''claim fee-MPT'', log1)
                else let log2 = log1 @ [SwapCall (ucast delta) (ucast min_out)
                                          (ucast (now_secs (fe_now_swap ev) + 300))]
                     in if \<not> send_ok (fe_swap_reply ev) then (Inl ''swapFeeToRose'', log2)
                        else (Inr (Some (delta, min_out)), log2))"

definition swap_priced :: "FeeSwapTask \<Rightarrow> FeeSwapEnv \<Rightarrow> u256 \<Rightarrow> u64 \<Rightarrow>
    (string + (u64 \<times> u128) option) \<times> app_call list" where
  "swap_priced task ev prev delta =
     (if delta < fs_min_swap_atomic (ft_cfg task) then (Inr None, [])
      else case fe_quote ev delta of
             None \<Rightarrow> (Inl ''quote'', [])
           | Some q \<Rightarrow>
               let quote = u256_to_u128 q
               in if quote = 0 then (Inr None, [])
                  else let min_out = swap_min_out (ft_cfg task) quote
                       in case fe_gas_price ev of
                            None \<Rightarrow> (Inl ''eth_gasPrice'', [])
                          | Some gas_price \<Rightarrow>
                              if min_out < swap_gas_floor (ft_cfg task) gas_price then (Inr None, [])
                              else mint_and_swap task ev prev delta min_out)"

definition swap_accrued :: "FeeSwapTask \<Rightarrow> FeeSwapEnv \<Rightarrow> address Store \<Rightarrow>
    (string + (u64 \<times> u128) option) \<times> app_call list" where
  "swap_accrued task ev s =
     (case fe_claimed ev (ft_fee_swapper task) of
        None \<Rightarrow> (Inl ''claimed'', [])
      | Some prev \<Rightarrow>
          case fst (fee_accrued (fe_accrued_io ev) s) of
            None \<Rightarrow> (Inl ''redis'', [])
          | Some a \<Rightarrow>
              let accrued = word_of_int a :: u128
              in case fst (treasury_snapshot (fe_snapshot_io ev) s) of
                   None \<Rightarrow> (Inl ''redis'', [])
                 | Some snap \<Rightarrow>
                     swap_priced task ev prev
                       (swap_delta_atomic accrued (u256_to_u128 prev) (fs_max_swap_atomic (ft_cfg task))
                          (wallet_cap task snap)))"

definition fee_swap_tick :: "FeeSwapTask \<Rightarrow> FeeSwapEnv \<Rightarrow> address Store \<Rightarrow>
    (string + (u64 \<times> u128) option) \<times> app_call list" where
  "fee_swap_tick task ev s =
     (case fe_reservoir ev of
        None \<Rightarrow> (Inl ''read reservoir'', [])
      | Some reservoir \<Rightarrow>
          case fe_balance ev reservoir of
            None \<Rightarrow> (Inl ''reservoir balance'', [])
          | Some bal \<Rightarrow>
              case ft_parse_u256 task (str_trim (fs_rent_floor_wei (ft_cfg task))) of
                None \<Rightarrow> (Inl ''parse rent_floor_wei'', [])
              | Some flr \<Rightarrow> if bal \<ge> flr then (Inr None, []) else swap_accrued task ev s)"

text \<open>The pause before a tick: the interval plus a random jitter.\<close>

definition swap_pause :: "FeeSwapConfig \<Rightarrow> u64 \<Rightarrow> u64 exec" where
  "swap_pause cfg r =
     (if fs_jitter_secs cfg > 0
      then if fs_jitter_secs cfg + 1 = 0 then Panics
           else Returns (fs_check_interval_secs cfg + r mod (fs_jitter_secs cfg + 1))
      else Returns (fs_check_interval_secs cfg))"

section \<open>The adaptive fee\<close>

record FeeController =
  fc_critical_wei :: u128
  fc_healthy_wei :: u128
  fc_fee_min :: f64
  fc_fee_max :: f64
  fc_interval_secs :: u64

definition FeeController_tick :: "FeeController \<Rightarrow> address option \<Rightarrow> (address \<Rightarrow> u256 option) \<Rightarrow> FeeCache \<Rightarrow>
    (string + f64) \<times> FeeCache" where
  "FeeController_tick fc reservoir balance cache =
     (case reservoir of
        None \<Rightarrow> (Inl ''read reservoir'', cache)
      | Some a \<Rightarrow>
          case balance a of
            None \<Rightarrow> (Inl ''reservoir balance'', cache)
          | Some bal \<Rightarrow>
              let fee = effective_pool_fee (u256_to_u128 bal) (fc_critical_wei fc) (fc_healthy_wei fc)
                          (fc_fee_min fc) (fc_fee_max fc)
              in (Inr fee, FeeCache_set fee cache))"

definition FeeController_pause :: "FeeController \<Rightarrow> u64" where
  "FeeController_pause fc = max (fc_interval_secs fc) 1"

section \<open>The reserve is never minted against\<close>

lemma f64_of_int_small: "\<bar>n\<bar> \<le> 2 ^ 53 \<Longrightarrow> f64_of_int n = Fin (of_int n)"
  by (rule f64_of_int_exact)

lemma f64_of_word_small:
  assumes "uint (w :: 'a::len word) \<le> 2 ^ 53"
  shows "f64_of_word w = Fin (of_int (uint w))"
  using assms unfolding f64_of_word_def by (intro f64_of_int_small) simp

lemma f64_ok_int: "\<bar>n\<bar> \<le> 2 ^ 53 \<Longrightarrow> f64_ok (Fin (of_int n))"
proof -
  assume "\<bar>n\<bar> \<le> 2 ^ 53"
  then have "f64_round (of_int n) = Fin (of_int n)" using f64_of_int_small [of n] by (simp add: f64_of_int_def)
  with f64_ok_round [of "of_int n"] show ?thesis by metis
qed

lemma ffloor_mono: "fle a b \<Longrightarrow> fle (ffloor a) (ffloor b)"
  by (cases a; cases b) (auto intro: f64_of_int_mono floor_mono)

lemma fmax_one:
  assumes "ratio0 \<noteq> PInf"
  obtains r where "fmax ratio0 (Fin 1) = Fin r" "1 \<le> r"
proof (cases ratio0)
  case (Fin x)
  show ?thesis by (rule that [of "if 1 \<le> x then x else 1"]) (auto simp: fmax_def Fin)
qed (use assms that [of 1] in \<open>auto simp: fmax_def\<close>)

lemma surplus_bound:
  assumes "0 \<le> x" "x \<le> 2 ^ 53" "0 \<le> y" "y \<le> 2 ^ 53" "1 \<le> r"
  shows "fle (fsub (Fin (of_int x)) (fmul (Fin (of_int y)) (Fin r))) (Fin (of_int (x - y)))"
proof -
  have ok: "f64_ok (Fin (of_int y))" "f64_ok (Fin (of_int (x - y)))"
    by (rule f64_ok_int, use assms in simp)+
  have "(of_int y :: rat) \<le> of_int y * r" using assms(3,5) by (simp add: mult_le_cancel_left1)
  from f64_round_ge [OF ok(1) this] have ge: "fle (Fin (of_int y)) (f64_round (of_int y * r))" .
  show ?thesis
  proof (cases "f64_round (of_int y * r)")
    case (Fin q)
    with ge have "(of_int x :: rat) - q \<le> of_int (x - y)" by simp
    from f64_round_le [OF ok(2) this] show ?thesis by (simp add: fsub_def Fin)
  qed (use ge in \<open>auto simp: fsub_def\<close>)
qed

lemma quotient_bound:
  assumes "0 \<le> k" "k \<le> 2 ^ 53" "1 \<le> r" "0 < p" "p \<le> of_int k"
  shows "fle (ffloor (fdiv (Fin p) (Fin r))) (Fin (of_int k))"
proof -
  have "p / r \<le> p" using assms(3,4) by (simp add: divide_le_eq mult_le_cancel_left1)
  then have "p / r \<le> of_int k" using assms(5) by (rule order_trans)
  then have "fle (fdiv (Fin p) (Fin r)) (Fin (of_int k))"
    using assms(1-3) by (simp add: f64_round_le f64_ok_int)
  from ffloor_mono [OF this] assms(1,2) show ?thesis by (simp add: f64_of_int_small)
qed

lemma mintable_fee_reserve:
  assumes "uint unlocked \<le> 2 ^ 53" "uint supply + uint pending \<le> 2 ^ 53" "ratio \<noteq> PInf"
    and "mintable_fee unlocked supply pending ratio max_swap \<noteq> 0"
  shows "uint supply + uint pending + uint (mintable_fee unlocked supply pending ratio max_swap) \<le> uint unlocked"
proof -
  define x where "x = uint unlocked"
  define y where "y = uint supply + uint pending"
  obtain r where r: "fmax ratio (Fin 1) = Fin r" "1 \<le> r" by (rule fmax_one [OF assms(3)])
  have xy: "0 \<le> x" "x \<le> 2 ^ 53" "0 \<le> y" "y \<le> 2 ^ 53" using assms(1,2) by (simp_all add: x_def y_def)
  have uy: "uint (supply + pending) = y"
    using xy(3,4) by (simp add: uint_word_ariths y_def)
  have f: "f64_of_word unlocked = Fin (of_int x)" "f64_of_word (supply + pending) = Fin (of_int y)"
    using f64_of_word_small [of unlocked] f64_of_word_small [of "supply + pending"] assms(1) xy(4)
    by (simp_all only: uy x_def [symmetric])
  define sp where "sp = fsub (Fin (of_int x)) (fmul (Fin (of_int y)) (Fin r))"
  have eq: "mintable_fee unlocked supply pending ratio max_swap =
      (if fle sp (Fin 0) then 0
       else f64_to_word (fmax (fmin (ffloor (fdiv sp (Fin r))) (f64_of_word max_swap)) (Fin 0)))"
    unfolding mintable_fee_def Let_def f r(1) sp_def ..
  have le: "fle sp (Fin (of_int (x - y)))" unfolding sp_def using surplus_bound xy r(2) by blast
  have n0: "\<not> fle sp (Fin 0)" using assms(4) unfolding eq by (auto split: if_splits)
  with le obtain p where p: "sp = Fin p" "0 < p" "p \<le> of_int (x - y)" by (cases sp) auto
  have k: "0 \<le> x - y" "x - y \<le> 2 ^ 53"
    using p(2,3) xy by (simp_all add: of_int_diff [symmetric] del: of_int_diff)
  note q = quotient_bound [OF k r(2) p(2,3)]
  have "fle (fmin (ffloor (fdiv sp (Fin r))) (f64_of_word max_swap)) (Fin (of_int (x - y)))"
    using fle_trans [OF fmin_le1 q] q unfolding p(1) by (auto dest: fle_not_NaN)
  then have "fle (fmax (fmin (ffloor (fdiv sp (Fin r))) (f64_of_word max_swap)) (Fin 0)) (Fin (of_int (x - y)))"
    using k(1) by (auto simp: fmax_def)
  from f64_to_word_mono [OF this, where 'a = 64]
  have "mintable_fee unlocked supply pending ratio max_swap \<le> f64_to_word (Fin (of_int (x - y)))"
    unfolding eq using n0 by simp
  then have "unat (mintable_fee unlocked supply pending ratio max_swap) \<le> nat (x - y)"
    using k unfolding word_le_nat_alt f64_to_word_nat by (auto split: if_splits)
  then show ?thesis using k(1) unfolding x_def y_def unat_eq_nat_uint by linarith
qed

section \<open>What a tick mints and sells\<close>

lemma uint_ucast_up:
  assumes "LENGTH('a::len) \<le> LENGTH('b::len)"
  shows "uint (ucast (w :: 'a word) :: 'b word) = uint w"
proof -
  have "uint w < 2 ^ LENGTH('a)" by (rule uint_lt2p)
  also have "(2 :: int) ^ LENGTH('a) \<le> 2 ^ LENGTH('b)" using assms by (rule power_increasing) simp
  finally show ?thesis by (simp add: unsigned_ucast_eq take_bit_int_eq_self)
qed

lemma uint_ucast_down:
  assumes "(w :: u128) \<le> ucast (m :: u64)"
  shows "uint (ucast w :: u64) = uint w"
proof -
  have "uint w \<le> uint m" using assms by (simp add: word_le_def uint_ucast_up)
  also have "uint m < 2 ^ LENGTH(64)" by (rule uint_lt2p)
  finally show ?thesis by (simp add: unsigned_ucast_eq take_bit_int_eq_self)
qed

lemma swap_delta_bounds:
  fixes accrued minted :: u128 and max_swap c :: u64
  defines "d cap \<equiv> swap_delta_atomic accrued minted max_swap cap"
  shows "d cap \<noteq> 0 \<Longrightarrow> uint minted + uint (d cap) \<le> uint accrued"
    and "d cap \<le> max_swap" and "cap = Some c \<Longrightarrow> d cap \<le> c"
proof -
  define e where "e = min (accrued - minted) (ucast max_swap)"
  define e1 where "e1 = (case cap of Some c \<Rightarrow> min e (ucast c) | None \<Rightarrow> e)"
  have le: "e1 \<le> accrued - minted" "e1 \<le> ucast max_swap" "cap = Some c \<Longrightarrow> e1 \<le> ucast c"
    by (auto simp: e1_def e_def min_le_iff_disj split: option.splits)
  have d: "d cap = (if accrued \<le> minted then 0 else ucast e1)"
    unfolding d_def swap_delta_atomic_def Let_def e1_def e_def by (rule refl)
  have u: "uint (ucast e1 :: u64) = uint e1" by (rule uint_ucast_down [OF le(2)])
  show "uint minted + uint (d cap) \<le> uint accrued" if "d cap \<noteq> 0"
  proof -
    have "minted \<le> accrued" "d cap = ucast e1" using that d by (auto split: if_splits)
    moreover from this(1) have "uint (accrued - minted) = uint accrued - uint minted" by (simp add: uint_sub_lem word_le_def)
    ultimately show ?thesis using le(1) u by (simp add: word_le_def)
  qed
  show "d cap \<le> max_swap" using le(2) u unfolding d by (auto simp: word_le_def uint_ucast_up)
  show "d cap \<le> c" if "cap = Some c" using le(3) [OF that] u unfolding d by (auto simp: word_le_def uint_ucast_up)
qed

lemma mint_and_swap_log:
  assumes "mint_and_swap task ev prev delta min_out = (r, calls)" "calls \<noteq> []"
  shows "\<exists>sec. hd calls = Signed (ft_fee_swapper task) (prev + ucast delta) sec"
    and "\<forall>u c t. Signed u c t \<in> set calls \<longrightarrow> u = ft_fee_swapper task \<and> c = prev + ucast delta"
    and "\<forall>u c t b. ClaimCall u c t b \<in> set calls \<longrightarrow> u = ft_fee_swapper task \<and> c = prev + ucast delta"
    and "\<forall>i m t. SwapCall i m t \<in> set calls \<longrightarrow> i = ucast delta \<and> m = ucast min_out \<and> send_ok (fe_claim_reply ev)"
    and "r = Inr (Some x) \<longrightarrow> x = (delta, min_out)"
  using assms by (auto simp: mint_and_swap_def Let_def split: option.splits if_splits)

lemma swap_priced_log:
  assumes "swap_priced task ev prev delta = (r, calls)" "calls \<noteq> []"
  obtains min_out gas where "fs_min_swap_atomic (ft_cfg task) \<le> delta" "fe_gas_price ev = Some gas"
    "swap_gas_floor (ft_cfg task) gas \<le> min_out" "mint_and_swap task ev prev delta min_out = (r, calls)"
  using assms by (auto simp: swap_priced_def Let_def not_less split: option.splits if_splits)

lemma fee_swap_tick_log:
  assumes "fee_swap_tick task ev s = (r, calls)" "calls \<noteq> []"
  obtains reservoir bal flr prev snap delta where
    "fe_reservoir ev = Some reservoir" "fe_balance ev reservoir = Some bal" "bal < flr"
    "ft_parse_u256 task (str_trim (fs_rent_floor_wei (ft_cfg task))) = Some flr"
    "fe_claimed ev (ft_fee_swapper task) = Some prev" "snap = st_snapshot s"
    "delta = swap_delta_atomic (word_of_int (or_zero (st_fee_accrued s))) (u256_to_u128 prev)
       (fs_max_swap_atomic (ft_cfg task)) (wallet_cap task snap)"
    "swap_priced task ev prev delta = (r, calls)"
proof -
  obtain reservoir bal flr where a: "fe_reservoir ev = Some reservoir" "fe_balance ev reservoir = Some bal"
    "bal < flr" "ft_parse_u256 task (str_trim (fs_rent_floor_wei (ft_cfg task))) = Some flr"
    and sw: "swap_accrued task ev s = (r, calls)"
    using assms by (auto simp: fee_swap_tick_def not_le split: option.splits if_splits)
  from sw assms(2) obtain prev acc snap where b: "fe_claimed ev (ft_fee_swapper task) = Some prev"
    "fst (fee_accrued (fe_accrued_io ev) s) = Some acc" "fst (treasury_snapshot (fe_snapshot_io ev) s) = Some snap"
    "swap_priced task ev prev (swap_delta_atomic (word_of_int acc) (u256_to_u128 prev)
       (fs_max_swap_atomic (ft_cfg task)) (wallet_cap task snap)) = (r, calls)"
    by (auto simp: swap_accrued_def Let_def split: option.splits)
  have "acc = or_zero (st_fee_accrued s)" "snap = st_snapshot s"
    using b(2,3) by (cases "fe_accrued_io ev"; cases "fe_snapshot_io ev";
        simp add: fee_accrued_def treasury_snapshot_def round_trip_def)+
  with a b show ?thesis by (intro that [of reservoir bal flr prev snap]) simp_all
qed

lemma minted_bound:
  assumes "uint (u256_to_u128 prev) + uint delta \<le> uint (word_of_int a :: u128)"
    and "0 \<le> a" "a \<le> i64_max" "delta \<noteq> (0 :: u64)"
  shows "uint (prev + ucast delta) \<le> a"
proof -
  have a: "uint (word_of_int a :: u128) = a"
    using assms(2,3) by (simp add: uint_word_of_int i64_max_def)
  have "drop_bit 128 prev = 0"
  proof (rule ccontr)
    assume "drop_bit 128 prev \<noteq> 0"
    then have "uint (u256_to_u128 prev) = 2 ^ 128 - 1" by (simp add: u256_to_u128_def unsigned_minus_1_eq_mask mask_eq_exp_minus_1)
    with assms(1,3) uint_ge_0 [of delta] show False by (simp add: a i64_max_def)
  qed
  then have "unat (u256_to_u128 prev) = unat prev" using unat_ucast_drop [where w = prev and 'b = 128] by (simp add: u256_to_u128_def)
  then have "uint (u256_to_u128 prev) = uint prev" by (simp only: uint_nat)
  with assms(1) a have le: "uint prev + uint delta \<le> a" by simp
  then have "uint prev + uint (ucast delta :: u256) < 2 ^ 256"
    using assms(3) by (simp add: uint_ucast_up i64_max_def)
  then have "uint (prev + ucast delta) = uint prev + uint (ucast delta :: u256)"
    using uint_add_lem [of prev "ucast delta"] by simp
  with le show ?thesis by (simp add: uint_ucast_up)
qed

lemma wallet_cap_reserve:
  assumes "0 < monero_unlocked_atomic sn" "uint (monero_unlocked_atomic sn) \<le> 2 ^ 53"
    "uint (mining_pool_token_total_supply sn) + uint (pending_redemptions_atomic sn) \<le> 2 ^ 53"
    "ft_reserve_ratio task \<noteq> PInf"
  shows "(\<And>c. wallet_cap task (Some sn) = Some c \<Longrightarrow> delta \<le> c) \<Longrightarrow> delta \<noteq> 0 \<Longrightarrow>
     uint (mining_pool_token_total_supply sn) + uint (pending_redemptions_atomic sn) + uint delta
       \<le> uint (monero_unlocked_atomic sn)"
proof -
  assume c: "\<And>c. wallet_cap task (Some sn) = Some c \<Longrightarrow> delta \<le> c" and d: "delta \<noteq> 0"
  define k where "k = mintable_fee (monero_unlocked_atomic sn) (mining_pool_token_total_supply sn)
    (pending_redemptions_atomic sn) (ft_reserve_ratio task) (fs_max_swap_atomic (ft_cfg task))"
  have "wallet_cap task (Some sn) = Some k" using assms(1) by (simp add: wallet_cap_def k_def)
  from c [OF this] have "uint delta \<le> uint k" by (simp add: word_le_def)
  moreover from this d have "k \<noteq> 0" by (auto simp: uint_0_iff)
  from mintable_fee_reserve [OF assms(2-4) this [unfolded k_def], folded k_def]
  have "uint (mining_pool_token_total_supply sn) + uint (pending_redemptions_atomic sn) + uint k
    \<le> uint (monero_unlocked_atomic sn)" .
  ultimately show ?thesis by linarith
qed

lemma tick_signed:
  assumes "fee_swap_tick task ev s = (r, calls)" "calls \<noteq> []"
    and "0 \<le> or_zero (st_fee_accrued s)" "or_zero (st_fee_accrued s) \<le> i64_max"
  shows "\<exists>prev (delta :: u64). fe_claimed ev (ft_fee_swapper task) = Some prev \<and>
    (\<forall>u c t. Signed u c t \<in> set calls \<longrightarrow> u = ft_fee_swapper task \<and> c = prev + ucast delta) \<and>
    (delta \<noteq> 0 \<longrightarrow> uint (prev + ucast delta) \<le> or_zero (st_fee_accrued s))"
proof -
  obtain prev snap delta where t: "fe_claimed ev (ft_fee_swapper task) = Some prev"
    and delta: "delta = swap_delta_atomic (word_of_int (or_zero (st_fee_accrued s))) (u256_to_u128 prev)
       (fs_max_swap_atomic (ft_cfg task)) (wallet_cap task snap)"
    and priced: "swap_priced task ev prev delta = (r, calls)"
    using fee_swap_tick_log [OF assms(1,2)] by blast
  obtain min_out where m: "mint_and_swap task ev prev delta min_out = (r, calls)"
    by (rule swap_priced_log [OF priced assms(2)])
  have "uint (prev + ucast delta) \<le> or_zero (st_fee_accrued s)" if "delta \<noteq> 0"
    using minted_bound [OF _ assms(3,4) that] swap_delta_bounds(1) [OF that [unfolded delta]] unfolding delta by blast
  with t mint_and_swap_log(2) [OF m assms(2)] show ?thesis by blast
qed

lemma swap_delta_uncapped:
  assumes "0 \<le> a" "a \<le> i64_max"
  shows "uint (swap_delta_atomic (word_of_int a) (u256_to_u128 prev) max_swap None) = min (max 0 (a - uint prev)) (uint max_swap)"
proof -
  have a: "uint (word_of_int a :: u128) = a" using assms by (simp add: uint_word_of_int i64_max_def)
  show ?thesis
  proof (cases "drop_bit 128 prev = 0")
    case True
    then have "unat (u256_to_u128 prev) = unat prev" using unat_ucast_drop [where w = prev and 'b = 128] by (simp add: u256_to_u128_def)
    then have p: "uint (u256_to_u128 prev) = uint prev" by (simp only: uint_nat)
    define e where "e = min (word_of_int a - u256_to_u128 prev) (ucast max_swap :: u128)"
    have "uint (ucast e :: u64) = uint e" by (rule uint_ucast_down [where m = max_swap]) (simp add: e_def)
    moreover have "uint e = min (a - uint prev) (uint max_swap)" if "uint prev < a"
      using that a p uint_sub_lem [of "u256_to_u128 prev" "word_of_int a"]
      by (simp add: e_def min_def word_le_def uint_ucast_up)
    ultimately show ?thesis using a p by (auto simp: swap_delta_atomic_def word_le_def e_def [symmetric])
  next
    case False
    then have "uint (u256_to_u128 prev) = 2 ^ 128 - 1"
      by (simp add: u256_to_u128_def unsigned_minus_1_eq_mask mask_eq_exp_minus_1)
    moreover have "2 ^ 128 \<le> uint prev"
    proof (rule ccontr)
      assume "\<not> 2 ^ 128 \<le> uint prev"
      then have "uint prev div 2 ^ 128 = 0" by (intro div_pos_pos_trivial) simp_all
      then have "uint (drop_bit 128 prev) = 0" unfolding drop_bit_eq_div uint_div by simp
      then show False using False by (simp only: uint_0_iff)
    qed
    ultimately show ?thesis using assms a by (simp add: swap_delta_atomic_def word_le_def i64_max_def min_def max_def)
  qed
qed

text \<open>C30: the fee swap never mints beyond what the pool has earned as fee, as long as the accrued-fee counter is a
  non-negative i64. When a tick makes any call, the reservoir was below the rent floor; the voucher and the claim
  are for the swapper and raise its claimed total by one amount \<open>delta\<close> that is at least the
  configured least and at most the configured greatest amount, to at most the accrued fee (a \<open>delta\<close> of 0,
  possible only when the least amount is 0, raises nothing). When the treasury snapshot shows a positive unlocked
  balance, supply, pending redemptions and \<open>delta\<close> together stay within that balance, provided that it and the sum of
  the other two are at most \<open>2 ^ 53\<close>, \<open>delta\<close> is not 0 and the reserve ratio is not infinite. Without a
  snapshot, or with one that shows nothing unlocked, there is no such bound: \<open>delta\<close> is all of the unminted fee up to the greatest
  amount. A sale is of exactly \<open>delta\<close>, after the claim was accepted, for at least the gas floor.\<close>

theorem fee_swap_sound:
  assumes "fee_swap_tick task ev s = (r, calls)" "calls \<noteq> []"
    and "0 \<le> or_zero (st_fee_accrued s)" "or_zero (st_fee_accrued s) \<le> i64_max"
  shows "\<exists>prev delta gas reservoir bal flr.
    fe_claimed ev (ft_fee_swapper task) = Some prev \<and> fe_gas_price ev = Some gas \<and>
    fe_reservoir ev = Some reservoir \<and> fe_balance ev reservoir = Some bal \<and>
    ft_parse_u256 task (str_trim (fs_rent_floor_wei (ft_cfg task))) = Some flr \<and> bal < flr \<and>
    (\<forall>u c t. Signed u c t \<in> set calls \<longrightarrow> u = ft_fee_swapper task \<and> c = prev + ucast delta) \<and>
    (\<forall>u c t b. ClaimCall u c t b \<in> set calls \<longrightarrow> u = ft_fee_swapper task \<and> c = prev + ucast delta) \<and>
    fs_min_swap_atomic (ft_cfg task) \<le> delta \<and> delta \<le> fs_max_swap_atomic (ft_cfg task) \<and>
    (delta \<noteq> 0 \<longrightarrow> uint (prev + ucast delta) \<le> or_zero (st_fee_accrued s)) \<and>
    (\<forall>sn. st_snapshot s = Some sn \<and> 0 < monero_unlocked_atomic sn \<and> uint (monero_unlocked_atomic sn) \<le> 2 ^ 53 \<and>
        uint (mining_pool_token_total_supply sn) + uint (pending_redemptions_atomic sn) \<le> 2 ^ 53 \<and>
        ft_reserve_ratio task \<noteq> PInf \<and> delta \<noteq> 0 \<longrightarrow>
        uint (mining_pool_token_total_supply sn) + uint (pending_redemptions_atomic sn) + uint delta
          \<le> uint (monero_unlocked_atomic sn)) \<and>
    ((\<forall>sn. st_snapshot s = Some sn \<longrightarrow> monero_unlocked_atomic sn = 0) \<longrightarrow>
        uint delta = min (max 0 (or_zero (st_fee_accrued s) - uint prev)) (uint (fs_max_swap_atomic (ft_cfg task)))) \<and>
    (\<forall>i m t. SwapCall i m t \<in> set calls \<longrightarrow> i = ucast delta \<and> send_ok (fe_claim_reply ev) \<and>
        uint (swap_gas_floor (ft_cfg task) gas) \<le> uint m)"
proof -
  obtain reservoir bal flr prev snap delta where t: "fe_reservoir ev = Some reservoir"
    "fe_balance ev reservoir = Some bal" "bal < flr"
    "ft_parse_u256 task (str_trim (fs_rent_floor_wei (ft_cfg task))) = Some flr"
    "fe_claimed ev (ft_fee_swapper task) = Some prev" "snap = st_snapshot s"
    and delta: "delta = swap_delta_atomic (word_of_int (or_zero (st_fee_accrued s))) (u256_to_u128 prev)
       (fs_max_swap_atomic (ft_cfg task)) (wallet_cap task snap)"
    and priced: "swap_priced task ev prev delta = (r, calls)"
    using fee_swap_tick_log [OF assms(1,2)] by blast
  obtain min_out gas where m: "fs_min_swap_atomic (ft_cfg task) \<le> delta" "fe_gas_price ev = Some gas"
    "swap_gas_floor (ft_cfg task) gas \<le> min_out" "mint_and_swap task ev prev delta min_out = (r, calls)"
    by (rule swap_priced_log [OF priced assms(2)])
  note lg = mint_and_swap_log [OF m(4) assms(2)]
  note sd = swap_delta_bounds [where accrued = "word_of_int (or_zero (st_fee_accrued s))"
      and minted = "u256_to_u128 prev" and max_swap = "fs_max_swap_atomic (ft_cfg task)"
      and cap = "wallet_cap task snap", folded delta]
  have cum: "uint (prev + ucast delta) \<le> or_zero (st_fee_accrued s)" if "delta \<noteq> 0"
    using minted_bound sd(1) [OF that] assms(3,4) that by blast
  have reserve: "uint (mining_pool_token_total_supply sn) + uint (pending_redemptions_atomic sn) + uint delta
          \<le> uint (monero_unlocked_atomic sn)"
    if "st_snapshot s = Some sn" "0 < monero_unlocked_atomic sn" "uint (monero_unlocked_atomic sn) \<le> 2 ^ 53"
      "uint (mining_pool_token_total_supply sn) + uint (pending_redemptions_atomic sn) \<le> 2 ^ 53"
      "ft_reserve_ratio task \<noteq> PInf" "delta \<noteq> 0" for sn
    by (rule wallet_cap_reserve [OF that(2-5)]) (use sd(3) that(1,6) t(6) in auto)
  have free: "uint delta = min (max 0 (or_zero (st_fee_accrued s) - uint prev)) (uint (fs_max_swap_atomic (ft_cfg task)))"
    if "\<forall>sn. st_snapshot s = Some sn \<longrightarrow> monero_unlocked_atomic sn = 0"
  proof -
    have "wallet_cap task snap = None" using that t(6) by (auto simp: wallet_cap_def split: option.splits)
    then show ?thesis unfolding delta using swap_delta_uncapped [OF assms(3,4)] by simp
  qed
  have gas: "uint (swap_gas_floor (ft_cfg task) gas) \<le> uint (ucast min_out :: u256)"
    using m(3) by (simp add: word_le_def uint_ucast_up)
  have sale: "\<forall>i m t. SwapCall i m t \<in> set calls \<longrightarrow> i = ucast delta \<and> send_ok (fe_claim_reply ev) \<and>
      uint (swap_gas_floor (ft_cfg task) gas) \<le> uint m" using lg(4) gas by blast
  show ?thesis
    by (rule exI [of _ prev], rule exI [of _ delta], rule exI [of _ gas], rule exI [of _ reservoir],
        rule exI [of _ bal], rule exI [of _ flr])
      (use t m(1,2) lg(2,3) sd(2) cum reserve free sale in auto)
qed

definition demo_task :: FeeSwapTask where
  "demo_task = \<lparr>ft_token = 1, ft_fee_swapper = 2, ft_reserve_ratio = Fin 1,
     ft_cfg = \<lparr>fs_rent_floor_wei = ''5000'', fs_min_swap_atomic = 100, fs_max_swap_atomic = 500,
       fs_slippage_bps = 100, fs_check_interval_secs = 600, fs_jitter_secs = 60, fs_min_swap_gas_multiple = 5\<rparr>,
     ft_parse_u256 = (\<lambda>s. map_option word_of_int (parse_uint (2 ^ 256 - 1) s))\<rparr>"

definition demo_env :: FeeSwapEnv where
  "demo_env = \<lparr>fe_reservoir = Some 3, fe_balance = (\<lambda>_. Some 40), fe_claimed = (\<lambda>_. Some 300),
     fe_accrued_io = IoOk, fe_snapshot_io = IoOk, fe_quote = (\<lambda>_. Some 100000000), fe_gas_price = Some 1,
     fe_now_sign = 1700000000, fe_now_claim = 1700000000, fe_now_swap = 1700000002,
     fe_sign = (\<lambda>_ _ _. Some [1]), fe_claim_reply = Some ''{\"data\":\"\"}'', fe_swap_reply = Some ''{\"data\":\"\"}''\<rparr>"

definition demo_fees :: "address Store" where
  "demo_fees = empty_store\<lparr>st_fee_accrued := Some 1000, st_snapshot := Some
     \<lparr>monero_balance_atomic = 9000, monero_unlocked_atomic = 8450, pending_redemptions_atomic = 0,
      pending_redemptions_count = 0, mining_pool_token_total_supply = 8000, as_of_unix = 0\<rparr>\<rparr>"

theorem fee_swap_sound_witness:
  "fee_swap_tick demo_task demo_env demo_fees =
     (Inr (Some (450, 99000000)),
      [Signed 2 750 1700000000, ClaimCall 2 750 1700000000 [1], SwapCall 450 99000000 1700000302]) \<and>
   (\<exists>delta :: u64. ucast delta = (450 :: u256) \<and> 100 \<le> delta \<and> delta \<le> 500)"
proof -
  have tick: "fee_swap_tick demo_task demo_env demo_fees =
     (Inr (Some (450, 99000000)),
      [Signed 2 750 1700000000, ClaimCall 2 750 1700000000 [1], SwapCall 450 99000000 1700000302])" by code_simp
  have acc: "or_zero (st_fee_accrued demo_fees) = 1000" by (simp add: demo_fees_def or_zero_def)
  from fee_swap_sound [OF tick] have "\<exists>delta :: u64. ucast delta = (450 :: u256) \<and> 100 \<le> delta \<and> delta \<le> 500"
    by (auto simp: acc i64_max_def demo_task_def demo_env_def)
  with tick show ?thesis by simp
qed

section \<open>Two ticks that go wrong\<close>

text \<open>The voucher and the claim read the clock separately: across a second boundary the
  claim carries another time than the one that was signed.\<close>

lemma claim_time_differs:
  "snd (fee_swap_tick demo_task (demo_env\<lparr>fe_now_claim := 1700000001\<rparr>) demo_fees) =
     [Signed 2 750 1700000000, ClaimCall 2 750 1700000001 [1], SwapCall 450 99000000 1700000302]"
  by code_simp

text \<open>A claim that went through followed by a sale that did not: the next tick, with the
  claimed total risen and nothing new accrued, makes no call; the minted tokens are not sold.\<close>

lemma failed_sale_strands_tokens:
  "fee_swap_tick demo_task (demo_env\<lparr>fe_swap_reply := None\<rparr>) (demo_fees\<lparr>st_fee_accrued := Some 750\<rparr>) =
     (Inl ''swapFeeToRose'',
      [Signed 2 750 1700000000, ClaimCall 2 750 1700000000 [1], SwapCall 450 99000000 1700000302])"
  "fee_swap_tick demo_task (demo_env\<lparr>fe_claimed := (\<lambda>_. Some 750)\<rparr>) (demo_fees\<lparr>st_fee_accrued := Some 750\<rparr>) =
     (Inr None, [])"
  by code_simp+

text \<open>A wallet with nothing unlocked counts as a test wallet: the reserve does not bound the mint.\<close>

lemma locked_wallet_uncapped:
  "snd (fee_swap_tick demo_task demo_env (demo_fees\<lparr>st_snapshot := Some
     \<lparr>monero_balance_atomic = 8450, monero_unlocked_atomic = 0, pending_redemptions_atomic = 0,
      pending_redemptions_count = 0, mining_pool_token_total_supply = 8450, as_of_unix = 0\<rparr>\<rparr>)) =
     [Signed 2 800 1700000000, ClaimCall 2 800 1700000000 [1], SwapCall 500 99000000 1700000302]"
  by code_simp

end
