(* ===== verification/Minting.thy ===== *)
theory Minting
  imports Voucher Fee_Swap
begin

text \<open>
  The minting side of the pool as one system: shares are credited into the store, the voucher service
  and the fee swap sign vouchers, anyone presents them to the token or to \<open>/restore\<close>, and balances
  expire. Redis commands fail or lose their reply at every point and chain reads of the voucher service
  answer anything. The theorem bounds what can be minted by the work that was
  credited.
\<close>

section \<open>The system\<close>

text \<open>\<open>mt_shares\<close> is the history of credited shares: miner, credit and fee.\<close>

record 'l MintSys =
  mt_store :: "address Store"
  mt_token :: "'l Token"
  mt_signed :: "(address \<times> u256 \<times> u256) list"
  mt_shares :: "(address \<times> int \<times> int) list"

definition share_credit :: "RateCache \<Rightarrow> u64 \<Rightarrow> int" where
  "share_credit rate d = max 0 (credit_of (RateCache_get rate) d)"

definition share_fee :: "RateCache \<Rightarrow> u64 \<Rightarrow> int" where
  "share_fee rate d = (if share_credit rate d > 0 then max 0 (credit_of (fee_rate rate) d) else 0)"

definition credited :: "address \<Rightarrow> (address \<times> int \<times> int) list \<Rightarrow> int" where
  "credited u h = sum_list (map (\<lambda>(m, c, f). if m = u then c else 0) h)"

definition fees :: "(address \<times> int \<times> int) list \<Rightarrow> int" where
  "fees h = sum_list (map (\<lambda>(m, c, f). f) h)"

definition worked :: "(address \<times> int \<times> int) list \<Rightarrow> int" where
  "worked h = sum_list (map (\<lambda>(m, c, f). c + f) h)"

definition entitled :: "address \<Rightarrow> address \<Rightarrow> (address \<times> int \<times> int) list \<Rightarrow> int" where
  "entitled fs u h = credited u h + (if u = fs then fees h else 0)"

fun signed_in :: "app_call list \<Rightarrow> (address \<times> u256 \<times> u256) list" where
  "signed_in [] = []"
| "signed_in (Signed u c t # cs) = (u, c, t) # signed_in cs"
| "signed_in (_ # cs) = signed_in cs"

text \<open>The steps, with what they assume. A presented signature that recovers the signer is one of a voucher the
  signer has signed (ECDSA is unforgeable). The claimed total the fee swap reads is not ahead of the chain. The
  owner does not rotate the signer: a rotated one could sign anything.\<close>

inductive mint_step :: "'l erc20 \<Rightarrow> ('l \<Rightarrow> bool) \<Rightarrow> u8 list recover \<Rightarrow> address \<Rightarrow> address \<Rightarrow> 'l MintSys \<Rightarrow> 'l MintSys \<Rightarrow> bool"
  for E ok rc signer fs where
  share: "credit io1 io2 now ms rate sh (mt_store st, mx) = (r, s', mx') \<Longrightarrow>
     h = mt_shares st @ [(sa_miner sh, share_credit rate (sa_difficulty sh), share_fee rate (sa_difficulty sh))] \<Longrightarrow>
     mint_step E ok rc signer fs st (st\<lparr>mt_store := s', mt_shares := h\<rparr>)"
| issue: "issue sv e io1 reply io2 ts sign user amount (mt_store st) = (r, v, s') \<Longrightarrow>
     mint_step E ok rc signer fs st (st\<lparr>mt_store := s', mt_signed := (case v of None \<Rightarrow> [] | Some x \<Rightarrow> [x]) @ mt_signed st\<rparr>)"
| restore: "sv_recover sv = rc \<Longrightarrow> sv_signer sv = signer \<Longrightarrow> in_i64 cum \<Longrightarrow>
     restore sv e io1 io2 reply user cum secs sig (mt_store st) = (r, s') \<Longrightarrow>
     \<forall>b. rc user (cum_word cum) (ucast secs) b = Some signer \<longrightarrow> (user, cum_word cum, ucast secs) \<in> set (mt_signed st) \<Longrightarrow>
     mint_step E ok rc signer fs st (st\<lparr>mt_store := s'\<rparr>)"
| fee_tick: "ft_fee_swapper task = fs \<Longrightarrow> fee_swap_tick task ev (mt_store st) = (r, calls) \<Longrightarrow>
     \<forall>p. fe_claimed ev fs = Some p \<longrightarrow> p \<le> tk_claimed (mt_token st) fs \<Longrightarrow>
     mint_step E ok rc signer fs st (st\<lparr>mt_signed := signed_in calls @ mt_signed st\<rparr>)"
| claim: "claim E rc user cum secs sig (mt_token st) = Inr (d, t') \<Longrightarrow>
     (rc user cum secs sig = Some signer \<longrightarrow> (user, cum, secs) \<in> set (mt_signed st)) \<Longrightarrow>
     mint_step E ok rc signer fs st (st\<lparr>mt_token := t'\<rparr>)"
| other_tx: "token_step E ok rc (mt_token st) t' \<Longrightarrow> tk_claimed t' = tk_claimed (mt_token st) \<Longrightarrow>
     authorizedSigner t' = authorizedSigner (mt_token st) \<Longrightarrow>
     mint_step E ok rc signer fs st (st\<lparr>mt_token := t'\<rparr>)"
| expire: "mint_step E ok rc signer fs st (st\<lparr>mt_store := evict_balance user (mt_store st)\<rparr>)"
| wipe: "mint_step E ok rc signer fs st (st\<lparr>mt_store := empty_store\<rparr>)"
| other_store: "st_earned s' = st_earned (mt_store st) \<Longrightarrow> st_last_voucher s' = st_last_voucher (mt_store st) \<Longrightarrow>
     st_fee_accrued s' = st_fee_accrued (mt_store st) \<Longrightarrow>
     mint_step E ok rc signer fs st (st\<lparr>mt_store := s'\<rparr>)"

definition mint_start :: "'l Token \<Rightarrow> 'l MintSys" where
  "mint_start t = \<lparr>mt_store = empty_store, mt_token = t, mt_signed = [], mt_shares = []\<rparr>"

section \<open>The invariant\<close>

definition in_bound :: "int \<Rightarrow> int \<Rightarrow> bool" where
  "in_bound b x \<longleftrightarrow> 0 \<le> x \<and> x \<le> b"

definition balances_ok :: "address \<Rightarrow> (address \<times> int \<times> int) list \<Rightarrow> address Store \<Rightarrow> bool" where
  "balances_ok fs h s \<longleftrightarrow> (\<forall>u. in_bound (entitled fs u h) (or_zero (st_earned s u)) \<and>
     in_bound (entitled fs u h) (or_zero (st_last_voucher s u))) \<and> in_bound (fees h) (or_zero (st_fee_accrued s))"

definition mint_inv :: "'l erc20 \<Rightarrow> ('l \<Rightarrow> bool) \<Rightarrow> address \<Rightarrow> address \<Rightarrow> 'l MintSys \<Rightarrow> bool" where
  "mint_inv E ok signer fs st \<longleftrightarrow>
     (\<forall>(m, c, f) \<in> set (mt_shares st). 0 \<le> c \<and> 0 \<le> f) \<and> worked (mt_shares st) \<le> 2 ^ 53 \<and>
     balances_ok fs (mt_shares st) (mt_store st) \<and>
     (\<forall>(u, c, t) \<in> set (mt_signed st). uint c \<le> entitled fs u (mt_shares st)) \<and>
     (\<forall>u. uint (tk_claimed (mt_token st) u) \<le> entitled fs u (mt_shares st)) \<and>
     authorizedSigner (mt_token st) = signer \<and> supply_inv E ok (mt_token st)"

lemma mint_invD:
  assumes "mint_inv E ok signer fs st"
  shows "\<forall>(m, c, f) \<in> set (mt_shares st). 0 \<le> c \<and> 0 \<le> f" "worked (mt_shares st) \<le> 2 ^ 53"
    "balances_ok fs (mt_shares st) (mt_store st)"
    "\<And>u c t. (u, c, t) \<in> set (mt_signed st) \<Longrightarrow> uint c \<le> entitled fs u (mt_shares st)"
    "\<And>u. uint (tk_claimed (mt_token st) u) \<le> entitled fs u (mt_shares st)"
    "authorizedSigner (mt_token st) = signer" "supply_inv E ok (mt_token st)"
  using assms by (auto simp: mint_inv_def)

lemma balances_okD:
  assumes "balances_ok fs h s"
  shows "0 \<le> or_zero (st_earned s u)" "or_zero (st_earned s u) \<le> entitled fs u h"
    "0 \<le> or_zero (st_last_voucher s u)" "or_zero (st_last_voucher s u) \<le> entitled fs u h"
    "0 \<le> or_zero (st_fee_accrued s)" "or_zero (st_fee_accrued s) \<le> fees h"
  using assms by (auto simp: balances_ok_def in_bound_def)

text \<open>The ghost totals.\<close>

lemma totals_snoc [simp]:
  "credited u (h @ [(m, c, f)]) = credited u h + (if m = u then c else 0)"
  "fees (h @ [(m, c, f)]) = fees h + f" "worked (h @ [(m, c, f)]) = worked h + (c + f)"
  by (simp_all add: credited_def fees_def worked_def)

lemma totals_nil [simp]: "credited u [] = 0" "fees [] = 0" "worked [] = 0"
  by (simp_all add: credited_def fees_def worked_def)

lemma entitled_snoc [simp]:
  "entitled fs u (h @ [(m, c, f)]) = entitled fs u h + (if m = u then c else 0) + (if u = fs then f else 0)"
  by (simp add: entitled_def)

lemma totals_nonneg:
  assumes "\<forall>(m, c, f) \<in> set h. 0 \<le> c \<and> 0 \<le> f"
  shows "0 \<le> credited u h" "0 \<le> fees h" "credited u h + fees h \<le> worked h"
  using assms by (induction h) (auto simp: credited_def fees_def worked_def)

lemma entitled_bounds:
  assumes "\<forall>(m, c, f) \<in> set h. 0 \<le> c \<and> 0 \<le> f"
  shows "0 \<le> entitled fs u h" "entitled fs u h \<le> worked h"
  using totals_nonneg(1,3) [OF assms, of u] totals_nonneg(2) [OF assms] by (auto simp: entitled_def)

lemma sum_credited:
  "(\<Sum>u\<in>UNIV. credited u h) + fees h = worked h"
proof (induction h)
  case (Cons x h)
  obtain m c f where x: "x = (m, c, f)" by (cases x)
  have "(\<Sum>u\<in>UNIV. credited u (x # h)) = (\<Sum>u\<in>UNIV. (if m = u then c else 0) + credited u h)"
    by (simp add: credited_def x)
  also have "\<dots> = c + (\<Sum>u\<in>UNIV. credited u h)" by (simp add: sum.distrib)
  finally show ?case using Cons by (simp add: x fees_def worked_def)
qed (simp add: credited_def)

lemma sum_entitled: "(\<Sum>u\<in>UNIV. entitled fs u h) = worked h"
  using sum_credited [of h] by (simp add: entitled_def sum.distrib)

section \<open>What each step does to the balances\<close>

lemma round_trip_snd: "snd (round_trip io f s) = s \<or> snd (round_trip io f s) = snd (f s)"
  by (cases io) (auto simp: round_trip_def)

definition only_earned :: "address \<Rightarrow> int \<Rightarrow> address Store \<Rightarrow> address Store \<Rightarrow> bool" where
  "only_earned m c s s' \<longleftrightarrow> st_last_voucher s' = st_last_voucher s \<and> (\<forall>u. u \<noteq> m \<longrightarrow> st_earned s' u = st_earned s u) \<and>
     (or_zero (st_earned s' m) = or_zero (st_earned s m) \<or> or_zero (st_earned s' m) = or_zero (st_earned s m) + c)"

definition only_fee :: "int \<Rightarrow> address Store \<Rightarrow> address Store \<Rightarrow> bool" where
  "only_fee f s s' \<longleftrightarrow> (or_zero (st_fee_accrued s') = or_zero (st_fee_accrued s) \<or>
     or_zero (st_fee_accrued s') = or_zero (st_fee_accrued s) + f)"

lemma add_earned_effect:
  "only_earned m c s (snd (add_earned io m c s)) \<and> st_fee_accrued (snd (add_earned io m c s)) = st_fee_accrued s"
proof -
  let ?f = "\<lambda>s. case incr_by (st_earned s m) c of None \<Rightarrow> (None, s)
      | Some t \<Rightarrow> (Some t, s\<lparr>st_earned := (st_earned s)(m := Some t)\<rparr>)"
  have "only_earned m c s s \<and> st_fee_accrued s = st_fee_accrued s" by (simp add: only_earned_def)
  moreover have "only_earned m c s (snd (?f s)) \<and> st_fee_accrued (snd (?f s)) = st_fee_accrued s"
    by (auto simp: only_earned_def or_zero_def [of "Some _"] incr_by_Some split: option.split)
  ultimately show ?thesis
    using round_trip_snd [of io ?f s] unfolding add_earned_def by (elim disjE) simp_all
qed

lemma add_fee_effect:
  "only_fee f s (snd (add_fee_accrued io f s)) \<and> st_earned (snd (add_fee_accrued io f s)) = st_earned s \<and>
   st_last_voucher (snd (add_fee_accrued io f s)) = st_last_voucher s"
proof -
  let ?f = "\<lambda>s. case incr_by (st_fee_accrued s) f of None \<Rightarrow> (None, s)
      | Some t \<Rightarrow> (Some t, s\<lparr>st_fee_accrued := Some t\<rparr>)"
  have "only_fee f s s" by (simp add: only_fee_def)
  moreover have "only_fee f s (snd (?f s)) \<and> st_earned (snd (?f s)) = st_earned s \<and>
      st_last_voucher (snd (?f s)) = st_last_voucher s"
    by (auto simp: only_fee_def or_zero_def [of "Some _"] incr_by_Some split: option.split)
  ultimately show ?thesis
    using round_trip_snd [of io ?f s] unfolding add_fee_accrued_def by (elim disjE) simp_all
qed

lemma credit_effect:
  assumes "credit io1 io2 now ms rate sh (s, mx) = (r, s', mx')"
  shows "only_earned (sa_miner sh) (share_credit rate (sa_difficulty sh)) s s' \<and>
    only_fee (share_fee rate (sa_difficulty sh)) s s'"
proof -
  define c where "c = credit_of (RateCache_get rate) (sa_difficulty sh)"
  define f where "f = credit_of (fee_rate rate) (sa_difficulty sh)"
  define s1 where "s1 = snd (add_earned io1 (sa_miner sh) c s)"
  have a: "only_earned (sa_miner sh) c s s1" "st_fee_accrued s1 = st_fee_accrued s"
    unfolding s1_def using add_earned_effect by blast+
  have b: "only_fee f s1 (snd (add_fee_accrued io2 f s1))"
    "st_earned (snd (add_fee_accrued io2 f s1)) = st_earned s1"
    "st_last_voucher (snd (add_fee_accrued io2 f s1)) = st_last_voucher s1" using add_fee_effect by blast+
  consider "c \<le> 0" "s' = s" | "c > 0" "s' = s1" | "c > 0" "f > 0" "s' = snd (add_fee_accrued io2 f s1)"
    using assms unfolding credit_def c_def [symmetric] f_def [symmetric] Let_def s1_def
    by (auto split: if_splits prod.splits option.splits)
  then show ?thesis
  proof cases
    case 1
    then show ?thesis by (simp add: only_earned_def only_fee_def)
  next
    case 2
    then show ?thesis using a by (simp add: share_credit_def c_def only_fee_def)
  next
    case 3
    then have "share_credit rate (sa_difficulty sh) = c" "share_fee rate (sa_difficulty sh) = f"
      by (simp_all add: share_credit_def share_fee_def c_def f_def)
    then show ?thesis using 3 a b by (simp add: only_earned_def only_fee_def)
  qed
qed

lemma shares_nonneg: "0 \<le> share_credit rate d" "0 \<le> share_fee rate d"
  by (simp_all add: share_credit_def share_fee_def)

lemma balances_share:
  assumes "balances_ok fs h s" "only_earned m c s s'" "only_fee f s s'" "0 \<le> c" "0 \<le> f"
  shows "balances_ok fs (h @ [(m, c, f)]) s'"
proof -
  have "in_bound (entitled fs u (h @ [(m, c, f)])) (or_zero (st_earned s' u))" for u
    using assms(2) balances_okD(1,2) [OF assms(1), of u] assms(4,5)
    by (cases "u = m") (auto simp: only_earned_def in_bound_def)
  moreover have "in_bound (entitled fs u (h @ [(m, c, f)])) (or_zero (st_last_voucher s' u))" for u
    using assms(2) balances_okD(3,4) [OF assms(1), of u] assms(4,5) by (auto simp: only_earned_def in_bound_def)
  moreover have "in_bound (fees (h @ [(m, c, f)])) (or_zero (st_fee_accrued s'))"
    using assms(3) balances_okD(5,6) [OF assms(1)] assms(5) by (auto simp: only_fee_def in_bound_def)
  ultimately show ?thesis by (simp add: balances_ok_def)
qed

text \<open>Signing stays within what the miner is entitled to.\<close>

lemma small_in_i64: "0 \<le> x \<Longrightarrow> x \<le> 2 ^ 53 \<Longrightarrow> in_i64 x"
  by (simp add: in_i64_def i64_min_def i64_max_def)

lemma issue_effect:
  assumes b: "balances_ok fs h s" and le: "\<And>u. entitled fs u h \<le> 2 ^ 53"
    and i: "issue sv e io1 reply io2 ts sign user amount s = (r, v, s')"
  shows "balances_ok fs h s'" "v = Some (u, c, t) \<Longrightarrow> uint c \<le> entitled fs u h"
proof -
  have e: "in_i64 (or_zero (st_earned s user))"
    using balances_okD(1,2) [OF b, of user] le [of user] by (intro small_in_i64) simp_all
  define c where "c = voucher_base reply user s + voucher_amount reply user amount s"
  have s': "s' = s \<or> (grants reply user amount s \<and> s' = with_last user c s)"
    and v: "v = None \<or> (grants reply user amount s \<and> (\<exists>t. v = Some (user, cum_word c, t)))"
    using i unfolding issue_eq [OF e] Let_def c_def [symmetric] by (auto split: if_splits option.splits)
  have g: "0 < c" "c \<le> entitled fs user h" "uint (cum_word c) = c" if "grants reply user amount s"
    using grants_bounds [OF that e, folded c_def] balances_okD(2) [OF b, of user] by simp_all
  show "balances_ok fs h s'"
    using s' b g by (auto simp: balances_ok_def with_last_def in_bound_def or_zero_def [of "Some _"])
  show "uint c \<le> entitled fs u h" if "v = Some (u, c, t)" for u c t
    using v that g by auto
qed

lemma state_store: "snd (state sv e io reply user s) = s"
  by (simp add: state_def balance_state_eq Let_def)

lemma restore_cases:
  "snd (restore sv e io1 io2 reply user cum secs sig s) = s \<or>
   (0 < cum \<and> (\<exists>b. sv_recover sv user (cum_word cum) (ucast secs) b = Some (sv_signer sv)) \<and>
    snd (restore sv e io1 io2 reply user cum secs sig s) = snd (restore_cumulative io1 user cum s))"
proof (cases "cum \<le> 0")
  case False
  show ?thesis
  proof (cases "sv_hex_decode sv (trim_start_0x (str_trim sig))")
    case (Inr raw)
    show ?thesis
    proof (cases "sv_parse_sig sv raw \<and> sv_recover sv user (cum_word cum) (ucast secs) raw = Some (sv_signer sv)")
      case True
      then have "snd (restore sv e io1 io2 reply user cum secs sig s) = snd (restore_cumulative io1 user cum s)"
        using False Inr unfolding restore_def cum_word_def [symmetric]
        by (cases "restore_cumulative io1 user cum s"; cases "fst (restore_cumulative io1 user cum s)")
          (simp_all add: state_store)
      with True False show ?thesis by auto
    next
      case bad: False
      then have "snd (restore sv e io1 io2 reply user cum secs sig s) = s"
        using False Inr unfolding restore_def cum_word_def [symmetric] by (auto split: option.split)
      then show ?thesis by (rule disjI1)
    qed
  qed (use False in \<open>simp add: restore_def\<close>)
qed (simp add: restore_def)

lemma restore_effect:
  assumes b: "balances_ok fs h s" and le: "\<And>u. entitled fs u h \<le> 2 ^ 53"
    and r: "restore sv e io1 io2 reply user cum secs sig s = (r, s')"
    and ok: "\<And>b. sv_recover sv user (cum_word cum) (ucast secs) b = Some (sv_signer sv) \<Longrightarrow> 0 < cum \<Longrightarrow> cum \<le> entitled fs user h"
  shows "balances_ok fs h s'"
proof -
  have "s' = s \<or> ((0 < cum \<and> (\<exists>b. sv_recover sv user (cum_word cum) (ucast secs) b = Some (sv_signer sv))) \<and>
      s' = snd (restore_cumulative io1 user cum s))"
    using restore_cases [of sv e io1 io2 reply user cum secs sig s] r by simp
  then show ?thesis
  proof (elim disjE conjE exE)
    fix sg
    assume c: "0 < cum" "sv_recover sv user (cum_word cum) (ucast secs) sg = Some (sv_signer sv)"
      and s': "s' = snd (restore_cumulative io1 user cum s)"
    have cum: "cum \<le> entitled fs user h" using ok c by blast
    have "lua_num x = x" if "0 \<le> x" "x \<le> entitled fs user h" for x
      using that le [of user] by (intro lua_num_exact) simp
    with cum c(1) balances_okD(1-4) [OF b, of user]
    have l: "lua_num cum = cum" "lua_num (or_zero (st_earned s user)) = or_zero (st_earned s user)"
      "lua_num (or_zero (st_last_voucher s user)) = or_zero (st_last_voucher s user)" by simp_all
    have "s' = s \<or> s' = s\<lparr>st_earned := (st_earned s)(user := Some (max (or_zero (st_earned s user)) cum)),
       st_last_voucher := (st_last_voucher s)(user := Some (max (or_zero (st_last_voucher s user)) cum))\<rparr>"
      unfolding s' restore_cumulative_def
      by (cases io1) (auto simp: round_trip_def Let_def l max_def)
    with b cum c(1) show ?thesis
      by (auto simp: balances_ok_def in_bound_def or_zero_def [of "Some _"])
  qed (use b in simp)
qed

lemma signed_in_set: "(u, c, t) \<in> set (signed_in calls) \<longleftrightarrow> Signed u c t \<in> set calls"
  by (induction calls rule: signed_in.induct) auto

lemma fee_tick_effect:
  assumes b: "balances_ok fs h s" and le: "fees h \<le> 2 ^ 53" and nn: "0 \<le> credited fs h"
    and t: "ft_fee_swapper task = fs" "fee_swap_tick task ev s = (r, calls)"
    and p: "\<And>p. fe_claimed ev fs = Some p \<Longrightarrow> uint p \<le> entitled fs fs h"
    and m: "(u, c, t) \<in> set (signed_in calls)"
  shows "uint c \<le> entitled fs u h"
proof -
  have mem: "Signed u c t \<in> set calls" using m by (simp add: signed_in_set)
  then have ne: "calls \<noteq> []" by auto
  have acc: "0 \<le> or_zero (st_fee_accrued s)" "or_zero (st_fee_accrued s) \<le> i64_max"
    using balances_okD(5,6) [OF b] le by (simp_all add: i64_max_def)
  obtain prev and delta :: u64 where d: "fe_claimed ev fs = Some prev" "u = fs" "c = prev + ucast delta"
    "delta \<noteq> 0 \<longrightarrow> uint (prev + ucast delta) \<le> or_zero (st_fee_accrued s)"
    using tick_signed [OF t(2) ne acc] mem unfolding t(1) by blast
  show ?thesis
  proof (cases "delta = 0")
    case True
    then show ?thesis using p [OF d(1)] d(2,3) by simp
  next
    case False
    then have "uint c \<le> fees h" using d(3,4) balances_okD(6) [OF b] by simp
    then show ?thesis using d(2) nn by (simp add: entitled_def)
  qed
qed

section \<open>The theorem\<close>

lemma mint_inv_share:
  assumes i: "mint_inv E ok signer fs st"
    and c: "credit io1 io2 now ms rate sh (mt_store st, mx) = (r, s', mx')"
    and h: "h = mt_shares st @ [(sa_miner sh, share_credit rate (sa_difficulty sh), share_fee rate (sa_difficulty sh))]"
    and w: "worked h \<le> 2 ^ 53"
  shows "mint_inv E ok signer fs (st\<lparr>mt_store := s', mt_shares := h\<rparr>)"
proof -
  note d = mint_invD [OF i]
  have b: "balances_ok fs h s'"
    unfolding h using balances_share [OF d(3)] credit_effect [OF c] shares_nonneg by blast
  have mono: "entitled fs u (mt_shares st) \<le> entitled fs u h" for u
    unfolding h using shares_nonneg [of rate "sa_difficulty sh"] by simp
  have sg: "uint x \<le> entitled fs u h" if "(u, x, t) \<in> set (mt_signed st)" for u x t
    using d(4) [OF that] mono [of u] by simp
  have cl: "uint (tk_claimed (mt_token st) u) \<le> entitled fs u h" for u
    using d(5) [of u] mono [of u] by simp
  have nn: "\<forall>(m, c, f) \<in> set h. 0 \<le> c \<and> 0 \<le> f"
    unfolding h using d(1) shares_nonneg by auto
  show ?thesis unfolding mint_inv_def using nn w b sg cl d(6,7) by auto
qed

lemma mint_inv_store:
  "mint_inv E ok signer fs st \<Longrightarrow> balances_ok fs (mt_shares st) s' \<Longrightarrow>
   (\<And>u c t. (u, c, t) \<in> set vs \<Longrightarrow> uint c \<le> entitled fs u (mt_shares st)) \<Longrightarrow>
   mint_inv E ok signer fs (st\<lparr>mt_store := s', mt_signed := vs @ mt_signed st\<rparr>)"
  unfolding mint_inv_def by auto

lemma mint_inv_token:
  "mint_inv E ok signer fs st \<Longrightarrow> (\<And>u. uint (tk_claimed t' u) \<le> entitled fs u (mt_shares st)) \<Longrightarrow>
   authorizedSigner t' = signer \<Longrightarrow> supply_inv E ok t' \<Longrightarrow> mint_inv E ok signer fs (st\<lparr>mt_token := t'\<rparr>)"
  unfolding mint_inv_def by auto

lemma mint_inv_entitled:
  "mint_inv E ok signer fs st \<Longrightarrow> entitled fs u (mt_shares st) \<le> 2 ^ 53"
  using entitled_bounds(2) [of "mt_shares st" fs u] mint_invD(1,2) by fastforce

lemma mint_inv_issue:
  assumes i: "mint_inv E ok signer fs st"
    and c: "issue sv e io1 reply io2 ts sign user amount (mt_store st) = (r, v, s')"
  shows "mint_inv E ok signer fs (st\<lparr>mt_store := s', mt_signed := (case v of None \<Rightarrow> [] | Some x \<Rightarrow> [x]) @ mt_signed st\<rparr>)"
proof (rule mint_inv_store [OF i])
  note d = mint_invD [OF i] and le = mint_inv_entitled [OF i]
  show "balances_ok fs (mt_shares st) s'" by (rule issue_effect(1) [OF d(3) le c])
  show "uint w \<le> entitled fs u (mt_shares st)" if "(u, w, t) \<in> set (case v of None \<Rightarrow> [] | Some x \<Rightarrow> [x])" for u w t
    using that by (intro issue_effect(2) [OF d(3) le c]) (auto split: option.splits)
qed

lemma mint_inv_restore:
  assumes i: "mint_inv E ok signer fs st"
    and sv: "sv_recover sv = rc" "sv_signer sv = signer" "in_i64 cum"
    and c: "restore sv e io1 io2 reply user cum secs sig (mt_store st) = (r, s')"
    and u: "\<forall>b. rc user (cum_word cum) (ucast secs) b = Some signer \<longrightarrow> (user, cum_word cum, ucast secs) \<in> set (mt_signed st)"
  shows "mint_inv E ok signer fs (st\<lparr>mt_store := s'\<rparr>)"
proof -
  note d = mint_invD [OF i] and le = mint_inv_entitled [OF i]
  have "balances_ok fs (mt_shares st) s'"
  proof (rule restore_effect [OF d(3) le c])
    fix b
    assume "sv_recover sv user (cum_word cum) (ucast secs) b = Some (sv_signer sv)" "0 < cum"
    then have "(user, cum_word cum, ucast secs) \<in> set (mt_signed st)" "uint (cum_word cum) = cum"
      using sv u by (auto intro!: uint_cum_word)
    then show "cum \<le> entitled fs user (mt_shares st)" using d(4) by metis
  qed
  then show ?thesis using mint_inv_store [OF i, of s' "[]"] by simp
qed

lemma mint_inv_fee_tick:
  assumes i: "mint_inv E ok signer fs st"
    and t: "ft_fee_swapper task = fs" "fee_swap_tick task ev (mt_store st) = (r, calls)"
    and p: "\<forall>p. fe_claimed ev fs = Some p \<longrightarrow> p \<le> tk_claimed (mt_token st) fs"
  shows "mint_inv E ok signer fs (st\<lparr>mt_signed := signed_in calls @ mt_signed st\<rparr>)"
proof -
  note d = mint_invD [OF i]
  have f: "fees (mt_shares st) \<le> 2 ^ 53" "0 \<le> credited fs (mt_shares st)"
    using totals_nonneg(1,3) [OF d(1), of fs] d(2) by simp_all
  have p: "uint p \<le> entitled fs fs (mt_shares st)" if "fe_claimed ev fs = Some p" for p
    using p that d(5) [of fs] by (auto simp: word_le_def)
  have "uint c \<le> entitled fs u (mt_shares st)" if "(u, c, k) \<in> set (signed_in calls)" for u c k
    by (rule fee_tick_effect [OF d(3) f t p that])
  then show ?thesis using mint_inv_store [OF i d(3), of "signed_in calls"] by simp
qed

lemma mint_inv_lost:
  assumes i: "mint_inv E ok signer fs st"
  shows "mint_inv E ok signer fs (st\<lparr>mt_store := evict_balance user (mt_store st)\<rparr>)"
    and "mint_inv E ok signer fs (st\<lparr>mt_store := empty_store\<rparr>)"
proof -
  note d = mint_invD [OF i]
  have "balances_ok fs (mt_shares st) (evict_balance user (mt_store st))"
    using d(3) entitled_bounds(1) [OF d(1)] by (auto simp: balances_ok_def evict_balance_def in_bound_def or_zero_def [of None])
  then show "mint_inv E ok signer fs (st\<lparr>mt_store := evict_balance user (mt_store st)\<rparr>)"
    using mint_inv_store [OF i, of _ "[]"] by simp
  have "balances_ok fs (mt_shares st) empty_store"
    using entitled_bounds(1) [OF d(1)] totals_nonneg(2) [OF d(1)]
    by (simp add: balances_ok_def empty_store_def in_bound_def or_zero_def)
  then show "mint_inv E ok signer fs (st\<lparr>mt_store := empty_store\<rparr>)"
    using mint_inv_store [OF i, of _ "[]"] by simp
qed

text \<open>The work done only grows, so a bound at the end holds all along.\<close>

lemma mint_step_worked:
  assumes "mint_step E ok rc signer fs st st'"
  shows "(\<forall>(m, c, f) \<in> set (mt_shares st). 0 \<le> c \<and> 0 \<le> f) \<longrightarrow>
      (\<forall>(m, c, f) \<in> set (mt_shares st'). 0 \<le> c \<and> 0 \<le> f)"
    and "worked (mt_shares st) \<le> worked (mt_shares st')"
  using assms by (induction rule: mint_step.induct) (auto simp: shares_nonneg add_nonneg_nonneg)

definition mint_safe :: "'l erc20 \<Rightarrow> ('l \<Rightarrow> bool) \<Rightarrow> address \<Rightarrow> address \<Rightarrow> 'l MintSys \<Rightarrow> bool" where
  "mint_safe E ok signer fs st \<longleftrightarrow>
     (\<forall>(m, c, f) \<in> set (mt_shares st). 0 \<le> c \<and> 0 \<le> f) \<and>
     (worked (mt_shares st) \<le> 2 ^ 53 \<longrightarrow> mint_inv E ok signer fs st)"

context erc20_ledger
begin

lemma mint_inv_claim:
  assumes i: "mint_inv E ok signer fs st"
    and c: "claim E rc user cum secs sig (mt_token st) = Inr (dl, t')"
    and u: "rc user cum secs sig = Some signer \<longrightarrow> (user, cum, secs) \<in> set (mt_signed st)"
  shows "mint_inv E ok signer fs (st\<lparr>mt_token := t'\<rparr>)"
proof -
  note d = mint_invD [OF i]
  obtain l where l: "rc user cum secs sig = Some (authorizedSigner (mt_token st))"
    "t' = (mt_token st)\<lparr>tk_claimed := (tk_claimed (mt_token st))(user := cum), tk_ledger := l\<rparr>"
    using claim_Inr [OF c] by metis
  have "uint cum \<le> entitled fs user (mt_shares st)" using u l(1) d(4,6) by auto
  moreover have "supply_inv E ok t'" by (rule supply_inv_step [OF token_step.step_claim [OF c] d(7)])
  ultimately show ?thesis using d(5,6) by (intro mint_inv_token [OF i]) (simp_all add: l(2))
qed

lemma mint_inv_step:
  assumes "mint_step E ok rc signer fs st st'" "mint_inv E ok signer fs st" "worked (mt_shares st') \<le> 2 ^ 53"
  shows "mint_inv E ok signer fs st'"
  using assms
proof (induction rule: mint_step.induct)
  case (share io1 io2 now ms rate sh st mx r s' mx' h)
  then show ?case by (intro mint_inv_share) simp_all
next
  case (issue sv e io1 reply io2 ts sign user amount st r v s')
  then show ?case by (intro mint_inv_issue)
next
  case (restore sv cum e io1 io2 reply user secs sig st r s')
  then show ?case by (intro mint_inv_restore)
next
  case (fee_tick task ev st r calls)
  then show ?case by (intro mint_inv_fee_tick)
next
  case (claim user cum secs sig st dl t')
  then show ?case by (intro mint_inv_claim)
next
  case (other_tx st t')
  then show ?case using mint_invD(5-7) [OF other_tx(4)] supply_inv_step [OF other_tx(1)]
    by (intro mint_inv_token) simp_all
next
  case (other_store s' st)
  then have "balances_ok fs (mt_shares st) s'" using mint_invD(3) [OF other_store(4)] by (simp add: balances_ok_def)
  then show ?case using mint_inv_store [OF other_store(4), of _ "[]"] by simp
qed (simp_all add: mint_inv_lost)

lemma mint_safe_step:
  assumes "mint_safe E ok signer fs st" "mint_step E ok rc signer fs st st'"
  shows "mint_safe E ok signer fs st'"
  using assms mint_step_worked [OF assms(2)] mint_inv_step [OF assms(2)] by (auto simp: mint_safe_def)

end

interpretation oz_minting: invariant "mint_step oz_erc20 oz_ok rc signer fs" "mint_safe oz_erc20 oz_ok signer fs" for rc signer fs
  by unfold_locales (rule oz.mint_safe_step)

text \<open>C31: every token is backed by work. Assume that signatures cannot be forged, that the owner
  never rotates the signer, that the fee swap never reads a claimed total ahead of the chain, and that the credits
  and fees of all accepted shares sum to at most \<open>2 ^ 53\<close>. Then from deployment, over any interleaving of
  credited shares, voucher requests, restores, fee ticks, claims, redemptions, lost replies, expiries and wipes of the
  store, no address has claimed more than it was credited (the fee swapper: plus the accrued fees), and the supply
  together with all redemptions never exceeds the credits and fees of all accepted shares.\<close>

theorem minting_backed_by_work:
  assumes "erc20_ledger E ok" "ok l0" "total_supply E l0 = 0"
    and "(mint_step E ok rc signer fs)\<^sup>*\<^sup>* (mint_start (Token_new l0 deployer signer subsidy router pairs)) st"
    and "worked (mt_shares st) \<le> 2 ^ 53"
  shows "uint (tk_claimed (mt_token st) u) \<le> entitled fs u (mt_shares st) \<and>
    int (unat (total_supply E (tk_ledger (mt_token st))) + redeemed (mt_token st)) \<le> worked (mt_shares st)"
proof -
  have "invariant (mint_step E ok rc signer fs) (mint_safe E ok signer fs)"
    by unfold_locales (rule erc20_ledger.mint_safe_step [OF assms(1)])
  moreover have "mint_safe E ok signer fs (mint_start (Token_new l0 deployer signer subsidy router pairs))"
    using assms(2,3) by (simp add: mint_safe_def mint_inv_def mint_start_def balances_ok_def in_bound_def entitled_def
        empty_store_def or_zero_def supply_inv_def redeemed_def Token_new_def word_sum_def)
  ultimately have "mint_safe E ok signer fs st" by (rule invariant.inv_steps [OF _ assms(4)])
  then have i: "mint_inv E ok signer fs st" using assms(5) by (simp add: mint_safe_def)
  have "int (word_sum (tk_claimed (mt_token st))) = (\<Sum>a\<in>UNIV. uint (tk_claimed (mt_token st) a))"
    by (simp add: word_sum_def)
  also have "\<dots> \<le> (\<Sum>a\<in>UNIV. entitled fs a (mt_shares st))" by (rule sum_mono) (rule mint_invD(5) [OF i])
  also have "\<dots> = worked (mt_shares st)" by (rule sum_entitled)
  finally have w: "int (word_sum (tk_claimed (mt_token st))) \<le> worked (mt_shares st)" .
  have "unat (total_supply E (tk_ledger (mt_token st))) + redeemed (mt_token st) \<le> word_sum (tk_claimed (mt_token st))"
    using mint_invD(7) [OF i] by (simp add: supply_inv_def)
  then have "int (unat (total_supply E (tk_ledger (mt_token st))) + redeemed (mt_token st))
      \<le> int (word_sum (tk_claimed (mt_token st)))" by (simp only: of_nat_le_iff)
  with w mint_invD(5) [OF i, of u] show ?thesis by linarith
qed

section \<open>A run\<close>

definition demo_rate :: RateCache where
  "demo_rate = \<lparr>rate_bits = Fin 1, rate_fee_bits = Fin 0, rate_set_at_unix = 0\<rparr>"

definition demo_share :: "address ShareAccepted" where
  "demo_share = \<lparr>sa_miner = 7, sa_job_id = ''j'', sa_difficulty = 1000, accepted_at = 0, forwarded_upstream = False\<rparr>"

definition demo_m0 :: "oz_ledger MintSys" where
  "demo_m0 = mint_start (Token_new demo_ledger 5 1 0 0 (None, 0))"

definition demo_m1 :: "oz_ledger MintSys" where
  "demo_m1 = demo_m0\<lparr>mt_store := fst (snd (credit IoOk IoOk 0 0 demo_rate demo_share (mt_store demo_m0, Metrics_new 0))),
     mt_shares := [(7, 1000, 0)]\<rparr>"

definition demo_issue where
  "demo_issue = issue demo_service ''io'' IoOk None IoOk 9 (\<lambda>u c t. Some (demo_sig u c t)) 7 (Some 400) (mt_store demo_m1)"

definition demo_m2 :: "oz_ledger MintSys" where
  "demo_m2 = demo_m1\<lparr>mt_store := snd (snd demo_issue), mt_signed := [(7, 400, 9)]\<rparr>"

definition demo_m3 :: "oz_ledger MintSys" where
  "demo_m3 = demo_m2\<lparr>mt_token := (case claim oz_erc20 (sv_recover demo_service) 7 400 9 (demo_sig 7 400 9) (mt_token demo_m2) of
     Inr (_, t) \<Rightarrow> t | Inl _ \<Rightarrow> mt_token demo_m2)\<rparr>"

lemma demo_mint_run:
  "(mint_step oz_erc20 oz_ok (sv_recover demo_service) 1 2)\<^sup>*\<^sup>* (mint_start (Token_new demo_ledger 5 1 0 0 (None, 0))) demo_m3"
proof -
  let ?step = "mint_step oz_erc20 oz_ok (sv_recover demo_service) 1 2"
  have "share_credit demo_rate 1000 = 1000" "share_fee demo_rate 1000 = 0" by code_simp+
  moreover obtain r s' mx' where "credit IoOk IoOk 0 0 demo_rate demo_share (mt_store demo_m0, Metrics_new 0) = (r, s', mx')"
    by (metis prod_cases3)
  ultimately have 1: "?step demo_m0 demo_m1"
    unfolding demo_m1_def using mint_step.share [of IoOk IoOk 0 0 demo_rate demo_share demo_m0 "Metrics_new 0"]
    by (simp add: demo_share_def demo_m0_def mint_start_def worked_def)
  have "fst (snd demo_issue) = Some (7, 400, 9)" by code_simp
  then have 2: "?step demo_m1 demo_m2"
    unfolding demo_m2_def demo_issue_def
    using mint_step.issue [of demo_service "''io''" IoOk None IoOk 9 "\<lambda>u c t. Some (demo_sig u c t)" 7 "Some 400" demo_m1]
    by (cases "issue demo_service ''io'' IoOk None IoOk 9 (\<lambda>u c t. Some (demo_sig u c t)) 7 (Some 400) (mt_store demo_m1)")
      (auto simp: demo_m1_def demo_m0_def mint_start_def)
  have "case claim oz_erc20 (sv_recover demo_service) 7 400 9 (demo_sig 7 400 9) (mt_token demo_m2) of
      Inr _ \<Rightarrow> True | Inl _ \<Rightarrow> False" by code_simp
  then have 3: "?step demo_m2 demo_m3"
    unfolding demo_m3_def by (auto split: sum.splits prod.splits simp: demo_m2_def intro!: mint_step.claim)
  from 1 2 3 show ?thesis unfolding demo_m0_def by (meson converse_rtranclp_into_rtranclp rtranclp.rtrancl_refl)
qed

theorem minting_backed_by_work_witness:
  "tk_claimed (mt_token demo_m3) 7 = 400 \<and> entitled 2 7 (mt_shares demo_m3) = 1000 \<and>
   uint (tk_claimed (mt_token demo_m3) 7) \<le> entitled 2 7 (mt_shares demo_m3)"
proof -
  have "oz_ok demo_ledger" "total_supply oz_erc20 demo_ledger = 0"
    by (simp_all add: oz_ok_def demo_ledger_def word_sum_def oz_erc20_def)
  moreover have "worked (mt_shares demo_m3) \<le> 2 ^ 53" by code_simp
  ultimately have "uint (tk_claimed (mt_token demo_m3) 7) \<le> entitled 2 7 (mt_shares demo_m3) \<and>
      int (unat (total_supply oz_erc20 (tk_ledger (mt_token demo_m3))) + redeemed (mt_token demo_m3)) \<le> worked (mt_shares demo_m3)"
    by (intro minting_backed_by_work [OF oz.erc20_ledger_axioms _ _ demo_mint_run])
  then have "uint (tk_claimed (mt_token demo_m3) 7) \<le> entitled 2 7 (mt_shares demo_m3)" by (rule conjunct1)
  moreover have "tk_claimed (mt_token demo_m3) 7 = 400" by code_simp
  moreover have "entitled 2 7 (mt_shares demo_m3) = 1000" by code_simp
  ultimately show ?thesis by simp
qed

text \<open>The bound on the lifetime credit is needed: beyond it the restore script, which computes
  in binary64, can hand back more than the voucher stands for.\<close>

lemma restore_can_exceed:
  "st_earned (snd (restore_cumulative IoOk (7 :: address) 9007199254740995 empty_store)) 7 = Some 9007199254740996"
  by code_simp

end
