(* ===== verification/Pps_Rate.thy ===== *)
theory Pps_Rate
  imports Rates Metrics
begin

text \<open>
  \<open>pps-rate/src/lib.rs\<close>: the loop that publishes the pay-per-share rate from a quorum of
  remote nodes. Random sampling and the HTTP calls are parameters; hash maps whose order does
  not matter are association lists in order of first insertion.
\<close>

section \<open>Configuration and samples\<close>

definition HEALTH_DECAY :: f64 where "HEALTH_DECAY = Fin (1 / 2)"
definition HEALTH_PENALTY :: f64 where "HEALTH_PENALTY = Fin 1"
definition TAIL_BLOCK_REWARD_ATOMIC :: u64 where "TAIL_BLOCK_REWARD_ATOMIC = 600000000000"

record PpsConfig =
  pc_risk_buffer :: f64
  pc_upstream_fee :: f64
  pc_operational_cost :: u64
  pc_monerod_rpc :: string
  pc_monerod_rpc_pool :: "string list"
  pc_quorum_size :: nat
  pc_sample_size :: nat

record NodeSample =
  ns_url :: string
  ns_height :: u64
  ns_difficulty :: u64

section \<open>The quorum\<close>

definition pair_of :: "NodeSample \<Rightarrow> u64 \<times> u64" where
  "pair_of s = (ns_height s, ns_difficulty s)"

definition by_pair :: "NodeSample list \<Rightarrow> ((u64 \<times> u64) \<times> nat) list" where
  "by_pair samples =
     map (\<lambda>p. (p, length (filter (\<lambda>s. pair_of s = p) samples))) (remdups (map pair_of samples))"

definition quorum_diffs :: "nat \<Rightarrow> u64 \<Rightarrow> ((u64 \<times> u64) \<times> nat) list \<Rightarrow> u64 list" where
  "quorum_diffs quorum h pairs =
     map (\<lambda>((_, d), _). d) (filter (\<lambda>((_, _), n). quorum \<le> n) (filter (\<lambda>((h', _), _). h' = h) pairs))"

datatype quorum_error = NoSamples | Ambiguous u64 "u64 list" | NoQuorum nat nat

fun scan_heights :: "nat \<Rightarrow> nat \<Rightarrow> ((u64 \<times> u64) \<times> nat) list \<Rightarrow> u64 list \<Rightarrow> quorum_error + u64" where
  "scan_heights quorum n pairs [] = Inl (NoQuorum quorum n)"
| "scan_heights quorum n pairs (h # hs) =
     (case quorum_diffs quorum h pairs of
        [] \<Rightarrow> scan_heights quorum n pairs hs
      | [d] \<Rightarrow> Inr d
      | ds \<Rightarrow> Inl (Ambiguous h ds))"

definition decide_quorum :: "NodeSample list \<Rightarrow> nat \<Rightarrow> quorum_error + u64" where
  "decide_quorum samples quorum =
     (if samples = [] then Inl NoSamples
      else scan_heights quorum (length samples) (by_pair samples)
             (rev (sort (remdups (map ns_height samples)))))"

section \<open>One tick\<close>

definition effective_pool :: "string \<Rightarrow> string list \<Rightarrow> string list" where
  "effective_pool single pool =
     (if single \<noteq> [] \<and> single \<notin> set pool then pool @ [single] else pool)"

text \<open>The picks of the generator: weighted, or uniform when the weights are degenerate.\<close>

definition node_weight :: "(string \<Rightarrow> f64 option) \<Rightarrow> string \<Rightarrow> f64" where
  "node_weight health u = fdiv (Fin 1) (fadd (Fin 1) (case health u of Some s \<Rightarrow> s | None \<Rightarrow> Fin 0))"

definition pick_weighted ::
  "(string list \<Rightarrow> nat \<Rightarrow> (string \<Rightarrow> f64) \<Rightarrow> string list option) \<Rightarrow> (string list \<Rightarrow> nat \<Rightarrow> string list) \<Rightarrow>
   string list \<Rightarrow> (string \<Rightarrow> f64 option) \<Rightarrow> nat \<Rightarrow> string list" where
  "pick_weighted choose_weighted uniform urls health k =
     (case choose_weighted urls k (node_weight health) of Some us \<Rightarrow> us | None \<Rightarrow> uniform urls k)"

text \<open>A node answers with its height and difficulty or fails.\<close>

definition sample_nodes :: "(string \<Rightarrow> (u64 \<times> u64) option) \<Rightarrow> string list \<Rightarrow> (string \<times> NodeSample option) list" where
  "sample_nodes get_info urls =
     map (\<lambda>u. (u, map_option (\<lambda>(h, d). \<lparr>ns_url = u, ns_height = h, ns_difficulty = d\<rparr>) (get_info u))) urls"

fun penalise :: "(string \<times> NodeSample option) list \<Rightarrow> (string \<Rightarrow> f64 option) \<Rightarrow> string \<Rightarrow> f64 option" where
  "penalise [] health = health"
| "penalise ((u, Some _) # os) health = penalise os health"
| "penalise ((u, None) # os) health =
     penalise os (health(u := Some (fadd (case health u of Some s \<Rightarrow> s | None \<Rightarrow> Fin 0) HEALTH_PENALTY)))"

definition quorum_difficulty :: "(string \<Rightarrow> (u64 \<times> u64) option) \<Rightarrow> string list \<Rightarrow> nat \<Rightarrow> quorum_error + u64" where
  "quorum_difficulty get_info urls quorum =
     decide_quorum (List.map_filter snd (sample_nodes get_info urls)) quorum"

datatype tick_error = NoRpc | Quorum quorum_error

definition decay :: "(string \<Rightarrow> f64 option) \<Rightarrow> string \<Rightarrow> f64 option" where
  "decay health u = map_option (\<lambda>v. fmul v HEALTH_DECAY) (health u)"

definition sample_size_of :: "PpsConfig \<Rightarrow> nat" where
  "sample_size_of cfg =
     (if pc_sample_size cfg > 0 then pc_sample_size cfg else max (pc_quorum_size cfg) 1 + 1)"

definition publish_rate :: "PpsConfig \<Rightarrow> FeeCache \<Rightarrow> int \<Rightarrow> int \<Rightarrow> Metrics \<Rightarrow> u64 \<Rightarrow> RateCache \<Rightarrow> f64 \<times> RateCache" where
  "publish_rate cfg fee now timestamp mx difficulty cache =
     (let bd = compute \<lparr>block_reward_atomic = f64_of_word TAIL_BLOCK_REWARD_ATOMIC,
                network_difficulty = f64_of_word difficulty, upstream_fee = pc_upstream_fee cfg,
                pool_fee = FeeCache_get fee, risk_buffer = pc_risk_buffer cfg,
                operational_cost_atomic_per_second = f64_of_word (pc_operational_cost cfg),
                pool_hashrate = fmax (hashrate now mx) (Fin 1)\<rparr>
      in (net_rate bd, set_fee_rate (fee_per_diff bd) (RateCache_set (net_rate bd) timestamp cache)))"

definition rate_tick ::
  "(string list \<Rightarrow> nat \<Rightarrow> (string \<Rightarrow> f64) \<Rightarrow> string list option) \<Rightarrow> (string list \<Rightarrow> nat \<Rightarrow> string list) \<Rightarrow>
   (string \<Rightarrow> (u64 \<times> u64) option) \<Rightarrow> PpsConfig \<Rightarrow> FeeCache \<Rightarrow> int \<Rightarrow> int \<Rightarrow> Metrics \<Rightarrow>
   RateCache \<times> (string \<Rightarrow> f64 option) \<Rightarrow> (tick_error + f64) \<times> RateCache \<times> (string \<Rightarrow> f64 option)" where
  "rate_tick choose_weighted uniform get_info cfg fee now timestamp mx = (\<lambda>(cache, health0).
     let health = decay health0;
         urls = effective_pool (pc_monerod_rpc cfg) (pc_monerod_rpc_pool cfg)
     in if urls = [] then (Inl NoRpc, cache, health)
        else let quorum = max (pc_quorum_size cfg) 1;
                 picks = pick_weighted choose_weighted uniform urls health (min (sample_size_of cfg) (length urls));
                 outcomes = sample_nodes get_info picks;
                 health1 = penalise outcomes health
             in case decide_quorum (List.map_filter snd outcomes) quorum of
                  Inl e \<Rightarrow> (Inl (Quorum e), cache, health1)
                | Inr difficulty \<Rightarrow>
                    (case publish_rate cfg fee now timestamp mx difficulty cache of
                       (r, cache1) \<Rightarrow> (Inr r, cache1, health1)))"

section \<open>The quorum decision\<close>

definition votes :: "NodeSample list \<Rightarrow> u64 \<Rightarrow> u64 \<Rightarrow> nat" where
  "votes samples h d = length (filter (\<lambda>s. ns_height s = h \<and> ns_difficulty s = d) samples)"

lemma by_pair_votes:
  "by_pair samples = map (\<lambda>(h, d). ((h, d), votes samples h d)) (remdups (map pair_of samples))"
  by (auto simp: by_pair_def votes_def pair_of_def)

lemma quorum_diffs_eq:
  "quorum_diffs q h (by_pair samples) =
     map snd (filter (\<lambda>(h', d). h' = h \<and> q \<le> votes samples h d) (remdups (map pair_of samples)))"
  unfolding quorum_diffs_def by_pair_votes filter_map map_map filter_filter
  by (auto simp: comp_def intro!: map_cong filter_cong)

lemma votes_pos: "0 < votes samples h d \<longleftrightarrow> (h, d) \<in> set (map pair_of samples)"
  by (auto simp: votes_def pair_of_def filter_empty_conv)

lemma set_quorum_diffs:
  assumes "1 \<le> q"
  shows "set (quorum_diffs q h (by_pair samples)) = {d. q \<le> votes samples h d}"
proof -
  define P where "P = set (map pair_of samples)"
  have eq: "set (quorum_diffs q h (by_pair samples)) = snd ` {p \<in> P. fst p = h \<and> q \<le> votes samples h (snd p)}"
    unfolding quorum_diffs_eq P_def by (simp add: case_prod_beta)
  have "(h, d) \<in> P" if "q \<le> votes samples h d" for d
    using that assms votes_pos [of samples h d] by (simp add: P_def)
  then have "x \<in> snd ` {p \<in> P. fst p = h \<and> q \<le> votes samples h (snd p)}" if "q \<le> votes samples h x" for x
    using that by (intro image_eqI [of _ _ "(h, x)"]) simp_all
  then show ?thesis unfolding eq by auto
qed

lemma distinct_quorum_diffs: "distinct (quorum_diffs q h (by_pair samples))"
  unfolding quorum_diffs_eq by (auto simp: distinct_map inj_on_def)

lemma quorum_diffs_single:
  assumes "1 \<le> q"
  shows "quorum_diffs q h (by_pair samples) = [d] \<longleftrightarrow>
     q \<le> votes samples h d \<and> (\<forall>d'. q \<le> votes samples h d' \<longrightarrow> d' = d)"
proof -
  have "xs = [d] \<longleftrightarrow> distinct xs \<and> set xs = {d}" for xs :: "u64 list"
    by (cases xs; cases "tl xs") auto
  then show ?thesis
    using distinct_quorum_diffs [of q h samples] set_quorum_diffs [OF assms, of h samples] by auto
qed

lemma quorum_diffs_none:
  assumes "1 \<le> q"
  shows "quorum_diffs q h (by_pair samples) = [] \<longleftrightarrow> (\<forall>d. votes samples h d < q)"
  using set_quorum_diffs [OF assms, of h samples] by (auto simp: not_less [symmetric] set_empty [symmetric] simp del: set_empty)

lemma scan_heights_iff:
  assumes "sorted_wrt (>) hs"
  shows "scan_heights q n pairs hs = Inr d \<longleftrightarrow>
    (\<exists>h\<in>set hs. quorum_diffs q h pairs = [d] \<and> (\<forall>h'\<in>set hs. h < h' \<longrightarrow> quorum_diffs q h' pairs = []))"
  using assms
proof (induction hs)
  case (Cons h hs)
  then have below: "\<forall>h'\<in>set hs. h' < h" and IH: "scan_heights q n pairs hs = Inr d \<longleftrightarrow>
    (\<exists>h\<in>set hs. quorum_diffs q h pairs = [d] \<and> (\<forall>h'\<in>set hs. h < h' \<longrightarrow> quorum_diffs q h' pairs = []))"
    by auto
  show ?case
  proof (cases "quorum_diffs q h pairs")
    case Nil
    with IH below show ?thesis by auto
  next
    case (Cons x xs)
    with below show ?thesis by (cases xs) (auto dest: less_asym)
  qed
qed simp

lemma heights_descend: "sorted_wrt (>) (rev (sort (remdups (xs :: u64 list))))"
  by (simp add: sorted_wrt_rev strict_sorted_iff)

lemma decide_quorum_iff:
  assumes "1 \<le> q"
  shows "decide_quorum samples q = Inr d \<longleftrightarrow>
    (\<exists>h. q \<le> votes samples h d \<and> (\<forall>d'. q \<le> votes samples h d' \<longrightarrow> d' = d) \<and>
       (\<forall>h' d'. h < h' \<longrightarrow> votes samples h' d' < q))"
proof -
  have mem: "h \<in> set (map ns_height samples)" if "q \<le> votes samples h d" for h d
    using that assms votes_pos [of samples h d] by (force simp: pair_of_def)
  have "decide_quorum samples q = Inr d \<longleftrightarrow>
    (\<exists>h\<in>set (map ns_height samples). quorum_diffs q h (by_pair samples) = [d] \<and>
       (\<forall>h'\<in>set (map ns_height samples). h < h' \<longrightarrow> quorum_diffs q h' (by_pair samples) = []))"
    using scan_heights_iff [OF heights_descend, of q "length samples" "by_pair samples" "map ns_height samples" d]
    by (simp add: decide_quorum_def)
  also have "\<dots> \<longleftrightarrow> (\<exists>h. q \<le> votes samples h d \<and> (\<forall>d'. q \<le> votes samples h d' \<longrightarrow> d' = d) \<and>
       (\<forall>h' d'. h < h' \<longrightarrow> votes samples h' d' < q))"
    unfolding quorum_diffs_single [OF assms] quorum_diffs_none [OF assms]
    using mem by (meson not_less)
  finally show ?thesis .
qed

text \<open>C32: the published difficulty is a quorum's. \<open>decide_quorum\<close> returns \<open>d\<close> exactly when some height has
  \<open>d\<close> as its only difficulty with at least \<open>quorum\<close> reports and no higher height has any;
  so with fewer than \<open>quorum\<close> lying samples the returned difficulty was reported by an
  honest node, whatever the others say.\<close>

theorem quorum_sound:
  assumes "1 \<le> q"
  shows "(decide_quorum samples q = Inr d \<longleftrightarrow>
      (\<exists>h. q \<le> votes samples h d \<and> (\<forall>d'. q \<le> votes samples h d' \<longrightarrow> d' = d) \<and>
         (\<forall>h' d'. h < h' \<longrightarrow> votes samples h' d' < q))) \<and>
    (length (filter (\<lambda>s. \<not> honest s) samples) < q \<and> decide_quorum samples q = Inr d \<longrightarrow>
      (\<exists>s\<in>set samples. honest s \<and> ns_difficulty s = d))"
proof -
  have "\<exists>s\<in>set samples. honest s \<and> ns_difficulty s = d"
    if l: "length (filter (\<lambda>s. \<not> honest s) samples) < q" and v: "q \<le> votes samples h d" for h
  proof (rule ccontr)
    assume no: "\<not> (\<exists>s\<in>set samples. honest s \<and> ns_difficulty s = d)"
    have "card {i. i < length samples \<and> (ns_height (samples ! i) = h \<and> ns_difficulty (samples ! i) = d)}
        \<le> card {i. i < length samples \<and> \<not> honest (samples ! i)}"
      by (rule card_mono) (use no in \<open>auto dest: nth_mem\<close>)
    then have "votes samples h d \<le> length (filter (\<lambda>s. \<not> honest s) samples)"
      by (simp add: votes_def length_filter_conv_card)
    with l v show False by simp
  qed
  with decide_quorum_iff [OF assms, of samples d] show ?thesis by blast
qed

definition demo_samples :: "NodeSample list" where
  "demo_samples = [\<lparr>ns_url = ''a'', ns_height = 100, ns_difficulty = 999\<rparr>,
     \<lparr>ns_url = ''b'', ns_height = 100, ns_difficulty = 999\<rparr>,
     \<lparr>ns_url = ''c'', ns_height = 101, ns_difficulty = 5\<rparr>]"

theorem quorum_sound_witness:
  "decide_quorum demo_samples 2 = Inr 999 \<and>
   (\<exists>s\<in>set demo_samples. ns_url s \<noteq> ''c'' \<and> ns_difficulty s = 999)"
proof -
  have d: "decide_quorum demo_samples 2 = Inr 999" by code_simp
  have "length (filter (\<lambda>s. \<not> ns_url s \<noteq> ''c'') demo_samples) < 2" by code_simp
  with d quorum_sound [of 2 demo_samples 999 "\<lambda>s. ns_url s \<noteq> ''c''"] show ?thesis by simp
qed

text \<open>A failed tick publishes nothing: the caches keep what they had.\<close>

lemma rate_tick_failed:
  "rate_tick cw cu gi cfg fee now ts mx (cache, health) = (Inl e, cache', health') \<Longrightarrow> cache' = cache"
  by (auto simp: rate_tick_def Let_def split: if_splits sum.splits prod.splits)

text \<open>Votes are counted by list entry: a node listed twice is a quorum of two by itself.\<close>

lemma duplicate_node_is_a_quorum:
  "quorum_difficulty (\<lambda>u. if u = ''http://x'' then Some (7, 1) else None)
     (effective_pool [] [''http://x'', ''http://x'', ''http://y'']) 2 = Inr 1"
  by code_simp

end
