(* ===== verification/Governance.thy ===== *)
theory Governance
  imports Token
begin

text \<open>
  \<open>contracts/src/PoolGovernance.sol\<close> and \<open>contracts/src/RoflAdminGovernance.sol\<close>: the two
  timelocks. A transaction carries its sender; \<open>now\<close> is the block's timestamp. An external call may
  call into the contract again, so the calls its target makes and its result are part of the
  transaction. Hashing is a parameter. The event log is kept newest first, with one entry more than the
  contract emits: \<open>Called\<close> where control leaves it.
\<close>

section \<open>PoolGovernance\<close>

datatype gov_event =
    GovernorTransferred address address
  | Queued u256 address u256 "u8 list" u256
  | Called u256 address u256 "u8 list"
  | Executed u256 address u256 "u8 list"
  | Cancelled u256
  | Renounced

record Gov =
  g_governor :: address
  g_delay :: u256
  g_renounced :: bool
  g_queuedAt :: "u256 \<Rightarrow> u256"
  g_log :: "(u256 \<times> gov_event) list"

type_synonym op_id = "address \<Rightarrow> u256 \<Rightarrow> u8 list \<Rightarrow> u256"

definition Gov_new :: "address \<Rightarrow> u256 \<Rightarrow> string + Gov" where
  "Gov_new gvn dly =
     (if gvn = 0 then Inl ''governor=0''
      else Inr \<lparr>g_governor = gvn, g_delay = dly, g_renounced = False, g_queuedAt = (\<lambda>_. 0), g_log = []\<rparr>)"

definition transferGovernor :: "address \<Rightarrow> u256 \<Rightarrow> address \<Rightarrow> Gov \<Rightarrow> string + Gov" where
  "transferGovernor sender now to_addr g =
     (if sender \<noteq> g_governor g then Inl ''not governor''
      else if g_renounced g then Inl ''renounced''
      else if to_addr = 0 then Inl ''governor=0''
      else Inr (g\<lparr>g_log := (now, GovernorTransferred (g_governor g) to_addr) # g_log g, g_governor := to_addr\<rparr>))"

definition queue :: "op_id \<Rightarrow> address \<Rightarrow> u256 \<Rightarrow> address \<Rightarrow> u256 \<Rightarrow> u8 list \<Rightarrow> Gov \<Rightarrow> string + Gov" where
  "queue opid sender now target value data g =
     (if sender \<noteq> g_governor g then Inl ''not governor''
      else if g_renounced g then Inl ''renounced''
      else let h = opid target value data
           in if g_queuedAt g h \<noteq> 0 then Inl ''already queued''
              else if uint now + uint (g_delay g) \<ge> 2 ^ 256 then Inl ''Panic(0x11)''
              else let eta = now + g_delay g
                   in Inr (g\<lparr>g_queuedAt := (g_queuedAt g)(h := eta), g_log := (now, Queued h target value data eta) # g_log g\<rparr>))"

definition cancel :: "op_id \<Rightarrow> address \<Rightarrow> u256 \<Rightarrow> address \<Rightarrow> u256 \<Rightarrow> u8 list \<Rightarrow> Gov \<Rightarrow> string + Gov" where
  "cancel opid sender now target value data g =
     (if sender \<noteq> g_governor g then Inl ''not governor''
      else let h = opid target value data
           in if g_queuedAt g h = 0 then Inl ''not queued''
              else Inr (g\<lparr>g_queuedAt := (g_queuedAt g)(h := 0), g_log := (now, Cancelled h) # g_log g\<rparr>))"

text \<open>\<open>execute\<close> up to the external call, and from its return.\<close>

definition execute_enter :: "op_id \<Rightarrow> address \<Rightarrow> u256 \<Rightarrow> address \<Rightarrow> u256 \<Rightarrow> u8 list \<Rightarrow> Gov \<Rightarrow> string + Gov" where
  "execute_enter opid sender now target value data g =
     (if sender \<noteq> g_governor g then Inl ''not governor''
      else if g_renounced g then Inl ''renounced''
      else let h = opid target value data; eta = g_queuedAt g h
           in if eta = 0 then Inl ''not queued''
              else if now < eta then Inl ''timelock''
              else Inr (g\<lparr>g_queuedAt := (g_queuedAt g)(h := 0), g_log := (now, Called h target value data) # g_log g\<rparr>))"

definition execute_leave :: "op_id \<Rightarrow> u256 \<Rightarrow> address \<Rightarrow> u256 \<Rightarrow> u8 list \<Rightarrow> bool \<Rightarrow> Gov \<Rightarrow> string + Gov" where
  "execute_leave opid now target value data call_ok g =
     (if \<not> call_ok then Inl ''exec failed''
      else Inr (g\<lparr>g_log := (now, Executed (opid target value data) target value data) # g_log g\<rparr>))"

definition renounce :: "address \<Rightarrow> u256 \<Rightarrow> Gov \<Rightarrow> string + Gov" where
  "renounce sender now g =
     (if sender \<noteq> g_governor g then Inl ''not governor''
      else Inr (g\<lparr>g_renounced := True, g_log := (now, Renounced) # g_log g\<rparr>))"

datatype gov_tx =
    TransferGovernor address address
  | Queue address address u256 "u8 list"
  | Cancel address address u256 "u8 list"
  | Execute address address u256 "u8 list" "gov_tx list" bool
  | Renounce address

text \<open>A transaction that reverts undoes everything it did, the calls made within it included; a
  reverting inner call leaves its caller to carry on.\<close>

fun gov_call :: "op_id \<Rightarrow> u256 \<Rightarrow> gov_tx \<Rightarrow> Gov \<Rightarrow> string + Gov"
  and gov_calls :: "op_id \<Rightarrow> u256 \<Rightarrow> gov_tx list \<Rightarrow> Gov \<Rightarrow> Gov" where
  "gov_call opid now (TransferGovernor sender to_addr) g = transferGovernor sender now to_addr g"
| "gov_call opid now (Queue sender target value data) g = queue opid sender now target value data g"
| "gov_call opid now (Cancel sender target value data) g = cancel opid sender now target value data g"
| "gov_call opid now (Execute sender target value data inner call_ok) g =
     (case execute_enter opid sender now target value data g of
        Inl e \<Rightarrow> Inl e
      | Inr g1 \<Rightarrow> execute_leave opid now target value data call_ok (gov_calls opid now inner g1))"
| "gov_call opid now (Renounce sender) g = renounce sender now g"
| "gov_calls opid now [] g = g"
| "gov_calls opid now (t # ts) g = gov_calls opid now ts (case gov_call opid now t g of Inl _ \<Rightarrow> g | Inr g' \<Rightarrow> g')"

inductive gov_step :: "op_id \<Rightarrow> Gov \<Rightarrow> Gov \<Rightarrow> bool" for opid where
  tx: "gov_call opid now t g = Inr g' \<Longrightarrow> gov_step opid g g'"

section \<open>RoflAdminGovernance\<close>

datatype adm_event = AProposed u256 "u8 list" u256 | ARelayed "u8 list" | AExecuted u256 | ACancelled u256 | AGovernorTransferred address address

record Adm =
  ad_governor :: address
  ad_delay :: u256
  ad_pendingHash :: u256
  ad_eta :: u256
  ad_log :: "(u256 \<times> adm_event) list"

definition Adm_new :: "address \<Rightarrow> u256 \<Rightarrow> string + Adm" where
  "Adm_new gvn dly =
     (if gvn = 0 then Inl ''governor=0''
      else Inr \<lparr>ad_governor = gvn, ad_delay = dly, ad_pendingHash = 0, ad_eta = 0, ad_log = []\<rparr>)"

definition adm_transferGovernor :: "address \<Rightarrow> u256 \<Rightarrow> address \<Rightarrow> Adm \<Rightarrow> string + Adm" where
  "adm_transferGovernor sender now to_addr a =
     (if sender \<noteq> ad_governor a then Inl ''not governor''
      else if to_addr = 0 then Inl ''governor=0''
      else Inr (a\<lparr>ad_log := (now, AGovernorTransferred (ad_governor a) to_addr) # ad_log a, ad_governor := to_addr\<rparr>))"

definition propose :: "(u8 list \<Rightarrow> u256) \<Rightarrow> address \<Rightarrow> u256 \<Rightarrow> u8 list \<Rightarrow> Adm \<Rightarrow> string + Adm" where
  "propose keccak sender now updateBody a =
     (if sender \<noteq> ad_governor a then Inl ''not governor''
      else if updateBody = [] then Inl ''empty body''
      else if uint now + uint (ad_delay a) \<ge> 2 ^ 256 then Inl ''Panic(0x11)''
      else let h = keccak updateBody; e = now + ad_delay a
           in Inr (a\<lparr>ad_pendingHash := h, ad_eta := e, ad_log := (now, AProposed h updateBody e) # ad_log a\<rparr>))"

definition adm_cancel :: "address \<Rightarrow> u256 \<Rightarrow> Adm \<Rightarrow> string + Adm" where
  "adm_cancel sender now a =
     (if sender \<noteq> ad_governor a then Inl ''not governor''
      else Inr (a\<lparr>ad_log := (now, ACancelled (ad_pendingHash a)) # ad_log a, ad_pendingHash := 0, ad_eta := 0\<rparr>))"

definition adm_execute :: "(u8 list \<Rightarrow> u256) \<Rightarrow> address \<Rightarrow> u256 \<Rightarrow> u8 list \<Rightarrow> u64 \<Rightarrow> Adm \<Rightarrow> string + Adm" where
  "adm_execute keccak sender now updateBody status a =
     (if sender \<noteq> ad_governor a then Inl ''not governor''
      else if \<not> (ad_eta a \<noteq> 0 \<and> now \<ge> ad_eta a) then Inl ''timelock''
      else if keccak updateBody \<noteq> ad_pendingHash a then Inl ''body mismatch''
      else let h = ad_pendingHash a; a1 = a\<lparr>ad_pendingHash := 0, ad_eta := 0, ad_log := (now, ARelayed updateBody) # ad_log a\<rparr>
           in if status \<noteq> 0 then Inl ''rofl.Update failed'' else Inr (a1\<lparr>ad_log := (now, AExecuted h) # ad_log a1\<rparr>))"

inductive adm_step :: "(u8 list \<Rightarrow> u256) \<Rightarrow> Adm \<Rightarrow> Adm \<Rightarrow> bool" for keccak where
  transfer: "adm_transferGovernor sender now to_addr a = Inr a' \<Longrightarrow> adm_step keccak a a'"
| propose: "propose keccak sender now body a = Inr a' \<Longrightarrow> adm_step keccak a a'"
| cancel: "adm_cancel sender now a = Inr a' \<Longrightarrow> adm_step keccak a a'"
| execute: "adm_execute keccak sender now body status a = Inr a' \<Longrightarrow> adm_step keccak a a'"

section \<open>Timelocks hold\<close>

text \<open>What must precede a call, on the events before it: a queued entry of the same operation whose
  delay has run out, more of them than calls so far, and no renouncement.\<close>

definition n_queued :: "u256 \<Rightarrow> (u256 \<times> gov_event) list \<Rightarrow> nat" where
  "n_queued h lg = length (filter (\<lambda>(_, e). case e of Queued h' _ _ _ _ \<Rightarrow> h' = h | _ \<Rightarrow> False) lg)"

definition n_called :: "u256 \<Rightarrow> (u256 \<times> gov_event) list \<Rightarrow> nat" where
  "n_called h lg = length (filter (\<lambda>(_, e). case e of Called h' _ _ _ \<Rightarrow> h' = h | _ \<Rightarrow> False) lg)"

definition was_queued :: "op_id \<Rightarrow> u256 \<Rightarrow> u256 \<Rightarrow> u256 \<Rightarrow> (u256 \<times> gov_event) list \<Rightarrow> bool" where
  "was_queued opid dly h eta lg \<longleftrightarrow>
     (\<exists>t target value data. (t, Queued h target value data eta) \<in> set lg \<and> opid target value data = h \<and>
        uint eta = uint t + uint dly)"

definition may_call :: "op_id \<Rightarrow> u256 \<Rightarrow> u256 \<Rightarrow> u256 \<Rightarrow> (u256 \<times> gov_event) list \<Rightarrow> bool" where
  "may_call opid dly now h lg \<longleftrightarrow>
     (\<exists>eta. was_queued opid dly h eta lg \<and> eta \<le> now) \<and> n_called h lg < n_queued h lg \<and> Renounced \<notin> snd ` set lg"

fun timelocked :: "op_id \<Rightarrow> u256 \<Rightarrow> (u256 \<times> gov_event) list \<Rightarrow> bool" where
  "timelocked opid dly [] = True"
| "timelocked opid dly ((now, e) # lg) =
     ((case e of Called h target value data \<Rightarrow> h = opid target value data \<and> may_call opid dly now h lg | _ \<Rightarrow> True) \<and>
      timelocked opid dly lg)"

definition gov_inv :: "op_id \<Rightarrow> u256 \<Rightarrow> Gov \<Rightarrow> bool" where
  "gov_inv opid dly g \<longleftrightarrow>
     g_delay g = dly \<and> timelocked opid dly (g_log g) \<and> (Renounced \<in> snd ` set (g_log g) \<longrightarrow> g_renounced g) \<and>
     (\<forall>h. g_queuedAt g h \<noteq> 0 \<longrightarrow> was_queued opid dly h (g_queuedAt g h) (g_log g)) \<and>
     (\<forall>h. n_called h (g_log g) + (if g_queuedAt g h \<noteq> 0 then 1 else 0) \<le> n_queued h (g_log g))"

lemma n_queued_Cons: "n_queued h ((t, e) # lg) = n_queued h lg + (case e of Queued h' _ _ _ _ \<Rightarrow> if h' = h then 1 else 0 | _ \<Rightarrow> 0)"
  by (simp add: n_queued_def split: gov_event.split)

lemma n_called_Cons: "n_called h ((t, e) # lg) = n_called h lg + (case e of Called h' _ _ _ \<Rightarrow> if h' = h then 1 else 0 | _ \<Rightarrow> 0)"
  by (simp add: n_called_def split: gov_event.split)

lemma was_queued_Cons: "was_queued opid dly h eta lg \<Longrightarrow> was_queued opid dly h eta (x # lg)"
  by (auto simp: was_queued_def)

lemmas gov_counts = n_queued_Cons n_called_Cons was_queued_Cons

lemma gov_new_inv: "Gov_new gvn dly = Inr g \<Longrightarrow> gov_inv opid dly g"
  by (auto simp: Gov_new_def gov_inv_def n_called_def split: if_splits)

text \<open>An event that is neither a queueing nor a call, with the queue unchanged or shortened.\<close>

lemma gov_inv_event:
  assumes "gov_inv opid dly g" "g_delay g' = g_delay g" "g_log g' = (now, e) # g_log g"
    and "\<And>h. g_queuedAt g' h = 0 \<or> g_queuedAt g' h = g_queuedAt g h"
    and "g_renounced g \<Longrightarrow> g_renounced g'" "e = Renounced \<Longrightarrow> g_renounced g'"
    and "\<And>h t v d. e \<noteq> Called h t v d" "\<And>h t v d x. e \<noteq> Queued h t v d x"
  shows "gov_inv opid dly g'"
proof -
  have q: "was_queued opid dly h (g_queuedAt g' h) (g_log g')" if "g_queuedAt g' h \<noteq> 0" for h
    using assms(1,3) assms(4) [of h] that by (auto simp: gov_inv_def intro: was_queued_Cons)
  have n: "n_called h (g_log g') + (if g_queuedAt g' h \<noteq> 0 then 1 else 0) \<le> n_queued h (g_log g')" for h
  proof -
    have "n_called h (g_log g') = n_called h (g_log g)" "n_queued h (g_log g') = n_queued h (g_log g)"
      using assms(3,7,8) by (cases e; simp add: gov_counts)+
    moreover have "n_called h (g_log g) + (if g_queuedAt g h \<noteq> 0 then 1 else 0) \<le> n_queued h (g_log g)"
      using assms(1) by (simp add: gov_inv_def)
    ultimately show ?thesis using assms(4) [of h] by (auto split: if_splits)
  qed
  have "timelocked opid dly (g_log g')" using assms(1,3,7) by (cases e) (auto simp: gov_inv_def)
  then show ?thesis using assms(1-3,5,6) q n by (auto simp: gov_inv_def)
qed

lemma queue_inv:
  assumes "gov_inv opid dly g" "queue opid sender now target value data g = Inr g'"
  shows "gov_inv opid dly g'"
proof -
  let ?h = "opid target value data"
  have g: "g_queuedAt g ?h = 0" "uint now + uint dly < 2 ^ 256"
    "g' = g\<lparr>g_queuedAt := (g_queuedAt g)(?h := now + dly), g_log := (now, Queued ?h target value data (now + dly)) # g_log g\<rparr>"
    using assms by (auto simp: queue_def Let_def gov_inv_def split: if_splits)
  have "uint (now + dly) = uint now + uint dly" using g(2) by (simp add: uint_add_lem [THEN iffD1])
  then have "was_queued opid dly ?h (now + dly) (g_log g')" unfolding g(3) was_queued_def by auto
  moreover have n: "\<forall>h. n_called h (g_log g) + (if g_queuedAt g h \<noteq> 0 then 1 else 0) \<le> n_queued h (g_log g)"
    using assms(1) by (simp add: gov_inv_def)
  moreover have "n_called h (g_log g') + (if g_queuedAt g' h \<noteq> 0 then 1 else 0) \<le> n_queued h (g_log g')" for h
    using n [THEN spec, of h] g(1) unfolding g(3) by (auto simp: gov_counts split: if_splits)
  ultimately show ?thesis using assms(1) g(1) unfolding gov_inv_def by (auto simp: g(3) was_queued_Cons)
qed

lemma execute_enter_inv:
  assumes "gov_inv opid dly g" "execute_enter opid sender now target value data g = Inr g'"
  shows "gov_inv opid dly g'"
proof -
  let ?h = "opid target value data"
  have g: "\<not> g_renounced g" "g_queuedAt g ?h \<noteq> 0" "g_queuedAt g ?h \<le> now"
    "g' = g\<lparr>g_queuedAt := (g_queuedAt g)(?h := 0), g_log := (now, Called ?h target value data) # g_log g\<rparr>"
    using assms(2) by (auto simp: execute_enter_def Let_def not_less split: if_splits)
  have n: "\<forall>h. n_called h (g_log g) + (if g_queuedAt g h \<noteq> 0 then 1 else 0) \<le> n_queued h (g_log g)"
    using assms(1) by (simp add: gov_inv_def)
  have "n_called ?h (g_log g) < n_queued ?h (g_log g)" using n [THEN spec, of ?h] g(2) by simp
  then have "may_call opid dly now ?h (g_log g)" using assms(1) g(1-3) by (auto simp: may_call_def gov_inv_def)
  moreover have "n_called h (g_log g') + (if g_queuedAt g' h \<noteq> 0 then 1 else 0) \<le> n_queued h (g_log g')" for h
    using n [THEN spec, of h] g(2) unfolding g(4) by (auto simp: gov_counts split: if_splits)
  ultimately show ?thesis using assms(1) g(1) unfolding gov_inv_def by (auto simp: g(4) gov_counts)
qed

lemma gov_call_inv:
  "gov_inv opid dly g \<Longrightarrow> (\<And>g'. gov_call opid now t g = Inr g' \<Longrightarrow> gov_inv opid dly g')"
  "gov_inv opid dly g \<Longrightarrow> gov_inv opid dly (gov_calls opid now ts g)"
proof (induction opid now t g and opid now ts g rule: gov_call_gov_calls.induct)
  case (1 opid now sender to_addr g)
  then show ?case by (auto simp: transferGovernor_def split: if_splits intro!: gov_inv_event [of opid dly g])
next
  case (2 opid now sender target v data g)
  then show ?case using queue_inv by simp
next
  case (3 opid now sender target v data g)
  then show ?case by (auto simp: cancel_def Let_def split: if_splits intro!: gov_inv_event [of opid dly g])
next
  case (4 opid now sender target v data inner call_ok g)
  obtain g1 where g1: "execute_enter opid sender now target v data g = Inr g1"
    using 4(3) by (auto split: sum.splits)
  then have "gov_inv opid dly (gov_calls opid now inner g1)" using 4(1,2) execute_enter_inv by blast
  then show ?case using 4(3) g1
    by (auto simp: execute_leave_def split: if_splits intro!: gov_inv_event [of opid dly "gov_calls opid now inner g1"])
next
  case (5 opid now sender g)
  then show ?case by (auto simp: renounce_def split: if_splits intro!: gov_inv_event [of opid dly g])
next
  case (7 opid now t ts g)
  then show ?case by (cases "gov_call opid now t g") auto
qed simp_all

interpretation governed: invariant "gov_step opid" "gov_inv opid dly" for opid dly
  by unfold_locales (auto elim!: gov_step.cases intro: gov_call_inv(1))

lemma timelocked_split:
  "timelocked opid dly (post @ (now, Called h target value data) # pre) \<Longrightarrow>
   h = opid target value data \<and> may_call opid dly now h pre"
  by (induction post) auto

section \<open>The admin timelock\<close>

definition was_proposed :: "(u8 list \<Rightarrow> u256) \<Rightarrow> u256 \<Rightarrow> u256 \<Rightarrow> u256 \<Rightarrow> (u256 \<times> adm_event) list \<Rightarrow> bool" where
  "was_proposed keccak dly h eta lg \<longleftrightarrow>
     (\<exists>t body. (t, AProposed h body eta) \<in> set lg \<and> body \<noteq> [] \<and> keccak body = h \<and> uint eta = uint t + uint dly)"

fun adm_timelocked :: "(u8 list \<Rightarrow> u256) \<Rightarrow> u256 \<Rightarrow> (u256 \<times> adm_event) list \<Rightarrow> bool" where
  "adm_timelocked keccak dly [] = True"
| "adm_timelocked keccak dly ((now, e) # lg) =
     ((case e of ARelayed body \<Rightarrow> (\<exists>eta. was_proposed keccak dly (keccak body) eta lg \<and> eta \<le> now) | _ \<Rightarrow> True) \<and>
      adm_timelocked keccak dly lg)"

definition adm_inv :: "(u8 list \<Rightarrow> u256) \<Rightarrow> u256 \<Rightarrow> Adm \<Rightarrow> bool" where
  "adm_inv keccak dly a \<longleftrightarrow>
     ad_delay a = dly \<and> adm_timelocked keccak dly (ad_log a) \<and>
     (ad_eta a \<noteq> 0 \<longrightarrow> was_proposed keccak dly (ad_pendingHash a) (ad_eta a) (ad_log a))"

lemma was_proposed_Cons: "was_proposed keccak dly h eta lg \<Longrightarrow> was_proposed keccak dly h eta (x # lg)"
  by (auto simp: was_proposed_def)

lemma adm_step_inv: "adm_step keccak a a' \<Longrightarrow> adm_inv keccak dly a \<Longrightarrow> adm_inv keccak dly a'"
proof (induction rule: adm_step.induct)
  case (propose sender now body a a')
  then have "uint (now + dly) = uint now + uint dly" by (auto simp: propose_def adm_inv_def uint_add_lem [THEN iffD1] split: if_splits)
  moreover have a': "body \<noteq> []" "a' = a\<lparr>ad_pendingHash := keccak body, ad_eta := now + dly,
      ad_log := (now, AProposed (keccak body) body (now + dly)) # ad_log a\<rparr>"
    using propose by (auto simp: propose_def adm_inv_def Let_def split: if_splits)
  ultimately have "was_proposed keccak dly (keccak body) (now + dly) ((now, AProposed (keccak body) body (now + dly)) # ad_log a)"
    unfolding was_proposed_def by (intro exI [of _ now] exI [of _ body]) simp
  then show ?case using propose(2) by (simp add: adm_inv_def a'(2))
qed (auto simp: adm_transferGovernor_def adm_cancel_def adm_execute_def Let_def adm_inv_def
      split: if_splits intro: was_proposed_Cons)

interpretation administered: invariant "adm_step keccak" "adm_inv keccak dly" for keccak dly
  by unfold_locales (rule adm_step_inv)

lemma update_only_after_delay:
  assumes "Adm_new gvn dly = Inr a0" "(adm_step keccak)\<^sup>*\<^sup>* a0 a" "ad_log a = post @ (now, ARelayed body) # pre"
  shows "\<exists>eta. was_proposed keccak dly (keccak body) eta pre \<and> eta \<le> now"
proof -
  have "adm_inv keccak dly a0" using assms(1) by (auto simp: Adm_new_def adm_inv_def split: if_splits)
  then have "adm_timelocked keccak dly (post @ (now, ARelayed body) # pre)"
    using administered.inv_steps [OF assms(2)] assms(3) by (simp add: adm_inv_def)
  then show ?thesis by (induction post) auto
qed

section \<open>Properties\<close>

text \<open>C37: Nothing the pool governance owns is called before its time: in every reachable history, also
  when a target calls into the contract again, an operation leaves the contract only when the same
  operation was queued before with an earliest time of its queueing plus the delay, that time has come,
  it was queued more often than it was called so far, and governance was not renounced.\<close>

theorem no_call_before_delay:
  assumes "Gov_new gvn dly = Inr g0" "(gov_step opid)\<^sup>*\<^sup>* g0 g"
    and "g_log g = post @ (now, Called h target amount data) # pre"
  shows "h = opid target amount data \<and>
    (\<exists>t eta target' amount' data'. (t, Queued h target' amount' data' eta) \<in> set pre \<and> opid target' amount' data' = h \<and>
       uint eta = uint t + uint dly \<and> eta \<le> now) \<and>
    n_called h pre < n_queued h pre \<and> Renounced \<notin> snd ` set pre"
proof -
  have "gov_inv opid dly g" using governed.inv_steps [OF assms(2) gov_new_inv [OF assms(1)]] .
  then have "timelocked opid dly (post @ (now, Called h target amount data) # pre)" using assms(3) by (simp add: gov_inv_def)
  from timelocked_split [OF this] show ?thesis unfolding may_call_def was_queued_def by blast
qed

theorem no_call_before_delay_witness:
  "(\<exists>t eta target' amount' data'. (t, Queued 7 target' amount' data' eta) \<in> set [(100, Queued 7 2 3 [4] 150)] \<and>
     uint eta = uint (t :: u256) + 50 \<and> eta \<le> 150)"
proof -
  define opid :: op_id where "opid = (\<lambda>_ _ _. 7)"
  define g0 where "g0 = \<lparr>g_governor = 1, g_delay = 50, g_renounced = False, g_queuedAt = (\<lambda>_. 0), g_log = []\<rparr>"
  define g1 where "g1 = g0\<lparr>g_queuedAt := (\<lambda>_. 0)(7 := 150), g_log := [(100, Queued 7 2 3 [4] 150)]\<rparr>"
  define g2 where "g2 = g1\<lparr>g_queuedAt := (\<lambda>_. 0)(7 := 0), g_log := (150, Executed 7 2 3 [4]) # (150, Called 7 2 3 [4]) # g_log g1\<rparr>"
  have n: "Gov_new 1 50 = Inr g0" by (simp add: Gov_new_def g0_def)
  have s1: "gov_step opid g0 g1"
    by (rule gov_step.intros [of _ 100 "Queue 1 2 3 [4]"]) (simp add: queue_def opid_def g0_def g1_def)
  have s2: "gov_step opid g1 g2"
    by (rule gov_step.intros [of _ 150 "Execute 1 2 3 [4] [] True"])
       (simp add: execute_enter_def execute_leave_def opid_def g0_def g1_def g2_def)
  have r: "(gov_step opid)\<^sup>*\<^sup>* g0 g2" using rtranclp.rtrancl_into_rtrancl [OF r_into_rtranclp [of "gov_step opid", OF s1] s2] .
  have l: "g_log g2 = [(150, Executed 7 2 3 [4])] @ (150, Called 7 2 3 [4]) # [(100, Queued 7 2 3 [4] 150)]"
    by (simp add: g2_def g1_def)
  show ?thesis using no_call_before_delay [OF n r l] by auto
qed

end
