(* ===== verification/Appd.thy ===== *)
theory Appd
  imports Decimal Hex Float64
begin

text \<open>
  \<open>pool-core/src/appd.rs\<close>: the client of the rofl-appd daemon. Sockets, JSON and CBOR text
  and SHA-512/256 are third-party code and parameters; requests are built and replies are read as the
  code does, on the bytes of the strings.
\<close>

section \<open>Strings\<close>

text \<open>\<open>str::find\<close> for a pattern, \<open>rfind\<close> for a character, and the words of
  \<open>split_whitespace\<close>: each round drops leading white space and cuts at the next one.\<close>

fun str_find :: "string \<Rightarrow> string \<Rightarrow> nat option" where
  "str_find [] pat = (if pat = [] then Some 0 else None)"
| "str_find (c # s) pat =
     (if starts_with (c # s) pat then Some 0 else map_option Suc (str_find s pat))"

fun str_rfind :: "string \<Rightarrow> char \<Rightarrow> nat option" where
  "str_rfind [] x = None"
| "str_rfind (c # s) x =
     (case str_rfind s x of Some i \<Rightarrow> Some (Suc i) | None \<Rightarrow> if c = x then Some 0 else None)"

definition at_ws :: "string \<Rightarrow> bool" where
  "at_ws s = (find (\<lambda>q. take (length q) (map of_char s) = q) ws_seqs \<noteq> None)"

fun first_word :: "string \<Rightarrow> string" where
  "first_word [] = []"
| "first_word (c # s) = (if at_ws (c # s) then [] else c # first_word s)"

fun words_of :: "nat \<Rightarrow> string \<Rightarrow> string list" where
  "words_of 0 s = []"
| "words_of (Suc n) s =
     (let t = strip_ws ws_seqs (length s) s
      in if t = [] then [] else let w = first_word t in w # words_of n (drop (length w) t))"

definition split_whitespace :: "string \<Rightarrow> string list" where
  "split_whitespace s = words_of (Suc (length s)) s"

definition nth_word :: "nat \<Rightarrow> string \<Rightarrow> string option" where
  "nth_word k s = (let ws = split_whitespace s in if k < length ws then Some (ws ! k) else None)"

definition strip_prefix_0x :: "string \<Rightarrow> string" where
  "strip_prefix_0x s = (if starts_with s ''0x'' then drop 2 s else s)"

definition trim_quotes :: "string \<Rightarrow> string" where
  "trim_quotes s = rev (dropWhile (\<lambda>c. c = CHR 0x22) (rev (dropWhile (\<lambda>c. c = CHR 0x22) s)))"

definition crlf :: string where "crlf = [CHR 0x0D, CHR 0x0A]"

section \<open>Requests and replies\<close>

text \<open>CBOR values; booleans, floats and tags are only told apart.\<close>

datatype cbor = CInt int | CBytes "u8 list" | CText string | CArray "cbor list" | CMap "(cbor \<times> cbor) list" | CNull | COther nat

definition request_text :: "string \<Rightarrow> string \<Rightarrow> string option \<Rightarrow> string" where
  "request_text verb path json_body =
     (case json_body of
        Some b \<Rightarrow> verb @ '' '' @ path @ '' HTTP/1.1'' @ crlf @ ''Host: localhost'' @ crlf @
          ''Content-Type: application/json'' @ crlf @ ''Content-Length: '' @ show_int (int (length b)) @ crlf @
          ''Connection: close'' @ crlf @ crlf @ b
      | None \<Rightarrow> verb @ '' '' @ path @ '' HTTP/1.1'' @ crlf @ ''Host: localhost'' @ crlf @
          ''Connection: close'' @ crlf @ crlf)"

datatype appd_error = Unreachable | MalformedStatus | NoBody | Status int string | StatusText string string | BadReply

text \<open>What the client takes from elsewhere: the socket's reply to a request (none when the exchange
  fails or the reply is not UTF-8), printing and parsing JSON, reading a struct with one string field,
  hex, CBOR and SHA-512/256.\<close>

record appd_env =
  a_sock :: "string \<Rightarrow> string option"
  a_to_json :: "json \<Rightarrow> string"
  a_from_json :: "string \<Rightarrow> json option"
  a_field :: "string \<Rightarrow> string \<Rightarrow> string option"
  a_enc :: hex_enc
  a_dec :: hex_dec
  a_to_cbor :: "cbor \<Rightarrow> u8 list"
  a_from_cbor :: "u8 list \<Rightarrow> cbor option"
  a_sha :: "u8 list \<Rightarrow> u8 list"

definition body_of :: "string \<Rightarrow> string option" where
  "body_of resp = map_option (\<lambda>i. drop (i + 4) resp) (str_find resp (crlf @ crlf))"

definition request :: "appd_env \<Rightarrow> string \<Rightarrow> string \<Rightarrow> string option \<Rightarrow> appd_error + (int \<times> string)" where
  "request d verb path json_body =
     (case a_sock d (request_text verb path json_body) of
        None \<Rightarrow> Inl Unreachable
      | Some resp \<Rightarrow>
          case Option.bind (nth_word 1 resp) (parse_uint 65535) of
            None \<Rightarrow> Inl MalformedStatus
          | Some code \<Rightarrow> (case body_of resp of None \<Rightarrow> Inl NoBody | Some body \<Rightarrow> Inr (code, body)))"

definition app_id :: "appd_env \<Rightarrow> appd_error + string" where
  "app_id d =
     (case request d ''GET'' ''/rofl/v1/app/id'' None of
        Inl e \<Rightarrow> Inl e
      | Inr (code, body) \<Rightarrow>
          if code \<noteq> 200 then Inl (Status code body) else Inr (trim_quotes (str_trim body)))"

definition query :: "appd_env \<Rightarrow> string \<Rightarrow> u8 list \<Rightarrow> appd_error + u8 list" where
  "query d meth args =
     (case request d ''POST'' ''/rofl/v1/query''
             (Some (a_to_json d (JObj [(''method'', JStr meth), (''args'', JStr (a_enc d args))]))) of
        Inl e \<Rightarrow> Inl e
      | Inr (code, resp) \<Rightarrow>
          if code \<noteq> 200 then Inl (Status code resp)
          else case Option.bind (a_from_json d resp) (get_str ''data'') of
                 None \<Rightarrow> Inl BadReply
               | Some data_hex \<Rightarrow>
                   (case a_dec d (strip_prefix_0x data_hex) of Inl _ \<Rightarrow> Inl BadReply | Inr b \<Rightarrow> Inr b))"

definition submit_body :: "appd_env \<Rightarrow> u8 list \<Rightarrow> u8 list \<Rightarrow> u64 \<Rightarrow> string" where
  "submit_body d to_addr data gas_limit =
     a_to_json d (JObj [(''encrypt'', JBool True), (''tx'', JObj [(''kind'', JStr ''eth''), (''data'', JObj
       [(''gas_limit'', JNum (uint gas_limit)), (''to'', JStr (a_enc d to_addr)), (''value'', JStr ''0''),
        (''data'', JStr (a_enc d data))])])])"

definition sign_submit_eth :: "appd_env \<Rightarrow> u8 list \<Rightarrow> u8 list \<Rightarrow> u64 \<Rightarrow> appd_error + string" where
  "sign_submit_eth d to_addr data gas_limit =
     (case request d ''POST'' ''/rofl/v1/tx/sign-submit'' (Some (submit_body d to_addr data gas_limit)) of
        Inl e \<Rightarrow> Inl e
      | Inr (code, resp) \<Rightarrow> if 300 \<le> code then Inl (Status code resp) else Inr resp)"

section \<open>bech32\<close>

definition bech32_charset :: string where
  "bech32_charset = ''qpzry9x8gf2tvdw0s3jn54khce6mua7l''"

fun position_of :: "char \<Rightarrow> string \<Rightarrow> nat option" where
  "position_of c [] = None"
| "position_of c (x # xs) = (if x = c then Some 0 else map_option Suc (position_of c xs))"

fun symbol_values :: "string \<Rightarrow> u32 list option" where
  "symbol_values [] = Some []"
| "symbol_values (c # cs) =
     (case position_of c bech32_charset of
        None \<Rightarrow> None
      | Some i \<Rightarrow> map_option (Cons (of_nat i)) (symbol_values cs))"

text \<open>Five bits in, a byte out whenever eight are there.\<close>

fun regroup :: "u32 \<Rightarrow> nat \<Rightarrow> u32 list \<Rightarrow> u8 list" where
  "regroup acc bits [] = []"
| "regroup acc bits (v # vs) =
     (let acc1 = push_bit 5 acc OR v; bits1 = bits + 5
      in if 8 \<le> bits1 then ucast (drop_bit (bits1 - 8) acc1) # regroup acc1 (bits1 - 8) vs
         else regroup acc1 bits1 vs)"

datatype bech32_error = NoSeparator | BadChar | TooShort | BadLength nat

definition bech32_to_21 :: "string \<Rightarrow> bech32_error + u8 list" where
  "bech32_to_21 s0 =
     (let s = str_trim s0
      in case str_rfind s (CHR ''1'') of
           None \<Rightarrow> Inl NoSeparator
         | Some pos \<Rightarrow>
             case symbol_values (drop (pos + 1) s) of
               None \<Rightarrow> Inl BadChar
             | Some vals \<Rightarrow>
                 if length vals < 6 then Inl TooShort
                 else let out = regroup 0 0 (take (length vals - 6) vals)
                      in if length out \<noteq> 21 then Inl (BadLength (length out)) else Inr out)"

definition app_id_bytes :: "appd_env \<Rightarrow> (appd_error + bech32_error) + u8 list" where
  "app_id_bytes d =
     (case app_id d of
        Inl e \<Rightarrow> Inl (Inl e)
      | Inr s \<Rightarrow> (case bech32_to_21 s of Inl e \<Rightarrow> Inl (Inr e) | Inr b \<Rightarrow> Inr b))"

section \<open>CBOR values\<close>

fun find_key :: "string \<Rightarrow> (cbor \<times> cbor) list \<Rightarrow> cbor option" where
  "find_key key [] = None"
| "find_key key ((k, v) # m) = (if k = CText key then Some v else find_key key m)"

definition map_get :: "cbor \<Rightarrow> string \<Rightarrow> cbor option" where
  "map_get v key = (case v of CMap m \<Rightarrow> find_key key m | _ \<Rightarrow> None)"

text \<open>A big-endian byte string of at most 16 bytes counts as a number.\<close>

definition be_int :: "u8 list \<Rightarrow> int" where
  "be_int bs = le_int (rev bs)"

definition cbor_to_u128 :: "cbor \<Rightarrow> u128 option" where
  "cbor_to_u128 v = (case v of
     CInt i \<Rightarrow> if 0 \<le> i \<and> i < 2 ^ 128 then Some (word_of_int i) else None
   | CBytes b \<Rightarrow> if length b \<le> 16 then Some (word_of_int (be_int b)) else None
   | _ \<Rightarrow> None)"

definition encode_instance_args :: "appd_env \<Rightarrow> u8 list \<Rightarrow> u8 list \<Rightarrow> u8 list" where
  "encode_instance_args d provider instance_id =
     a_to_cbor d (CMap [(CText ''id'', CBytes instance_id), (CText ''provider'', CBytes provider)])"

definition encode_balances_args :: "appd_env \<Rightarrow> u8 list \<Rightarrow> u8 list" where
  "encode_balances_args d addr = a_to_cbor d (CMap [(CText ''address'', CBytes addr)])"

definition oasis_addr_from_eth :: "appd_env \<Rightarrow> u8 list \<Rightarrow> u8 list" where
  "oasis_addr_from_eth d eth =
     0 # take 20 (a_sha d (map of_char ''oasis-runtime-sdk/address: secp256k1eth'' @ [0] @ eth))"

text \<open>The accepted instances of the provider that run our app.\<close>

definition our_instance :: "u8 list \<Rightarrow> cbor \<Rightarrow> u8 list option" where
  "our_instance app inst =
     (if Option.bind (map_get inst ''status'') cbor_to_u128 \<noteq> Some 1 then None
      else if Option.bind (map_get inst ''deployment'') (\<lambda>d. map_get d ''app_id'') \<noteq> Some (CBytes app) then None
      else case map_get inst ''id'' of
             Some (CBytes i) \<Rightarrow> if length i = 8 then Some i else None
           | _ \<Rightarrow> None)"

definition discover_instances :: "appd_env \<Rightarrow> u8 list \<Rightarrow> u8 list \<Rightarrow> appd_error + u8 list list" where
  "discover_instances d provider app =
     (case query d ''roflmarket.Instances'' (a_to_cbor d (CMap [(CText ''provider'', CBytes provider)])) of
        Inl e \<Rightarrow> Inl e
      | Inr raw \<Rightarrow>
          (case a_from_cbor d raw of
             None \<Rightarrow> Inl BadReply
           | Some (CArray items) \<Rightarrow> Inr (List.map_filter (our_instance app) items)
           | Some _ \<Rightarrow> Inr []))"

record InstanceInfo =
  ii_paid_until :: "u64 option"
  ii_terms :: "u8 \<Rightarrow> u128 option"

fun term_prices :: "(cbor \<times> cbor) list \<Rightarrow> (u8 \<Rightarrow> u128 option) \<Rightarrow> u8 \<Rightarrow> u128 option" where
  "term_prices [] t = t"
| "term_prices ((k, v) # m) t =
     (case (cbor_to_u128 k, cbor_to_u128 v) of
        (Some term, Some price) \<Rightarrow>
          if 1 \<le> term \<and> term \<le> 3 then term_prices m (t(ucast term := Some price)) else term_prices m t
      | _ \<Rightarrow> term_prices m t)"

definition parse_instance :: "appd_env \<Rightarrow> u8 list \<Rightarrow> InstanceInfo option" where
  "parse_instance d data =
     (case a_from_cbor d data of
        None \<Rightarrow> None
      | Some v \<Rightarrow>
          Some \<lparr>ii_paid_until = map_option ucast (Option.bind (map_get v ''paid_until'') cbor_to_u128),
                ii_terms = (case Option.bind (Option.bind (map_get v ''payment'') (\<lambda>p. map_get p ''native'')) (\<lambda>n. map_get n ''terms'') of
                              Some (CMap m) \<Rightarrow> term_prices m (\<lambda>_. None)
                            | _ \<Rightarrow> (\<lambda>_. None))\<rparr>)"

definition parse_native_balance :: "appd_env \<Rightarrow> u8 list \<Rightarrow> u128 option" where
  "parse_native_balance d data =
     (case a_from_cbor d data of
        None \<Rightarrow> None
      | Some v \<Rightarrow>
          Some (case map_get v ''balances'' of
                  Some (CMap m) \<Rightarrow>
                    (case find (\<lambda>(k, _). k = CBytes []) m of
                       Some (_, x) \<Rightarrow> (case cbor_to_u128 x of Some n \<Rightarrow> n | None \<Rightarrow> 0)
                     | None \<Rightarrow> (case m of [(_, x)] \<Rightarrow> (case cbor_to_u128 x of Some n \<Rightarrow> n | None \<Rightarrow> 0) | _ \<Rightarrow> 0))
                | _ \<Rightarrow> 0))"

section \<open>Choosing a term\<close>

definition TERM_SECS :: "(u8 \<times> u64) list" where
  "TERM_SECS = [(1, 3600), (2, 2592000), (3, 31536000)]"

fun fabs64 :: "f64 \<Rightarrow> f64" where
  "fabs64 (Fin x) = Fin \<bar>x\<bar>"
| "fabs64 NInf = PInf"
| "fabs64 a = a"

definition tie_band :: f64 where "tie_band = f64_round (1 / 10 ^ 15)"

definition better_term :: "(u8 \<times> f64 \<times> u64) option \<Rightarrow> f64 \<Rightarrow> u64 \<Rightarrow> bool" where
  "better_term best per_sec dur =
     (case best of
        None \<Rightarrow> True
      | Some (_, bp, bd) \<Rightarrow> flt per_sec (fsub bp tie_band) \<or> (fle (fabs64 (fsub per_sec bp)) tie_band \<and> dur > bd))"

fun best_term :: "u128 \<Rightarrow> (u8 \<Rightarrow> u128 option) \<Rightarrow> u8 \<Rightarrow> (u8 \<times> u64) list \<Rightarrow> (u8 \<times> f64 \<times> u64) option \<Rightarrow> (u8 \<times> f64 \<times> u64) option" where
  "best_term spendable terms max_term [] best = best"
| "best_term spendable terms max_term ((t, dur) # ts) best =
     (if t > max_term then best_term spendable terms max_term ts best
      else case terms t of
             None \<Rightarrow> best_term spendable terms max_term ts best
           | Some price \<Rightarrow>
               if price = 0 \<or> price > spendable then best_term spendable terms max_term ts best
               else let per_sec = fdiv (f64_of_word price) (f64_of_word dur)
                    in best_term spendable terms max_term ts
                         (if better_term best per_sec dur then Some (t, per_sec, dur) else best))"

definition plan_topup :: "u128 \<Rightarrow> u128 \<Rightarrow> (u8 \<Rightarrow> u128 option) \<Rightarrow> u8 \<Rightarrow> (u8 \<times> u8) option" where
  "plan_topup balance flr terms max_term =
     map_option (\<lambda>(t, _, _). (t, 1)) (best_term (sat_sub balance flr) terms max_term TERM_SECS None)"

section \<open>Regrouping bits\<close>

text \<open>Big-endian digits and their value: the specification of the bit regrouping of BIP 173.\<close>

fun be_digits :: "nat \<Rightarrow> nat \<Rightarrow> nat \<Rightarrow> nat list" where
  "be_digits b 0 n = []"
| "be_digits b (Suc k) n = (n div b ^ k) mod b # be_digits b k n"

fun be_value :: "nat \<Rightarrow> nat list \<Rightarrow> nat" where
  "be_value b [] = 0"
| "be_value b (d # ds) = d * b ^ length ds + be_value b ds"

lemma be_digits_length [simp]: "length (be_digits b k n) = k"
  by (induction k) simp_all

lemma mod_div_power:
  assumes "0 < (b :: nat)" "j \<le> k"
  shows "(n mod b ^ k) div b ^ j = n div b ^ j mod b ^ (k - j)"
proof -
  have "b ^ k = b ^ j * b ^ (k - j)" using assms(2) by (simp flip: power_add)
  then have "n mod b ^ k = b ^ j * (n div b ^ j mod b ^ (k - j)) + n mod b ^ j" by (simp only: mod_mult2_eq)
  then show ?thesis using assms(1) by simp
qed

lemma be_digits_mod: "0 < b \<Longrightarrow> j \<le> k \<Longrightarrow> be_digits b j (n mod b ^ k) = be_digits b j n"
proof (induction j)
  case (Suc j)
  then obtain e where "k - j = Suc e" by (cases "k - j") auto
  with Suc show ?case by (simp add: mod_div_power mod_mod_cancel)
qed simp

lemma be_digits_cong: "0 < b \<Longrightarrow> m mod b ^ k = n mod b ^ k \<Longrightarrow> be_digits b k m = be_digits b k n"
  by (metis be_digits_mod order_refl)

lemma be_value_less: "\<forall>d\<in>set ds. d < b \<Longrightarrow> be_value b ds < b ^ length ds"
proof (induction ds)
  case (Cons d ds)
  then have "d * b ^ length ds + be_value b ds < (d + 1) * b ^ length ds" by simp
  also have "\<dots> \<le> b * b ^ length ds" by (rule mult_right_mono) (use Cons(2) in auto)
  finally show ?case by simp
qed simp

lemma be_digits_value: "\<forall>d\<in>set ds. d < b \<Longrightarrow> be_digits b (length ds) (be_value b ds) = ds"
proof (induction ds)
  case (Cons d ds)
  have b: "0 < b" using Cons(2) by auto
  have lt: "be_value b ds < b ^ length ds" by (rule be_value_less) (use Cons in simp)
  have "(d * b ^ length ds + be_value b ds) div b ^ length ds = d"
    using lt b by simp
  moreover have "be_digits b (length ds) (d * b ^ length ds + be_value b ds) = be_digits b (length ds) (be_value b ds)"
    by (rule be_digits_cong [OF b]) simp
  ultimately show ?case using Cons by simp
qed simp

lemma be_value_digits: "0 < b \<Longrightarrow> be_value b (be_digits b k n) = n mod b ^ k"
proof (induction k)
  case (Suc k)
  have "n mod b ^ Suc k = b ^ k * (n div b ^ k mod b) + n mod b ^ k"
    by (metis mod_mult2_eq power_Suc2)
  with Suc show ?case by (simp add: mult.commute)
qed simp

lemma be_digits_less: "0 < b \<Longrightarrow> d \<in> set (be_digits b k n) \<Longrightarrow> d < b"
  by (induction k) auto

lemma unat_push_or:
  assumes "unat (v :: u32) < 32"
  shows "unat (push_bit 5 acc OR v) = (unat acc * 32 + unat v) mod 2 ^ 32"
proof -
  have v: "take_bit 5 v = v"
  proof -
    have "unat (take_bit 5 v) = unat v" using assms by (simp add: unat_take_bit)
    then show ?thesis by (simp only: word_unat_eq_iff)
  qed
  have "\<not> bit (push_bit 5 acc) n \<or> \<not> bit v n" for n
  proof -
    have "bit v n \<Longrightarrow> n < 5" by (subst (asm) v [symmetric]) (simp add: bit_take_bit_iff)
    then show ?thesis by (auto simp: bit_push_bit_iff)
  qed
  then have "push_bit 5 acc AND v = 0" by (intro bit_eqI) (auto simp: bit_and_iff)
  then have "push_bit 5 acc OR v = push_bit 5 acc + v" by (simp add: disjunctive_add_eq_or)
  also have "\<dots> = acc * 32 + v" by (simp add: push_bit_eq_mult)
  finally show ?thesis by (simp add: unat_word_ariths mod_simps)
qed

lemma ucast_byte:
  assumes "b \<le> 5" "unat (a :: u32) mod 2 ^ (b + 8) = p"
  shows "(ucast (drop_bit b a) :: u8) = of_nat (p div 2 ^ b)"
proof -
  have "unat (ucast (drop_bit b a) :: u8) = (unat a div 2 ^ b) mod 2 ^ 8"
    unfolding unsigned_ucast_eq unat_drop_bit_eq by (simp add: drop_bit_eq_div take_bit_eq_mod)
  also have "\<dots> = p div 2 ^ b"
    using mod_div_power [of 2 b "b + 8" "unat a"] assms(2) by simp
  finally have "unat (ucast (drop_bit b a) :: u8) = p div 2 ^ b" .
  then show ?thesis by (metis of_nat_unat ucast_id)
qed

text \<open>The pending \<open>bits\<close> low bits of the accumulator followed by the symbols, as one number.\<close>

lemma mod_append:
  fixes p w :: nat
  assumes "w < 2 ^ c"
  shows "(p * 2 ^ c + w) mod 2 ^ (b + c) = p mod 2 ^ b * 2 ^ c + w" "(p * 2 ^ c + w) div 2 ^ (b + c) = p div 2 ^ b"
proof -
  have c: "2 ^ (b + c) = (2 :: nat) ^ c * 2 ^ b" by (simp add: power_add mult.commute)
  have d: "(p * 2 ^ c + w) div 2 ^ c = p" "(p * 2 ^ c + w) mod 2 ^ c = w" using assms by simp_all
  show "(p * 2 ^ c + w) mod 2 ^ (b + c) = p mod 2 ^ b * 2 ^ c + w"
    unfolding c mod_mult2_eq d by simp
  show "(p * 2 ^ c + w) div 2 ^ (b + c) = p div 2 ^ b"
    unfolding c div_mult2_eq d ..
qed

text \<open>Cutting the first byte off a number of at least eight bits.\<close>

lemma be_digits_cut:
  fixes p w b c :: nat
  assumes "w < 2 ^ c" "p < 2 ^ (b + 8)"
  defines "t \<equiv> b + c"
  shows "be_digits 256 (Suc (t div 8)) ((p * 2 ^ c + w) div 2 ^ (t mod 8)) =
    p div 2 ^ b # be_digits 256 (t div 8) ((p mod 2 ^ b * 2 ^ c + w) div 2 ^ (t mod 8))"
proof -
  define N where "N = p * 2 ^ c + w"
  have e: "(256 :: nat) ^ (t div 8) = 2 ^ (8 * (t div 8))" by (simp add: power_mult)
  have t: "t mod 8 + 8 * (t div 8) = t" by simp
  have "N div 2 ^ (t mod 8) div 256 ^ (t div 8) = N div 2 ^ t"
    unfolding e div_mult2_eq [symmetric] power_add [symmetric] t ..
  also have "\<dots> = p div 2 ^ b" using mod_append(2) [OF assms(1), of p b] by (simp add: N_def t_def)
  finally have first: "N div 2 ^ (t mod 8) div 256 ^ (t div 8) mod 256 = p div 2 ^ b"
    using assms(2) by (simp add: power_add less_mult_imp_div_less)
  have "(p mod 2 ^ b * 2 ^ c + w) = N mod 2 ^ t" using mod_append(1) [OF assms(1), of p b] by (simp add: N_def t_def)
  then have "(p mod 2 ^ b * 2 ^ c + w) div 2 ^ (t mod 8) = N div 2 ^ (t mod 8) mod 256 ^ (t div 8)"
    using mod_div_power [of 2 "t mod 8" t N] t unfolding e by (simp add: diff_eq_eq [symmetric] minus_mod_eq_mult_div)
  then have "be_digits 256 (t div 8) ((p mod 2 ^ b * 2 ^ c + w) div 2 ^ (t mod 8)) = be_digits 256 (t div 8) (N div 2 ^ (t mod 8))"
    by (simp add: be_digits_mod)
  with first show ?thesis by (simp add: N_def)
qed

lemma regroup_digits:
  assumes "bits < 8" "\<forall>v\<in>set vs. unat v < 32"
  shows "regroup acc bits vs =
    map of_nat (be_digits 256 ((bits + 5 * length vs) div 8)
      ((unat acc mod 2 ^ bits * 32 ^ length vs + be_value 32 (map unat vs)) div 2 ^ ((bits + 5 * length vs) mod 8)))"
  using assms
proof (induction acc bits vs rule: regroup.induct)
  case (2 acc bits v vs)
  define acc1 where "acc1 = push_bit 5 acc OR v"
  define k where "k = length vs"
  define w where "w = be_value 32 (map unat vs)"
  define pend where "pend = unat acc mod 2 ^ bits * 32 + unat v"
  have v: "unat v < 32" using 2(4) by simp
  have w: "w < 2 ^ (5 * k)"
    using be_value_less [of "map unat vs" 32] 2(4) by (simp add: w_def k_def power_mult)
  have p: "unat acc1 mod 2 ^ (bits + 5) = pend"
  proof -
    have "unat acc1 mod 2 ^ (bits + 5) = (unat acc * 32 + unat v) mod 2 ^ (bits + 5)"
      unfolding acc1_def unat_push_or [OF v] using 2(3) by (intro mod_mod_cancel le_imp_power_dvd) simp
    also have "\<dots> = (unat acc mod 2 ^ bits * 32 + unat v) mod 2 ^ (bits + 5)"
      by (simp add: power_add mult_mod_left mod_add_left_eq [symmetric, of "unat acc * 32"])
    also have "\<dots> = pend"
    proof -
      have "unat acc mod 2 ^ bits * 32 + unat v < (unat acc mod 2 ^ bits + 1) * 32" using v by simp
      also have "\<dots> \<le> 2 ^ bits * 32" by (intro mult_right_mono) (simp_all add: Suc_leI)
      finally show ?thesis by (simp add: pend_def power_add)
    qed
    finally show ?thesis .
  qed
  have k32: "(32 :: nat) ^ length vs = 2 ^ (5 * k)" by (simp add: power_mult k_def)
  have whole: "unat acc mod 2 ^ bits * 32 ^ length (v # vs) + be_value 32 (map unat (v # vs)) = pend * 2 ^ (5 * k) + w"
    by (simp add: pend_def w_def k32 algebra_simps)
  show ?case
  proof (cases "8 \<le> bits + 5")
    case False
    then have "regroup acc bits (v # vs) = regroup acc1 (bits + 5) vs" by (simp add: acc1_def)
    also have "\<dots> = map of_nat (be_digits 256 ((bits + 5 + 5 * k) div 8) ((pend * 2 ^ (5 * k) + w) div 2 ^ ((bits + 5 + 5 * k) mod 8)))"
      using 2(2) [OF refl refl] False 2(4) p by (simp add: acc1_def w_def k_def power_mult)
    also have "bits + 5 + 5 * k = bits + 5 * length (v # vs)" by (simp add: k_def)
    finally show ?thesis unfolding whole .
  next
    case True
    define b where "b = bits + 5 - 8"
    have b: "b \<le> 5" "bits + 5 = b + 8" "b < 8" using True 2(3) by (simp_all add: b_def)
    have pl: "pend < 2 ^ (b + 8)" using p b(2) by (metis mod_less_divisor pos2 zero_less_power)
    have "unat acc1 mod 2 ^ b = pend mod 2 ^ b"
      using p unfolding b(2) by (metis le_add1 le_imp_power_dvd mod_mod_cancel)
    then have ih: "regroup acc1 b vs = map of_nat (be_digits 256 ((b + 5 * k) div 8)
        ((pend mod 2 ^ b * 2 ^ (5 * k) + w) div 2 ^ ((b + 5 * k) mod 8)))"
      using 2(1) [OF refl refl] True b(3) 2(4) by (simp add: acc1_def b_def w_def k_def power_mult)
    have byte: "ucast (drop_bit b acc1) = (of_nat (pend div 2 ^ b) :: u8)"
      by (rule ucast_byte [OF b(1)]) (use p b(2) in simp)
    have t0: "bits + 5 * length (v # vs) = 8 + (b + 5 * k)" using b(2) by (simp add: k_def)
    have t: "(bits + 5 * length (v # vs)) div 8 = Suc ((b + 5 * k) div 8)"
      "(bits + 5 * length (v # vs)) mod 8 = (b + 5 * k) mod 8" unfolding t0 by simp_all
    have "regroup acc bits (v # vs) = ucast (drop_bit b acc1) # regroup acc1 b vs"
      using True by (simp add: acc1_def b_def Let_def)
    then show ?thesis unfolding whole t ih byte be_digits_cut [OF w pl] by simp
  qed
qed simp

section \<open>Both decoders read what BIP 173 writes\<close>

definition symbols_of :: "u8 list \<Rightarrow> nat list" where
  "symbols_of data =
     (let k = (8 * length data + 4) div 5
      in be_digits 32 k (be_value 256 (map unat data) * 2 ^ (5 * k - 8 * length data)))"

lemma symbols_of_less: "d \<in> set (symbols_of data) \<Longrightarrow> d < 32"
  by (auto simp: symbols_of_def Let_def dest: be_digits_less [rotated])

lemma regroup_symbols: "regroup 0 0 (map of_nat (symbols_of data)) = data"
proof -
  define m where "m = length data"
  define k where "k = (8 * m + 4) div 5"
  define p where "p = 5 * k - 8 * m"
  define X where "X = be_value 256 (map unat data)"
  have kp: "5 * k = 8 * m + p" "p < 5" unfolding p_def k_def by linarith+
  have bytes: "\<forall>d\<in>set (map unat data). d < 256" using unat_bound [of "_ :: u8"] by auto
  have X: "X < 2 ^ (8 * m)" using be_value_less [OF bytes] by (simp add: X_def m_def power_mult)
  have sy: "symbols_of data = be_digits 32 k (X * 2 ^ p)"
    by (simp add: symbols_of_def Let_def k_def p_def m_def X_def)
  have small: "unat (of_nat d :: u32) = d" if "d \<in> set (symbols_of data)" for d
    using symbols_of_less [OF that] by (simp add: unat_of_nat)
  have us: "map unat (map of_nat (symbols_of data) :: u32 list) = symbols_of data"
    using small by (simp add: map_idI)
  have e: "(32 :: nat) ^ k = 2 ^ (8 * m) * 2 ^ p" 
    unfolding power_add [symmetric] kp(1) [symmetric] by (simp add: power_mult)
  have "X * 2 ^ p < 32 ^ k" unfolding e using X by simp
  then have v: "be_value 32 (symbols_of data) = X * 2 ^ p" unfolding sy by (simp add: be_value_digits)
  let ?vs = "map of_nat (symbols_of data) :: u32 list"
  have l: "length ?vs = k" by (simp add: sy)
  have lt: "\<forall>v\<in>set ?vs. unat v < 32" using symbols_of_less small by auto
  have q: "(0 + 5 * k) div 8 = m" "(0 + 5 * k) mod 8 = p" using kp by simp_all
  have "(unat (0 :: u32) mod 2 ^ 0 * 32 ^ k + X * 2 ^ p) div 2 ^ p = X" by simp
  then have "regroup 0 0 ?vs = map of_nat (be_digits 256 m X)"
    using regroup_digits [OF _ lt, of 0 0] unfolding l us v q by (simp only: zero_less_numeral simp_thms)
  also have "be_digits 256 m X = map unat data"
    using be_digits_value [OF bytes] by (simp add: X_def m_def)
  finally show ?thesis by (simp add: comp_def map_idI)
qed

lemma position_of_charset: "d < 32 \<Longrightarrow> position_of (bech32_charset ! d) bech32_charset = Some d"
proof -
  assume "d < 32"
  then have "d \<in> set [0..<32]" by simp
  moreover have "\<forall>d\<in>set [0..<32]. position_of (bech32_charset ! d) bech32_charset = Some d" by code_simp
  ultimately show ?thesis by blast
qed

lemma symbol_values_append:
  "symbol_values xs = Some u \<Longrightarrow> symbol_values ys = Some v \<Longrightarrow> symbol_values (xs @ ys) = Some (u @ v)"
  by (induction xs arbitrary: u) (auto split: option.splits)

lemma symbol_values_text:
  "\<forall>d\<in>set ds. d < 32 \<Longrightarrow> symbol_values (map (nth bech32_charset) ds) = Some (map of_nat ds)"
  by (induction ds) (auto simp: position_of_charset)

lemma symbol_values_length: "symbol_values s = Some vs \<Longrightarrow> length vs = length s"
  by (induction s arbitrary: vs) (auto split: option.splits)

lemma no_separator: "symbol_values s \<noteq> None \<Longrightarrow> CHR ''1'' \<notin> set s"
proof (induction s)
  case (Cons c s)
  have "position_of CHR ''1'' bech32_charset = None" by code_simp
  with Cons show ?case by (auto split: option.splits)
qed simp

lemma str_rfind_last: "x \<notin> set t \<Longrightarrow> str_rfind (h @ x # t) x = Some (length h)"
proof -
  assume "x \<notin> set t"
  then have "str_rfind t x = None" by (induction t) auto
  then show ?thesis by (induction h) auto
qed

definition bech32_text :: "string \<Rightarrow> u8 list \<Rightarrow> string \<Rightarrow> string" where
  "bech32_text hrp data check = hrp @ ''1'' @ map (nth bech32_charset) (symbols_of data) @ check"

text \<open>The symbols of an address with a six-symbol checksum.\<close>

lemma bech32_text_symbols:
  assumes "symbol_values check = Some cs" "length check = 6"
  shows "str_rfind (bech32_text hrp data check) CHR ''1'' = Some (length hrp)"
    and "drop (length hrp + 1) (bech32_text hrp data check) = map (nth bech32_charset) (symbols_of data) @ check"
    and "symbol_values (map (nth bech32_charset) (symbols_of data) @ check) = Some (map of_nat (symbols_of data) @ cs)"
    and "length cs = 6"
proof -
  show sv: "symbol_values (map (nth bech32_charset) (symbols_of data) @ check) = Some (map of_nat (symbols_of data) @ cs)"
    using assms(1) symbols_of_less by (simp add: symbol_values_append symbol_values_text)
  show "drop (length hrp + 1) (bech32_text hrp data check) = map (nth bech32_charset) (symbols_of data) @ check"
    by (simp add: bech32_text_def)
  show "str_rfind (bech32_text hrp data check) CHR ''1'' = Some (length hrp)"
    using str_rfind_last [of "CHR ''1''" "map (nth bech32_charset) (symbols_of data) @ check" hrp]
      no_separator [of "map (nth bech32_charset) (symbols_of data) @ check"] sv by (simp add: bech32_text_def)
  show "length cs = 6" using symbol_values_length [OF assms(1)] assms(2) by simp
qed

lemma bech32_to_21_text:
  assumes "symbol_values check = Some cs" "length check = 6" "length data = 21"
    and "\<forall>c\<in>set (bech32_text hrp data check). printable c"
  shows "bech32_to_21 (bech32_text hrp data check) = Inr data"
  using assms(3) bech32_text_symbols [OF assms(1,2)] str_trim_printable [OF assms(4)]
  by (simp add: bech32_to_21_def Let_def regroup_symbols)

section \<open>What a plan may spend\<close>

definition affordable :: "u128 \<Rightarrow> u128 \<Rightarrow> (u8 \<Rightarrow> u128 option) \<Rightarrow> u8 \<Rightarrow> u8 \<Rightarrow> bool" where
  "affordable balance flr terms max_term t \<longleftrightarrow>
     t \<in> fst ` set TERM_SECS \<and> t \<le> max_term \<and>
     (case terms t of None \<Rightarrow> False | Some price \<Rightarrow> 0 < uint price \<and> uint price + uint flr \<le> uint balance)"

lemma uint_pos: "x \<noteq> 0 \<Longrightarrow> 0 < uint (x :: 'a::len word)"
  using uint_ge_0 [of x] by (simp add: order_le_less word_uint_eq_iff)

lemma spendable_iff:
  assumes "price \<noteq> 0"
  shows "price \<le> sat_sub balance flr \<longleftrightarrow> uint price + uint flr \<le> uint (balance :: u128)"
proof (cases "balance < flr")
  case False
  then have "uint (balance - flr) = uint balance - uint flr" by (simp add: word_le_def not_less uint_sub_lem [THEN iffD1])
  with False show ?thesis by (simp add: sat_sub_def word_le_def) linarith
next
  case True
  moreover have "0 < uint price" using assms by (simp add: uint_pos)
  moreover have "uint balance < uint flr" using True by (simp add: word_less_def)
  ultimately show ?thesis using assms by (simp add: sat_sub_def)
qed

definition in_reach :: "u128 \<Rightarrow> (u8 \<Rightarrow> u128 option) \<Rightarrow> u8 \<Rightarrow> u8 \<Rightarrow> bool" where
  "in_reach sp terms mx t \<longleftrightarrow> t \<le> mx \<and> (\<exists>price. terms t = Some price \<and> price \<noteq> 0 \<and> price \<le> sp)"

lemma best_term_skip:
  "\<not> in_reach sp terms mx u \<Longrightarrow> best_term sp terms mx ((u, d) # ts) best = best_term sp terms mx ts best"
  by (auto split: option.splits simp: not_le in_reach_def)

lemma best_term_take:
  "in_reach sp terms mx u \<Longrightarrow>
   \<exists>p. best_term sp terms mx ((u, d) # ts) best = best_term sp terms mx ts (if better_term best p d then Some (u, p, d) else best)"
  by (auto simp: Let_def leD in_reach_def)

lemma best_term_sound:
  "best_term sp terms mx ts best = Some (t, p, dur) \<Longrightarrow>
   best = Some (t, p, dur) \<or> t \<in> fst ` set ts \<and> in_reach sp terms mx t"
proof (induction ts arbitrary: best)
  case (Cons x ts)
  obtain u d where x: "x = (u, d)" by (cases x)
  show ?case
  proof (cases "in_reach sp terms mx u")
    case False
    then have "best_term sp terms mx ts best = Some (t, p, dur)" using Cons(2) x best_term_skip [OF False] by simp
    then show ?thesis using Cons(1) by auto
  next
    case True
    then obtain q where "best_term sp terms mx ts (if better_term best q d then Some (u, q, d) else best) = Some (t, p, dur)"
      using Cons(2) x best_term_take [OF True, of d ts best] by auto
    from Cons(1) [OF this] show ?thesis using True x by (auto split: if_splits)
  qed
qed simp

lemma best_term_Some: "best \<noteq> None \<Longrightarrow> best_term sp terms mx ts best \<noteq> None"
  by (induction sp terms mx ts best rule: best_term.induct) (auto simp: Let_def split: option.splits)

lemma best_term_complete:
  "t \<in> fst ` set ts \<Longrightarrow> in_reach sp terms mx t \<Longrightarrow> best_term sp terms mx ts best \<noteq> None"
proof (induction ts arbitrary: best)
  case (Cons x ts)
  obtain u d where x: "x = (u, d)" by (cases x)
  show ?case
  proof (cases "in_reach sp terms mx u")
    case False
    with Cons x have "t \<in> fst ` set ts" by auto
    with Cons x show ?thesis using best_term_skip [OF False] by simp
  next
    case True
    then obtain q where q: "best_term sp terms mx (x # ts) best = best_term sp terms mx ts (if better_term best q d then Some (u, q, d) else best)"
      using x best_term_take [OF True, of d ts best] by auto
    have "(if better_term best q d then Some (u, q, d) else best) \<noteq> None" by (simp add: better_term_def split: option.split)
    then show ?thesis using q best_term_Some by simp
  qed
qed simp

lemma affordable_iff:
  "affordable balance flr terms mx t \<longleftrightarrow> t \<in> fst ` set TERM_SECS \<and> in_reach (sat_sub balance flr) terms mx t"
proof (cases "terms t")
  case (Some price)
  have "0 < uint price \<longleftrightarrow> price \<noteq> 0" by (auto simp: uint_pos)
  then show ?thesis using Some spendable_iff [of price balance flr] by (auto simp: affordable_def in_reach_def)
qed (simp add: affordable_def in_reach_def)

lemma plan_topup_Some:
  "plan_topup balance flr terms mx = Some (t, c) \<Longrightarrow> c = 1 \<and> affordable balance flr terms mx t"
  by (auto simp: plan_topup_def affordable_iff dest!: best_term_sound)

lemma plan_topup_None:
  "plan_topup balance flr terms mx = None \<longleftrightarrow> (\<forall>t. \<not> affordable balance flr terms mx t)"
proof (cases "plan_topup balance flr terms mx")
  case None
  then have "best_term (sat_sub balance flr) terms mx TERM_SECS None = None" by (simp add: plan_topup_def)
  then have "\<not> affordable balance flr terms mx t" for t 
    using best_term_complete [of t TERM_SECS "sat_sub balance flr" terms mx None] by (auto simp: affordable_iff)
  with None show ?thesis by simp
next
  case (Some tc)
  then show ?thesis using plan_topup_Some [of balance flr terms mx "fst tc" "snd tc"] by auto
qed

end
