(* ===== verification/Single_Active.thy ===== *)
theory Single_Active
  imports Appd
begin

text \<open>
  \<open>mining-pool/src/single_active.rs\<close>: the guard that holds a new instance until it is the only
  live registration of the app. A poll reads the app id and the registrations through rofl-appd; the
  daemon may answer each poll differently, so the guard runs over one environment per poll, and the
  number of polls is its fuel.
\<close>

section \<open>Requests\<close>

definition first_line :: "string \<Rightarrow> string" where
  "first_line resp = (case str_find resp crlf of None \<Rightarrow> resp | Some i \<Rightarrow> take i resp)"

definition appd_request :: "appd_env \<Rightarrow> string \<Rightarrow> appd_error + string" where
  "appd_request d raw_req =
     (case a_sock d raw_req of
        None \<Rightarrow> Inl Unreachable
      | Some resp \<Rightarrow>
          let code = (case nth_word 1 (first_line resp) of None \<Rightarrow> [] | Some c \<Rightarrow> c)
          in case body_of resp of
               None \<Rightarrow> Inl NoBody
             | Some body \<Rightarrow> if code \<noteq> ''200'' then Inl (StatusText code body) else Inr body)"

definition appd_get :: "appd_env \<Rightarrow> string \<Rightarrow> appd_error + string" where
  "appd_get d path =
     appd_request d (''GET '' @ path @ '' HTTP/1.1'' @ crlf @ ''Host: localhost'' @ crlf @ ''Connection: close'' @ crlf @ crlf)"

definition appd_query :: "appd_env \<Rightarrow> string \<Rightarrow> u8 list \<Rightarrow> appd_error + cbor" where
  "appd_query d meth args =
     (let body = a_to_json d (JObj [(''method'', JStr meth), (''args'', JStr (a_enc d args))]);
          req = ''POST /rofl/v1/query HTTP/1.1'' @ crlf @ ''Host: localhost'' @ crlf @ ''Content-Type: application/json'' @ crlf @
            ''Content-Length: '' @ show_int (int (length body)) @ crlf @ ''Connection: close'' @ crlf @ crlf @ body
      in case appd_request d req of
           Inl e \<Rightarrow> Inl e
         | Inr resp_body \<Rightarrow>
             (case a_field d ''data'' resp_body of
                None \<Rightarrow> Inl BadReply
              | Some data \<Rightarrow>
                  (case a_dec d (strip_prefix_0x data) of
                     Inl _ \<Rightarrow> Inl BadReply
                   | Inr bytes \<Rightarrow> (case a_from_cbor d bytes of None \<Rightarrow> Inl BadReply | Some v \<Rightarrow> Inr v))))"

definition encode_map :: "appd_env \<Rightarrow> (string \<times> cbor) list \<Rightarrow> u8 list" where
  "encode_map d pairs = a_to_cbor d (CMap (map (\<lambda>(k, v). (CText k, v)) pairs))"

section \<open>Who is live\<close>

text \<open>The second bech32 decoder: it folds case and keeps the human-readable part. Lower-casing is the
  ASCII one; no other character folds to a letter of \<open>rofl\<close>, the only part that is accepted.\<close>

definition bech32_decode :: "string \<Rightarrow> bech32_error + (string \<times> u8 list)" where
  "bech32_decode str =
     (let s = str_trim str
      in case str_rfind s CHR ''1'' of
           None \<Rightarrow> Inl NoSeparator
         | Some pos \<Rightarrow>
             let hrp = to_ascii_lowercase (take pos s)
             in case symbol_values (map char_to_ascii_lowercase (drop (pos + 1) s)) of
                  None \<Rightarrow> Inl BadChar
                | Some vals \<Rightarrow>
                    if length vals < 6 then Inl TooShort
                    else Inr (hrp, regroup 0 0 (take (length vals - 6) vals)))"

datatype guard_error = GAppd appd_error | GBech32 bech32_error | GHrp string | GNotArray cbor

definition own_app_id :: "appd_env \<Rightarrow> guard_error + u8 list" where
  "own_app_id d =
     (case appd_get d ''/rofl/v1/app/id'' of
        Inl e \<Rightarrow> Inl (GAppd e)
      | Inr body \<Rightarrow>
          (case bech32_decode body of
             Inl e \<Rightarrow> Inl (GBech32 e)
           | Inr (hrp, data) \<Rightarrow> if hrp \<noteq> ''rofl'' then Inl (GHrp hrp) else Inr data))"

definition node_of :: "cbor \<Rightarrow> cbor" where
  "node_of r = (case map_get r ''node_id'' of Some v \<Rightarrow> v | None \<Rightarrow> CNull)"

definition live_node_ids :: "appd_env \<Rightarrow> guard_error + cbor list" where
  "live_node_ids d =
     (case own_app_id d of
        Inl e \<Rightarrow> Inl e
      | Inr aid \<Rightarrow>
          (case appd_query d ''rofl.AppInstances'' (encode_map d [(''id'', CBytes aid)]) of
             Inl e \<Rightarrow> Inl (GAppd e)
           | Inr (CArray a) \<Rightarrow> Inr (map node_of a)
           | Inr other \<Rightarrow> Inl (GNotArray other)))"

text \<open>Values are compared structurally. A node id is a byte string; a floating-point id, which \<open>COther\<close> stands for,
  would be equal to itself here also when it is not a number.\<close>

fun distinct_seen :: "cbor list \<Rightarrow> cbor list \<Rightarrow> cbor list" where
  "distinct_seen seen [] = seen"
| "distinct_seen seen (v # vs) = distinct_seen (if v \<in> set seen then seen else seen @ [v]) vs"

definition distinct_count :: "cbor list \<Rightarrow> nat" where
  "distinct_count values = length (distinct_seen [] values)"

datatype Decision = Proceed | StandDown string | Skipped string

definition decide_active :: "cbor list \<Rightarrow> bool \<Rightarrow> Decision" where
  "decide_active nodes node_aware =
     (let raw = length nodes
      in if node_aware then
           let distinct = distinct_count nodes
           in if distinct \<le> 1 then Proceed
              else StandDown (show_int (int distinct) @ '' distinct nodes registered for this app ('' @ show_int (int raw) @ '' registrations)'')
         else if raw \<le> 1 then Proceed
         else StandDown (show_int (int raw) @ '' live instances registered for this app''))"

section \<open>The guard\<close>

definition POLL_WAIT :: u64 where "POLL_WAIT = 60"
definition POLL_ERR :: u64 where "POLL_ERR = 10"
definition MAX_ERRORS :: u32 where "MAX_ERRORS = 6"

record SingleActiveConfig =
  sa_enabled :: bool
  sa_settle_secs :: u64
  sa_node_aware :: bool

datatype guard_exit = NoSocket | Disabled | Sole nat | NotApplicable nat | Unguarded nat

fun guard_loop :: "nat \<Rightarrow> (nat \<Rightarrow> appd_env) \<Rightarrow> bool \<Rightarrow> nat \<Rightarrow> u32 \<Rightarrow> u64 list \<Rightarrow> guard_exit option \<times> u64 list" where
  "guard_loop 0 polls aware k errors slept = (None, slept)"
| "guard_loop (Suc n) polls aware k errors slept =
     (case live_node_ids (polls k) of
        Inr nodes \<Rightarrow>
          (case decide_active nodes aware of
             Proceed \<Rightarrow> (Some (Sole k), slept)
           | StandDown reason \<Rightarrow> guard_loop n polls aware (Suc k) 0 (slept @ [POLL_WAIT])
           | Skipped _ \<Rightarrow> (Some (NotApplicable k), slept))
      | Inl e \<Rightarrow>
          let errors = errors + 1
          in if MAX_ERRORS \<le> errors then (Some (Unguarded k), slept)
             else guard_loop n polls aware (Suc k) errors (slept @ [POLL_ERR]))"

definition await_sole_instance :: "bool \<Rightarrow> SingleActiveConfig \<Rightarrow> (nat \<Rightarrow> appd_env) \<Rightarrow> nat \<Rightarrow> guard_exit option \<times> u64 list" where
  "await_sole_instance socket_exists cfg polls n =
     (if \<not> socket_exists then (Some NoSocket, [])
      else if \<not> sa_enabled cfg then (Some Disabled, [])
      else guard_loop n polls (sa_node_aware cfg) 0 0 [sa_settle_secs cfg])"

section \<open>What the guard decides\<close>

text \<open>A poll shows a sole instance when it reads at most one registration, or registrations on at
  most one node where only nodes count. The guard gives up at the sixth failed poll in a row.\<close>

definition sole_at :: "(nat \<Rightarrow> appd_env) \<Rightarrow> bool \<Rightarrow> nat \<Rightarrow> bool" where
  "sole_at polls aware k \<longleftrightarrow>
     (case live_node_ids (polls k) of
        Inl _ \<Rightarrow> False
      | Inr nodes \<Rightarrow> (if aware then card (set nodes) else length nodes) \<le> 1)"

definition failed_at :: "(nat \<Rightarrow> appd_env) \<Rightarrow> nat \<Rightarrow> bool" where
  "failed_at polls k = isl (live_node_ids (polls k))"

definition gives_up :: "(nat \<Rightarrow> appd_env) \<Rightarrow> nat \<Rightarrow> bool" where
  "gives_up polls k \<longleftrightarrow> 5 \<le> k \<and> list_all (failed_at polls) [k - 5..<Suc k]"

lemma distinct_seen_props:
  "distinct seen \<Longrightarrow> distinct (distinct_seen seen vs) \<and> set (distinct_seen seen vs) = set seen \<union> set vs"
  by (induction seen vs rule: distinct_seen.induct) auto

lemma distinct_count_card: "distinct_count vs = card (set vs)"
  using distinct_seen_props [of "[]" vs] distinct_card [of "distinct_seen [] vs"] by (simp add: distinct_count_def)

lemma decide_active_cases:
  "decide_active nodes aware = Proceed \<and> (if aware then card (set nodes) else length nodes) \<le> 1 \<or>
   (\<exists>reason. decide_active nodes aware = StandDown reason) \<and> \<not> (if aware then card (set nodes) else length nodes) \<le> 1"
  by (simp add: decide_active_def Let_def distinct_count_card)

text \<open>The error counter is the number of failed polls just before.\<close>

fun streak :: "(nat \<Rightarrow> appd_env) \<Rightarrow> nat \<Rightarrow> nat" where
  "streak polls 0 = 0"
| "streak polls (Suc k) = (if failed_at polls k then Suc (streak polls k) else 0)"

lemma streak_iff: "m \<le> streak polls k \<longleftrightarrow> m \<le> k \<and> (\<forall>i\<in>{k - m..<k}. failed_at polls i)"
proof (induction k arbitrary: m)
  case (Suc k)
  show ?case
  proof (cases m)
    case (Suc l)
    have "{k - l..<Suc k} = insert k {k - l..<k}" by auto
    then show ?thesis using Suc.IH [of l] Suc by auto
  qed simp
qed auto

lemma gives_up_streak: "gives_up polls k \<longleftrightarrow> 6 \<le> streak polls (Suc k)"
proof -
  have "Suc k - 6 = k - 5" "6 \<le> Suc k \<longleftrightarrow> 5 \<le> k" by auto
  then show ?thesis unfolding gives_up_def streak_iff list_all_iff set_upt by (simp only:)
qed

lemma guard_loop_step:
  assumes "errors = of_nat (streak polls k)" "streak polls k < 6"
  shows "guard_loop (Suc n) polls aware k errors slept =
    (if sole_at polls aware k then (Some (Sole k), slept)
     else if gives_up polls k then (Some (Unguarded k), slept)
     else guard_loop n polls aware (Suc k) (of_nat (streak polls (Suc k)))
       (slept @ [if failed_at polls k then POLL_ERR else POLL_WAIT]))"
proof (cases "live_node_ids (polls k)")
  case (Inl e)
  then have f: "failed_at polls k" "\<not> sole_at polls aware k" by (simp_all add: failed_at_def sole_at_def)
  have e: "errors + 1 = of_nat (streak polls (Suc k))" using assms f by (simp add: add.commute)
  have "unat (of_nat (streak polls (Suc k)) :: u32) = streak polls (Suc k)" using assms f by (simp add: unat_of_nat del: of_nat_Suc)
  then have "MAX_ERRORS \<le> errors + 1 \<longleftrightarrow> gives_up polls k"
    unfolding e gives_up_streak word_le_nat_alt by (simp only: MAX_ERRORS_def) simp
  then show ?thesis using Inl f e by (simp add: Let_def del: streak.simps)
next
  case (Inr nodes)
  then have f: "\<not> failed_at polls k" by (simp add: failed_at_def)
  then have "\<not> gives_up polls k" by (simp add: gives_up_streak)
  with decide_active_cases [of nodes aware] f Inr show ?thesis by (auto simp: sole_at_def)
qed

lemma guard_loop_first:
  assumes "errors = of_nat (streak polls k)" "streak polls k < 6"
  shows "guard_loop n polls aware k errors slept =
    (case find (\<lambda>j. sole_at polls aware j \<or> gives_up polls j) [k..<k + n] of
       None \<Rightarrow> (None, slept @ map (\<lambda>j. if failed_at polls j then POLL_ERR else POLL_WAIT) [k..<k + n])
     | Some j \<Rightarrow> (Some (if sole_at polls aware j then Sole j else Unguarded j),
                 slept @ map (\<lambda>j. if failed_at polls j then POLL_ERR else POLL_WAIT) [k..<j]))"
  using assms
proof (induction n arbitrary: k errors slept)
  case (Suc n)
  have up: "[k..<k + Suc n] = k # [Suc k..<Suc k + n]" by (simp add: upt_conv_Cons del: upt_Suc)
  have later: "find P [Suc k..<Suc k + n] = Some j \<Longrightarrow> [k..<j] = k # [Suc k..<j]" for P j
    by (rule upt_conv_Cons) (auto simp: find_Some_iff nth_upt simp del: upt_Suc)
  show ?case
  proof (cases "sole_at polls aware k \<or> gives_up polls k")
    case True
    then show ?thesis unfolding guard_loop_step [OF Suc.prems] up by auto
  next
    case False
    then have "streak polls (Suc k) < 6" by (simp add: gives_up_streak del: streak.simps)
    note IH = Suc.IH [OF refl this]
    show ?thesis unfolding guard_loop_step [OF Suc.prems] up using False
      by (cases "find (\<lambda>j. sole_at polls aware j \<or> gives_up polls j) [Suc k..<Suc k + n]")
         (simp_all add: IH later del: streak.simps upt_Suc)
  qed
qed simp

section \<open>Reading the app id\<close>

lemma symbol_values_set: "symbol_values s = Some vs \<Longrightarrow> set s \<subseteq> set bech32_charset"
proof (induction s arbitrary: vs)
  case (Cons c s)
  have "position_of c t \<noteq> None \<Longrightarrow> c \<in> set t" for t by (induction t) (auto split: if_splits)
  with Cons show ?case by (auto split: option.splits)
qed simp

lemma charset_chars:
  "c \<in> set bech32_charset \<Longrightarrow> printable c \<and> char_to_ascii_lowercase c = c \<and> c \<noteq> CHR 0x22"
proof -
  have "\<forall>c\<in>set bech32_charset. printable c \<and> char_to_ascii_lowercase c = c \<and> c \<noteq> CHR 0x22" by code_simp
  then show "c \<in> set bech32_charset \<Longrightarrow> printable c \<and> char_to_ascii_lowercase c = c \<and> c \<noteq> CHR 0x22" by blast
qed

lemma bech32_text_printable:
  assumes "symbol_values check = Some cs" "length check = 6" "\<forall>c\<in>set hrp. printable c"
  shows "\<forall>c\<in>set (bech32_text hrp data check). printable c"
proof -
  have "set (map (nth bech32_charset) (symbols_of data) @ check) \<subseteq> set bech32_charset"
    using bech32_text_symbols(3) [OF assms(1,2)] by (rule symbol_values_set)
  moreover have "printable CHR ''1''" by code_simp
  ultimately show ?thesis using assms(3) charset_chars by (auto simp: bech32_text_def)
qed

lemma bech32_decode_text:
  assumes "symbol_values check = Some cs" "length check = 6" "\<forall>c\<in>set hrp. printable c" "to_ascii_lowercase hrp = hrp"
  shows "bech32_decode (bech32_text hrp data check) = Inr (hrp, data)"
proof -
  note sym = bech32_text_symbols [OF assms(1,2)]
  have "set (map (nth bech32_charset) (symbols_of data) @ check) \<subseteq> set bech32_charset"
    using sym(3) by (rule symbol_values_set)
  then have low: "map char_to_ascii_lowercase (map (nth bech32_charset) (symbols_of data) @ check) =
      map (nth bech32_charset) (symbols_of data) @ check" by (intro map_idI) (use charset_chars in blast)
  have "take (length hrp) (bech32_text hrp data check) = hrp" by (simp add: bech32_text_def)
  then show ?thesis
    unfolding bech32_decode_def Let_def str_trim_printable [OF bech32_text_printable [OF assms(1-3)]] sym(1) option.case
      sym(2) low sym(3) using sym(4) assms(4) by (simp add: regroup_symbols)
qed

text \<open>An app id in JSON quotes is refused by this decoder.\<close>

lemma quoted_id_refused:
  assumes "\<forall>c\<in>set s. printable c"
  shows "\<exists>e. bech32_decode ([CHR 0x22] @ s @ [CHR 0x22]) = Inl e"
proof -
  have "printable CHR 0x22" by code_simp
  then have tr: "str_trim ([CHR 0x22] @ s @ [CHR 0x22]) = [CHR 0x22] @ s @ [CHR 0x22]"
    using assms by (intro str_trim_printable) auto
  have lq: "char_to_ascii_lowercase CHR 0x22 = CHR 0x22" by code_simp
  have bad: "symbol_values (map char_to_ascii_lowercase (drop n ([CHR 0x22] @ s @ [CHR 0x22]))) = None"
    if "n < length s + 2" for n
  proof (rule ccontr)
    assume "\<not> ?thesis"
    then obtain vs where "symbol_values (map char_to_ascii_lowercase (drop n ([CHR 0x22] @ s @ [CHR 0x22]))) = Some vs" by auto
    from symbol_values_set [OF this] have "CHR 0x22 \<in> set bech32_charset"
      using that lq by (cases n) (auto simp: drop_append Cons_eq_append_conv split: if_splits)
    then show False using charset_chars by blast
  qed
  show ?thesis
  proof (cases "str_rfind ([CHR 0x22] @ s @ [CHR 0x22]) CHR ''1''")
    case None
    then show ?thesis by (simp only: bech32_decode_def tr Let_def option.case) blast
  next
    case (Some pos)
    have pos: "str_rfind u x = Some i \<Longrightarrow> i < length u" for u x i by (induction u arbitrary: i) (auto split: option.splits if_splits)
    have last: "str_rfind (u @ [CHR 0x22]) CHR ''1'' = Some i \<Longrightarrow> i < length u" for u i
      by (induction u arbitrary: i) (auto split: option.splits if_splits)
    have "pos + 1 < length s + 2" using last [of "[CHR 0x22] @ s" pos] Some by simp
    from bad [OF this] Some show ?thesis by (simp only: bech32_decode_def tr Let_def option.case) blast
  qed
qed

section \<open>Properties\<close>

text \<open>C33: Both bech32 decoders of the program read an address as it was written: for every 21 bytes,
  every printable lower-case prefix and every six-symbol checksum, the decoder of \<open>appd.rs\<close> returns the
  bytes and the decoder of \<open>single_active.rs\<close> returns the prefix and the bytes.\<close>

theorem bech32_decoders_agree:
  assumes "symbol_values check = Some cs" "length check = 6" "length data = 21"
    and "\<forall>c\<in>set hrp. printable c" "to_ascii_lowercase hrp = hrp"
  shows "bech32_to_21 (bech32_text hrp data check) = Inr data \<and>
         bech32_decode (bech32_text hrp data check) = Inr (hrp, data)"
  using bech32_to_21_text [OF assms(1-3) bech32_text_printable [OF assms(1,2,4)]] bech32_decode_text [OF assms(1,2,4,5)] by blast

theorem bech32_decoders_agree_witness:
  "let txt = ''rofl1qqpmwjehvysjceewhedefzy223w782vwlgeuvwrt'';
       bytes = [0, 3, 0xb7, 0x4b, 0x37, 0x61, 0x21, 0x2c, 0x67, 0x2e, 0xbe, 0x5b, 0x94, 0x88, 0x8a, 0x54, 0x5d, 0xe3, 0xa9, 0x8e, 0xfa]
   in bech32_to_21 txt = Inr bytes \<and> bech32_decode txt = Inr (''rofl'', bytes)"
proof -
  let ?bytes = "[0, 3, 0xb7, 0x4b, 0x37, 0x61, 0x21, 0x2c, 0x67, 0x2e, 0xbe, 0x5b, 0x94, 0x88, 0x8a, 0x54, 0x5d, 0xe3, 0xa9, 0x8e, 0xfa] :: u8 list"
  have c: "symbol_values ''euvwrt'' = Some [25, 28, 12, 14, 3, 11]" by code_simp
  have p: "\<forall>c\<in>set ''rofl''. printable c" "to_ascii_lowercase ''rofl'' = ''rofl''" by code_simp+
  have step: "be_digits b (numeral k) n = (n div b ^ pred_numeral k) mod b # be_digits b (pred_numeral k) n" for b k n
    by (simp add: numeral_eq_Suc)
  have "bech32_text ''rofl'' ?bytes ''euvwrt'' = ''rofl1qqpmwjehvysjceewhedefzy223w782vwlgeuvwrt''"
    by (simp add: bech32_text_def symbols_of_def Let_def step bech32_charset_def)
  then show ?thesis using bech32_decoders_agree [OF c _ _ p, of ?bytes] by (simp add: Let_def)
qed

text \<open>C34: Where the daemon's socket exists and the guard is enabled, it lets the pool run exactly at
  the first poll that reads at most one registration (on one node, where nodes count), or at the first
  that ends six failed reads in a row; until then it keeps waiting, 60 seconds after every poll that
  saw another instance and 10 after a failed one, however long that takes.\<close>

theorem guard_waits_for_sole_instance:
  "await_sole_instance True \<lparr>sa_enabled = True, sa_settle_secs = settle, sa_node_aware = aware\<rparr> polls n =
    (case find (\<lambda>k. sole_at polls aware k \<or> gives_up polls k) [0..<n] of
       None \<Rightarrow> (None, settle # map (\<lambda>j. if failed_at polls j then 10 else 60) [0..<n])
     | Some k \<Rightarrow> (Some (if sole_at polls aware k then Sole k else Unguarded k),
                 settle # map (\<lambda>j. if failed_at polls j then 10 else 60) [0..<k]))"
  using guard_loop_first [of 0 polls 0 n aware "[settle]"]
  by (simp add: await_sole_instance_def POLL_ERR_def POLL_WAIT_def split: option.split)

end
