(* ===== verification/Self_Fund.thy ===== *)
theory Self_Fund
  imports Single_Active
begin

text \<open>
  \<open>mining-pool/src/self_fund.rs\<close>: the agent that pays the machine's rent from the RentPayer
  contract; \<open>mining-pool/src/rofl_kms.rs\<close>: keys from the in-TEE key manager. The agent's loop is
  modelled on a sequence of ticks, each with the clock and the daemon as that tick finds them; the ABI
  encoders of the two contract calls are parameters.
\<close>

section \<open>Keys\<close>

datatype KeyKind = Secp256k1 | Ed25519 | Raw256

fun key_kind_str :: "KeyKind \<Rightarrow> string" where
  "key_kind_str Secp256k1 = ''secp256k1''"
| "key_kind_str Ed25519 = ''ed25519''"
| "key_kind_str Raw256 = ''raw-256''"

definition derive_key_at :: "appd_env \<Rightarrow> string \<Rightarrow> KeyKind \<Rightarrow> appd_error + u8 list" where
  "derive_key_at d key_id kind =
     (let body = a_to_json d (JObj [(''key_id'', JStr key_id), (''kind'', JStr (key_kind_str kind))]);
          req = ''POST /rofl/v1/keys/generate HTTP/1.1'' @ crlf @ ''Host: localhost'' @ crlf @ ''Content-Type: application/json'' @ crlf @
            ''Content-Length: '' @ show_int (int (length body)) @ crlf @ ''Connection: close'' @ crlf @ crlf @ body
      in case a_sock d req of
           None \<Rightarrow> Inl Unreachable
         | Some resp \<Rightarrow>
             let code = (case nth_word 1 (first_line resp) of None \<Rightarrow> [] | Some c \<Rightarrow> c)
             in case body_of resp of
                  None \<Rightarrow> Inl NoBody
                | Some b \<Rightarrow>
                    if code \<noteq> ''200'' then Inl (StatusText code b)
                    else case a_field d ''key'' b of
                           None \<Rightarrow> Inl BadReply
                         | Some key \<Rightarrow> (case a_dec d (strip_prefix_0x key) of Inl _ \<Rightarrow> Inl BadReply | Inr bytes \<Rightarrow> Inr bytes))"

section \<open>The agent\<close>

record SelfFundConfig =
  sf_rent_payer_address :: string
  sf_provider_hex :: string
  sf_instance_id_hex :: string
  sf_safety_window_secs :: u64
  sf_max_topup_term :: u8
  sf_min_topup_interval_secs :: u64
  sf_min_check_interval_secs :: u64
  sf_max_check_interval_secs :: u64
  sf_reserve_floor_wei :: string
  sf_force_first_topup :: bool

record Target =
  t_rent_payer :: "u8 list"
  t_provider :: "u8 list"
  t_instance_id :: "u8 list"

record call_abi =
  c_topUp :: "u8 \<Rightarrow> u8 \<Rightarrow> u8 list"
  c_setInstance :: "u8 list \<Rightarrow> u8 list \<Rightarrow> u8 list"

definition parse_hex_n :: "appd_env \<Rightarrow> nat \<Rightarrow> string \<Rightarrow> u8 list option" where
  "parse_hex_n d n s =
     (case a_dec d (strip_prefix_0x (str_trim s)) of
        Inl _ \<Rightarrow> None
      | Inr bytes \<Rightarrow> if length bytes \<noteq> n then None else Some bytes)"

definition targeting :: "appd_env \<Rightarrow> SelfFundConfig \<Rightarrow> Target option" where
  "targeting d cfg =
     (case (parse_hex_n d 20 (sf_rent_payer_address cfg), parse_hex_n d 21 (sf_provider_hex cfg),
            parse_hex_n d 8 (sf_instance_id_hex cfg)) of
        (Some rp, Some pv, Some iid) \<Rightarrow> Some \<lparr>t_rent_payer = rp, t_provider = pv, t_instance_id = iid\<rparr>
      | _ \<Rightarrow> None)"

definition reserve_floor :: "SelfFundConfig \<Rightarrow> u128" where
  "reserve_floor cfg = (case parse_u128 (str_trim (sf_reserve_floor_wei cfg)) of Some n \<Rightarrow> n | None \<Rightarrow> 0)"

definition adaptive_sleep :: "u64 option \<Rightarrow> SelfFundConfig \<Rightarrow> u64" where
  "adaptive_sleep runway cfg =
     (let mn = max (sf_min_check_interval_secs cfg) 1; mx = max (sf_max_check_interval_secs cfg) mn
      in case runway of
           Some r \<Rightarrow> (let q = r div 4 in if q < mn then mn else if q > mx then mx else q)
         | None \<Rightarrow> mn)"

definition set_instance :: "appd_env \<Rightarrow> call_abi \<Rightarrow> Target \<Rightarrow> appd_error + string" where
  "set_instance d abi tgt = sign_submit_eth d (t_rent_payer tgt) (c_setInstance abi (t_provider tgt) (t_instance_id tgt)) 200000"

text \<open>One tick, in the order of the code. Its state is the time of the last top-up and the flag of the
  forced one; its trace lists the terms it asked for and whether the daemon took the transaction.\<close>

record fund_state =
  fs_last_topup :: u64
  fs_forced_done :: bool

datatype topup = Topup (tu_time: u64) (tu_term: u8) (tu_count: u8) (tu_taken: bool)

definition terms_empty :: "(u8 \<Rightarrow> u128 option) \<Rightarrow> bool" where
  "terms_empty terms = (terms 1 = None \<and> terms 2 = None \<and> terms 3 = None)"

definition reserve_balance :: "appd_env \<Rightarrow> Target \<Rightarrow> u128 option" where
  "reserve_balance d tgt =
     (case query d ''accounts.Balances'' (encode_balances_args d (oasis_addr_from_eth d (t_rent_payer tgt))) of
        Inl _ \<Rightarrow> None
      | Inr raw \<Rightarrow> parse_native_balance d raw)"

definition topup_due :: "SelfFundConfig \<Rightarrow> u64 \<Rightarrow> fund_state \<Rightarrow> u64 option \<Rightarrow> bool" where
  "topup_due cfg now st runway =
     (let force = sf_force_first_topup cfg \<and> \<not> fs_forced_done st;
          due = (case runway of
                   Some r \<Rightarrow> force \<or> r < sf_safety_window_secs cfg
                 | None \<Rightarrow> force \<or> sf_min_topup_interval_secs cfg \<le> sat_sub now (fs_last_topup st))
      in due \<and> \<not> (\<not> force \<and> sat_sub now (fs_last_topup st) < sf_min_topup_interval_secs cfg))"

definition choose_terms :: "u128 option \<Rightarrow> InstanceInfo option \<Rightarrow> u128 \<Rightarrow> u8 \<Rightarrow> (u8 \<times> u8) option" where
  "choose_terms balance inst flr mx =
     (case (balance, inst) of
        (Some bal, Some i) \<Rightarrow>
          if terms_empty (ii_terms i) then Some (1, 1) else plan_topup bal flr (ii_terms i) mx
      | _ \<Rightarrow> Some (1, 1))"

definition read_instance :: "appd_env \<Rightarrow> Target \<Rightarrow> appd_error + InstanceInfo option" where
  "read_instance d tgt =
     (case query d ''roflmarket.Instance'' (encode_instance_args d (t_provider tgt) (t_instance_id tgt)) of
        Inl _ \<Rightarrow> Inr None
      | Inr raw \<Rightarrow> (case parse_instance d raw of None \<Rightarrow> Inl BadReply | Some i \<Rightarrow> Inr (Some i)))"

definition runway_of :: "u64 \<Rightarrow> InstanceInfo option \<Rightarrow> u64 option" where
  "runway_of now inst = map_option (\<lambda>p. sat_sub p now) (Option.bind inst ii_paid_until)"

definition fund_tick :: "appd_env \<Rightarrow> call_abi \<Rightarrow> Target \<Rightarrow> SelfFundConfig \<Rightarrow> u128 \<Rightarrow> u64 \<Rightarrow> fund_state \<Rightarrow>
    (appd_error + u64 option) \<times> fund_state \<times> topup list" where
  "fund_tick d abi tgt cfg flr now st =
     (case read_instance d tgt of
        Inl e \<Rightarrow> (Inl e, st, [])
      | Inr inst \<Rightarrow>
          let runway = runway_of now inst
          in if \<not> topup_due cfg now st runway then (Inr runway, st, [])
             else case choose_terms (reserve_balance d tgt) inst flr (sf_max_topup_term cfg) of
                    None \<Rightarrow> (Inr runway, st, [])
                  | Some (trm, cnt) \<Rightarrow>
                      (case sign_submit_eth d (t_rent_payer tgt) (c_topUp abi trm cnt) 250000 of
                         Inl e \<Rightarrow> (Inl e, st, [Topup now trm cnt False])
                       | Inr _ \<Rightarrow> (Inr runway, \<lparr>fs_last_topup = now, fs_forced_done = True\<rparr>, [Topup now trm cnt True])))"

text \<open>The loop of \<open>run\<close>: the sleep before each tick comes from the tick before it.\<close>

fun fund_loop :: "call_abi \<Rightarrow> Target \<Rightarrow> SelfFundConfig \<Rightarrow> (appd_env \<times> u64) list \<Rightarrow> fund_state \<Rightarrow> u64 \<Rightarrow>
    u64 list \<times> topup list" where
  "fund_loop abi tgt cfg [] st sleep_secs = ([], [])"
| "fund_loop abi tgt cfg ((d, now) # ticks) st sleep_secs =
     (let (r, st', tops) = fund_tick d abi tgt cfg (reserve_floor cfg) now st;
          next_sleep = (case r of Inr runway \<Rightarrow> adaptive_sleep runway cfg
                               | Inl _ \<Rightarrow> max (sf_min_check_interval_secs cfg) 1);
          (sleeps, rest) = fund_loop abi tgt cfg ticks st' next_sleep
      in (sleep_secs # sleeps, tops @ rest))"

text \<open>The boot: the targeting, the cross-check of the configured instance (two warnings, never acted
  on), \<open>setInstance\<close>, then the loop.\<close>

definition cross_check :: "appd_env \<Rightarrow> Target \<Rightarrow> (bool \<times> bool) option" where
  "cross_check d tgt =
     (case app_id_bytes d of
        Inl _ \<Rightarrow> None
      | Inr app \<Rightarrow>
          (case discover_instances d (t_provider tgt) app of
             Inl _ \<Rightarrow> None
           | Inr found \<Rightarrow> Some (t_instance_id tgt \<notin> set found, filter (\<lambda>i. i \<noteq> t_instance_id tgt) found \<noteq> [])))"

record boot_report =
  b_target :: Target
  b_cross_check :: "(bool \<times> bool) option"
  b_app_id :: "appd_error + string"
  b_set_instance :: "appd_error + string"

definition run_agent :: "appd_env \<Rightarrow> call_abi \<Rightarrow> SelfFundConfig \<Rightarrow> (appd_env \<times> u64) list \<Rightarrow>
    boot_report option \<times> u64 list \<times> topup list" where
  "run_agent d abi cfg ticks =
     (case targeting d cfg of
        None \<Rightarrow> (None, [], [])
      | Some tgt \<Rightarrow>
          (Some \<lparr>b_target = tgt, b_cross_check = cross_check d tgt, b_app_id = app_id d, b_set_instance = set_instance d abi tgt\<rparr>,
           fund_loop abi tgt cfg ticks \<lparr>fs_last_topup = 0, fs_forced_done = False\<rparr> (max (sf_min_check_interval_secs cfg) 1)))"

section \<open>Top-ups are spaced and affordable\<close>

lemma choose_terms_Some:
  "choose_terms balance inst flr mx = Some (trm, cnt) \<Longrightarrow>
   cnt = 1 \<and> (case (balance, inst) of
      (Some bal, Some i) \<Rightarrow> if terms_empty (ii_terms i) then trm = 1 else affordable bal flr (ii_terms i) mx trm
    | _ \<Rightarrow> trm = 1)"
  by (auto simp: choose_terms_def dest: plan_topup_Some split: option.splits if_splits)

lemma choose_terms_range:
  "choose_terms balance inst flr mx = Some (trm, cnt) \<Longrightarrow> cnt = 1 \<and> trm \<in> {1, 2, 3}"
  by (auto simp: affordable_def TERM_SECS_def dest!: choose_terms_Some split: option.splits if_splits)

lemma choose_terms_None:
  "choose_terms balance inst flr mx = None \<longleftrightarrow>
   (\<exists>bal i. balance = Some bal \<and> inst = Some i \<and> \<not> terms_empty (ii_terms i) \<and> (\<forall>t. \<not> affordable bal flr (ii_terms i) mx t))"
  by (auto simp: choose_terms_def plan_topup_None split: option.splits)

lemma topup_due_iff:
  "topup_due cfg now st runway \<longleftrightarrow>
   sf_force_first_topup cfg \<and> \<not> fs_forced_done st \<or>
   sf_min_topup_interval_secs cfg \<le> sat_sub now (fs_last_topup st) \<and>
   (case runway of None \<Rightarrow> True | Some r \<Rightarrow> r < sf_safety_window_secs cfg)"
  by (cases runway) (auto simp: topup_due_def Let_def not_less)

lemma fund_tick_cases:
  obtains (idle) r where "fund_tick d abi tgt cfg flr now st = (r, st, [])"
  | (asked) r inst trm cnt where "read_instance d tgt = Inr inst" "topup_due cfg now st (runway_of now inst)"
      "choose_terms (reserve_balance d tgt) inst flr (sf_max_topup_term cfg) = Some (trm, cnt)"
      "fund_tick d abi tgt cfg flr now st = (Inl r, st, [Topup now trm cnt False])"
  | (taken) inst trm cnt where "read_instance d tgt = Inr inst" "topup_due cfg now st (runway_of now inst)"
      "choose_terms (reserve_balance d tgt) inst flr (sf_max_topup_term cfg) = Some (trm, cnt)"
      "fund_tick d abi tgt cfg flr now st =
         (Inr (runway_of now inst), \<lparr>fs_last_topup = now, fs_forced_done = True\<rparr>, [Topup now trm cnt True])"
proof (cases "read_instance d tgt")
  case (Inl e)
  then show ?thesis by (intro idle) (simp add: fund_tick_def)
next
  case (Inr inst)
  let ?c = "choose_terms (reserve_balance d tgt) inst flr (sf_max_topup_term cfg)"
  show ?thesis
  proof (cases "topup_due cfg now st (runway_of now inst) \<and> ?c \<noteq> None")
    case False
    then have "fund_tick d abi tgt cfg flr now st = (Inr (runway_of now inst), st, [])"
      using Inr by (cases ?c) (simp_all add: fund_tick_def Let_def)
    then show ?thesis by (rule idle)
  next
    case True
    then obtain trm cnt where c: "?c = Some (trm, cnt)" by auto
    show ?thesis
    proof (cases "sign_submit_eth d (t_rent_payer tgt) (c_topUp abi trm cnt) 250000")
      case (Inl e)
      then show ?thesis using True c Inr by (intro asked [OF Inr _ c]) (simp_all add: fund_tick_def)
    next
      case (Inr x)
      then show ?thesis using True c \<open>read_instance d tgt = Inr inst\<close>
        by (intro taken [OF \<open>read_instance d tgt = Inr inst\<close> _ c]) (simp_all add: fund_tick_def)
    qed
  qed
qed

text \<open>Once a top-up was taken the flag is set and every later one is a full interval after it.\<close>

lemma fund_loop_spaced:
  "let acks = map tu_time (filter tu_taken (snd (fund_loop abi tgt cfg ticks st sl)))
   in successively (\<lambda>a b. sf_min_topup_interval_secs cfg \<le> sat_sub b a) acks \<and>
      (fs_forced_done st \<longrightarrow> acks \<noteq> [] \<longrightarrow> sf_min_topup_interval_secs cfg \<le> sat_sub (hd acks) (fs_last_topup st))"
proof (induction abi tgt cfg ticks st sl rule: fund_loop.induct)
  case (2 abi tgt cfg d now ticks st sl)
  obtain r st' tops where ft: "fund_tick d abi tgt cfg (reserve_floor cfg) now st = (r, st', tops)" by (metis surj_pair)
  let ?next = "case r of Inr runway \<Rightarrow> adaptive_sleep runway cfg | Inl _ \<Rightarrow> max (sf_min_check_interval_secs cfg) 1"
  have step: "snd (fund_loop abi tgt cfg ((d, now) # ticks) st sl) = tops @ snd (fund_loop abi tgt cfg ticks st' ?next)"
    using ft by (simp add: Let_def split: prod.split)
  define acks where "acks = map tu_time (filter tu_taken (snd (fund_loop abi tgt cfg ticks st' ?next)))"
  have IH: "successively (\<lambda>a b. sf_min_topup_interval_secs cfg \<le> sat_sub b a) acks"
    "fs_forced_done st' \<Longrightarrow> acks \<noteq> [] \<Longrightarrow> sf_min_topup_interval_secs cfg \<le> sat_sub (hd acks) (fs_last_topup st')"
    using 2 [OF ft [symmetric] refl refl] unfolding acks_def Let_def by blast+
  have split: "map tu_time (filter tu_taken (snd (fund_loop abi tgt cfg ((d, now) # ticks) st sl))) =
      map tu_time (filter tu_taken tops) @ acks" by (simp only: step acks_def filter_append map_append)
  show ?case
  proof (cases rule: fund_tick_cases [of d abi tgt cfg "reserve_floor cfg" now st])
    case (idle x)
    with ft have "tops = []" "st' = st" by auto
    with IH show ?thesis by (simp only: split Let_def) simp
  next
    case (asked x inst trm cnt)
    with ft have "tops = [Topup now trm cnt False]" "st' = st" by auto
    with IH show ?thesis by (simp only: split Let_def) simp
  next
    case (taken inst trm cnt)
    with ft have s: "tops = [Topup now trm cnt True]" "st' = \<lparr>fs_last_topup = now, fs_forced_done = True\<rparr>" by auto
    have "fs_forced_done st \<longrightarrow> sf_min_topup_interval_secs cfg \<le> sat_sub now (fs_last_topup st)"
      using taken(2) by (auto simp: topup_due_iff)
    with IH s show ?thesis by (simp only: split Let_def) (auto simp: successively_Cons)
  qed
qed simp

lemma adaptive_sleep_bounds:
  "max (sf_min_check_interval_secs cfg) 1 \<le> adaptive_sleep runway cfg \<and>
   adaptive_sleep runway cfg \<le> max (sf_max_check_interval_secs cfg) (max (sf_min_check_interval_secs cfg) 1)"
proof (cases runway)
  case (Some r)
  define mn where "mn = max (sf_min_check_interval_secs cfg) 1"
  define mx where "mx = max (sf_max_check_interval_secs cfg) mn"
  have "mn \<le> mx" by (simp add: mx_def)
  then show ?thesis unfolding adaptive_sleep_def Let_def Some option.case mn_def [symmetric] mx_def [symmetric] by auto
qed (simp add: adaptive_sleep_def)

lemma fund_loop_sleeps:
  assumes "max (sf_min_check_interval_secs cfg) 1 \<le> sl" "sl \<le> max (sf_max_check_interval_secs cfg) (max (sf_min_check_interval_secs cfg) 1)"
  shows "list_all (\<lambda>s. max (sf_min_check_interval_secs cfg) 1 \<le> s \<and>
      s \<le> max (sf_max_check_interval_secs cfg) (max (sf_min_check_interval_secs cfg) 1)) (fst (fund_loop abi tgt cfg ticks st sl))"
  using assms
proof (induction abi tgt cfg ticks st sl rule: fund_loop.induct)
  case (2 abi tgt cfg d now ticks st sl)
  obtain r st' tops where ft: "fund_tick d abi tgt cfg (reserve_floor cfg) now st = (r, st', tops)" by (metis surj_pair)
  let ?next = "case r of Inr runway \<Rightarrow> adaptive_sleep runway cfg | Inl _ \<Rightarrow> max (sf_min_check_interval_secs cfg) 1"
  have step: "fst (fund_loop abi tgt cfg ((d, now) # ticks) st sl) = sl # fst (fund_loop abi tgt cfg ticks st' ?next)"
    using ft by (simp add: Let_def split: prod.split)
  have n: "max (sf_min_check_interval_secs cfg) 1 \<le> ?next"
    "?next \<le> max (sf_max_check_interval_secs cfg) (max (sf_min_check_interval_secs cfg) 1)"
    using adaptive_sleep_bounds [of cfg] by (simp_all split: sum.split del: max.bounded_iff)
  show ?case unfolding step using 2(1) [OF ft [symmetric] refl refl refl n] 2(2,3) by simp
qed simp

section \<open>Properties of the agent\<close>

text \<open>C35: A tick asks for at most what the reserve allows: whenever it submits a top-up, it is the
  first forced one or a full minimum interval after the last that was taken and the known runway is
  below the safety window; it buys one unit; where the reserve and prices were read, the term is within
  the configured cap and its price leaves the reserve floor untouched, else it is the shortest term;
  and the tick remembers it only when the daemon took the transaction.\<close>

theorem topup_within_means:
  assumes "Topup t trm cnt taken \<in> set (snd (snd (fund_tick d abi tgt cfg flr now st)))"
  shows "t = now \<and> cnt = 1 \<and>
    (\<exists>inst. read_instance d tgt = Inr inst \<and>
       (sf_force_first_topup cfg \<and> \<not> fs_forced_done st \<or>
        sf_min_topup_interval_secs cfg \<le> sat_sub now (fs_last_topup st) \<and>
        (case runway_of now inst of None \<Rightarrow> True | Some r \<Rightarrow> r < sf_safety_window_secs cfg)) \<and>
       (case (reserve_balance d tgt, inst) of
          (Some bal, Some i) \<Rightarrow>
            if terms_empty (ii_terms i) then trm = 1 else affordable bal flr (ii_terms i) (sf_max_topup_term cfg) trm
        | _ \<Rightarrow> trm = 1)) \<and>
    fst (snd (fund_tick d abi tgt cfg flr now st)) =
      (if taken then \<lparr>fs_last_topup = now, fs_forced_done = True\<rparr> else st)"
proof (cases rule: fund_tick_cases [of d abi tgt cfg flr now st])
  case (idle r)
  then show ?thesis using assms by simp
next
  case (asked r inst trm' cnt')
  then have eq: "t = now" "trm' = trm" "cnt' = cnt" "taken = False" using assms by auto
  show ?thesis using choose_terms_Some [OF asked(3)] asked(1,2,4) unfolding eq topup_due_iff by auto
next
  case (taken inst trm' cnt')
  then have eq: "t = now" "trm' = trm" "cnt' = cnt" "\<And>x. (if taken then x else st) = x" using assms by auto
  show ?thesis using choose_terms_Some [OF taken(3)] taken(1,2,4) unfolding eq topup_due_iff by auto
qed

definition demo_daemon :: appd_env where
  "demo_daemon =
     \<lparr>a_sock = \<lambda>_. Some (''H 200'' @ crlf @ crlf),
      a_to_json = \<lambda>_. ''{}'', a_from_json = \<lambda>_. Some (JObj [(''data'', JStr ''00'')]), a_field = \<lambda>_ _. None,
      a_enc = \<lambda>_. ''00'', a_dec = \<lambda>s. Inr (replicate (length s div 2) 0), a_to_cbor = \<lambda>_. [],
      a_from_cbor = \<lambda>_. Some (CMap
        [(CText ''paid_until'', CInt 10600),
         (CText ''payment'', CMap [(CText ''native'', CMap [(CText ''terms'', CMap [(CInt 1, CInt 5), (CInt 2, CInt 3000)])])]),
         (CText ''balances'', CMap [(CBytes [], CInt 100)])]),
      a_sha = \<lambda>_. []\<rparr>"

definition demo_fund_config :: SelfFundConfig where
  "demo_fund_config =
     \<lparr>sf_rent_payer_address = replicate 40 (CHR ''0''), sf_provider_hex = replicate 42 (CHR ''0''),
      sf_instance_id_hex = replicate 16 (CHR ''0''), sf_safety_window_secs = 1200,
      sf_max_topup_term = 2, sf_min_topup_interval_secs = 600, sf_min_check_interval_secs = 60,
      sf_max_check_interval_secs = 3600, sf_reserve_floor_wei = [], sf_force_first_topup = False\<rparr>"

definition demo_target :: Target where
  "demo_target = \<lparr>t_rent_payer = replicate 20 0, t_provider = replicate 21 0, t_instance_id = replicate 8 0\<rparr>"

definition demo_abi :: call_abi where
  "demo_abi = \<lparr>c_topUp = \<lambda>_ _. [], c_setInstance = \<lambda>_ _. []\<rparr>"

lemma demo_tick:
  "snd (snd (fund_tick demo_daemon demo_abi demo_target demo_fund_config 50 10000 \<lparr>fs_last_topup = 0, fs_forced_done = False\<rparr>)) =
   [Topup 10000 1 1 True]"
  by code_simp

theorem topup_within_means_witness:
  "fst (snd (fund_tick demo_daemon demo_abi demo_target demo_fund_config 50 10000 \<lparr>fs_last_topup = 0, fs_forced_done = False\<rparr>)) =
   \<lparr>fs_last_topup = 10000, fs_forced_done = True\<rparr>"
  using topup_within_means [of 10000 1 1 True demo_daemon demo_abi demo_target demo_fund_config 50 10000
      "\<lparr>fs_last_topup = 0, fs_forced_done = False\<rparr>"] by (simp add: demo_tick)

text \<open>C36: Over any run of the agent, whatever the daemon answers and wherever the clock goes, two
  top-ups that were taken one after the other are at least the minimum interval apart, and every sleep
  is within the configured cadence, never zero.\<close>

theorem topups_spaced:
  "let (boot, sleeps, tops) = run_agent d abi cfg ticks
   in successively (\<lambda>a b. sf_min_topup_interval_secs cfg \<le> sat_sub b a) (map tu_time (filter tu_taken tops)) \<and>
      list_all (\<lambda>s. max (sf_min_check_interval_secs cfg) 1 \<le> s \<and>
        s \<le> max (sf_max_check_interval_secs cfg) (max (sf_min_check_interval_secs cfg) 1)) sleeps"
proof (cases "targeting d cfg")
  case (Some tgt)
  let ?l = "fund_loop abi tgt cfg ticks \<lparr>fs_last_topup = 0, fs_forced_done = False\<rparr> (max (sf_min_check_interval_secs cfg) 1)"
  obtain sleeps tops where l: "?l = (sleeps, tops)" by (metis surj_pair)
  show ?thesis
    using fund_loop_spaced [of abi tgt cfg ticks "\<lparr>fs_last_topup = 0, fs_forced_done = False\<rparr>" "max (sf_min_check_interval_secs cfg) 1"]
      fund_loop_sleeps [of cfg "max (sf_min_check_interval_secs cfg) 1" abi tgt ticks "\<lparr>fs_last_topup = 0, fs_forced_done = False\<rparr>"]
    unfolding run_agent_def Some option.case Let_def l by simp
qed (simp add: run_agent_def)

end
