(* ===== verification/Rent.thy ===== *)
theory Rent
  imports Self_Fund Voucher
begin

text \<open>
  \<open>contracts/src/RentPayer.sol\<close>, \<open>contracts/src/FeeSwapper.sol\<close>,
  \<open>contracts/src/PoolEndpointRegistry.sol\<close> and \<open>mining-pool/src/endpoint_registry.rs\<close>: the contracts
  that only the enclave drives, and the advertisement of the pool's endpoints. The origin check of
  Sapphire (\<open>roflEnsureAuthorizedOrigin\<close>), the subcall's status and the router's answers come with
  the call; a call returns the new state or the revert reason. The events of these contracts are not
  recorded.
\<close>

section \<open>RentPayer\<close>

record RentPayer =
  rp_APP_ID :: "u8 list"
  rp_provider :: "u8 list"
  rp_instanceId :: "u8 list"

definition RentPayer_new :: "u8 list \<Rightarrow> u8 list \<Rightarrow> u8 list \<Rightarrow> RentPayer" where
  "RentPayer_new appId prov iid = \<lparr>rp_APP_ID = appId, rp_provider = prov, rp_instanceId = iid\<rparr>"

definition setInstance :: "(u8 list \<Rightarrow> bool) \<Rightarrow> u8 list \<Rightarrow> u8 list \<Rightarrow> RentPayer \<Rightarrow> string + RentPayer" where
  "setInstance origin_ok prov iid r =
     (if \<not> origin_ok (rp_APP_ID r) then Inl ''RoflOriginNotAuthorizedForApp''
      else Inr (r\<lparr>rp_provider := prov, rp_instanceId := iid\<rparr>))"

definition encodeTopUpBody :: "u8 \<Rightarrow> u8 \<Rightarrow> RentPayer \<Rightarrow> string + u8 list" where
  "encodeTopUpBody trm cnt r =
     (if \<not> (trm \<ge> 1 \<and> trm \<le> 3) then Inl ''term must be 1..3''
      else if \<not> (cnt \<ge> 1 \<and> cnt < 24) then Inl ''term_count must be 1..23''
      else Inr ([0xa4] @
             [0x62] @ map of_char ''id'' @ [0x48] @ rp_instanceId r @
             [0x64] @ map of_char ''term'' @ [trm] @
             [0x68] @ map of_char ''provider'' @ [0x55] @ rp_provider r @
             [0x6a] @ map of_char ''term_count'' @ [cnt]))"

text \<open>The subcall is a function of its method and body; it returns the status.\<close>

definition topUp :: "(u8 list \<Rightarrow> bool) \<Rightarrow> (string \<Rightarrow> u8 list \<Rightarrow> u64) \<Rightarrow> u8 \<Rightarrow> u8 \<Rightarrow> RentPayer \<Rightarrow> string + (u8 list \<times> RentPayer)" where
  "topUp origin_ok subcall trm cnt r =
     (if \<not> origin_ok (rp_APP_ID r) then Inl ''RoflOriginNotAuthorizedForApp''
      else case encodeTopUpBody trm cnt r of
             Inl e \<Rightarrow> Inl e
           | Inr body \<Rightarrow>
               if subcall ''roflmarket.InstanceTopUp'' body \<noteq> 0 then Inl ''InstanceTopUp failed'' else Inr (body, r))"

section \<open>FeeSwapper\<close>

record FeeSwapper =
  fw_owner :: address
  fw_token :: address
  fw_router :: address
  fw_wrappedNative :: address
  fw_APP_ID :: "u8 list"
  fw_reservoir :: address

text \<open>The constructor returns the allowance it grants on the token beside the state.\<close>

definition FeeSwapper_new :: "address \<Rightarrow> address \<Rightarrow> address \<Rightarrow> address \<Rightarrow> u8 list \<Rightarrow> address \<Rightarrow> string + (FeeSwapper \<times> address \<times> u256)" where
  "FeeSwapper_new sender token router weth appId rsv =
     (if \<not> (token \<noteq> 0 \<and> router \<noteq> 0 \<and> rsv \<noteq> 0) then Inl ''zero addr''
      else Inr (\<lparr>fw_owner = sender, fw_token = token, fw_router = router, fw_wrappedNative = weth, fw_APP_ID = appId, fw_reservoir = rsv\<rparr>,
                router, - 1))"

definition setReservoir :: "address \<Rightarrow> address \<Rightarrow> FeeSwapper \<Rightarrow> string + FeeSwapper" where
  "setReservoir sender rsv f =
     (if sender \<noteq> fw_owner f then Inl ''OwnableUnauthorizedAccount''
      else if rsv = 0 then Inl ''zero addr''
      else Inr (f\<lparr>fw_reservoir := rsv\<rparr>))"

definition swap_path :: "FeeSwapper \<Rightarrow> address list" where
  "swap_path f = [fw_token f, fw_wrappedNative f]"

definition quoteRoseOut :: "(u256 \<Rightarrow> address list \<Rightarrow> u256 list option) \<Rightarrow> u256 \<Rightarrow> FeeSwapper \<Rightarrow> u256 option" where
  "quoteRoseOut getAmountsOut mptIn f =
     (case getAmountsOut mptIn (swap_path f) of None \<Rightarrow> None | Some amounts \<Rightarrow> if amounts = [] then None else Some (last amounts))"

text \<open>The router moves the world from one state to the next or reverts; \<open>balance\<close> reads it.\<close>

definition swapFeeToRose :: "(u8 list \<Rightarrow> bool) \<Rightarrow> (u256 \<Rightarrow> u256 \<Rightarrow> address list \<Rightarrow> address \<Rightarrow> u256 \<Rightarrow> 'w \<Rightarrow> 'w option) \<Rightarrow> ('w \<Rightarrow> address \<Rightarrow> u256) \<Rightarrow>
    u256 \<Rightarrow> u256 \<Rightarrow> u256 \<Rightarrow> FeeSwapper \<Rightarrow> 'w \<Rightarrow> string + (u256 \<times> 'w)" where
  "swapFeeToRose origin_ok swap balance mptIn minOut deadline f w =
     (if \<not> origin_ok (fw_APP_ID f) then Inl ''RoflOriginNotAuthorizedForApp''
      else if \<not> mptIn > 0 then Inl ''mptIn=0''
      else let balBefore = balance w (fw_reservoir f)
           in case swap mptIn minOut (swap_path f) (fw_reservoir f) deadline w of
                None \<Rightarrow> Inl ''router''
              | Some w' \<Rightarrow>
                  if balance w' (fw_reservoir f) < balBefore then Inl ''Panic(0x11)''
                  else Inr (balance w' (fw_reservoir f) - balBefore, w'))"

section \<open>PoolEndpointRegistry\<close>

record Registry =
  rg_APP_ID :: "u8 list"
  rg_onion :: string
  rg_tlsFingerprint :: "u8 list"
  rg_updatedAt :: u64

definition Registry_new :: "u8 list \<Rightarrow> Registry" where
  "Registry_new appId = \<lparr>rg_APP_ID = appId, rg_onion = [], rg_tlsFingerprint = replicate 32 0, rg_updatedAt = 0\<rparr>"

definition setEndpoints :: "(u8 list \<Rightarrow> bool) \<Rightarrow> u256 \<Rightarrow> string \<Rightarrow> u8 list \<Rightarrow> Registry \<Rightarrow> string + Registry" where
  "setEndpoints origin_ok timestamp host fp r =
     (if \<not> origin_ok (rg_APP_ID r) then Inl ''RoflOriginNotAuthorizedForApp''
      else Inr (r\<lparr>rg_onion := host, rg_tlsFingerprint := fp, rg_updatedAt := ucast timestamp\<rparr>))"

definition endpoints :: "Registry \<Rightarrow> string \<times> u8 list \<times> u64" where
  "endpoints r = (rg_onion r, rg_tlsFingerprint r, rg_updatedAt r)"

section \<open>Advertising\<close>

text \<open>\<open>parse_addr\<close>, \<open>url_ok\<close> and the ABI of \<open>setEndpoints\<close> are library code; \<open>read\<close> is the reply
  of the node to \<open>endpoints()\<close>, decoded. The result says whether a transaction was submitted.\<close>

datatype adv_error = BadRegistry | BadFingerprint | BadUrl | ReadFailed | SubmitFailed appd_error

definition parse_fingerprint32 :: "hex_dec \<Rightarrow> string \<Rightarrow> u8 list option" where
  "parse_fingerprint32 dec hex_str =
     (case dec (trim_start_0x (str_trim hex_str)) of
        Inl _ \<Rightarrow> None
      | Inr bytes \<Rightarrow> if length bytes = 32 then Some bytes else None)"

definition needs_update :: "string \<times> u8 list \<times> u64 \<Rightarrow> string \<Rightarrow> u8 list \<Rightarrow> bool" where
  "needs_update cur onion fp = (case cur of (cur_onion, f, t) \<Rightarrow> t = 0 \<or> cur_onion \<noteq> onion \<or> f \<noteq> fp)"

definition advertise :: "appd_env \<Rightarrow> (string \<Rightarrow> u8 list option) \<Rightarrow> (string \<Rightarrow> bool) \<Rightarrow> (string \<Rightarrow> u8 list \<Rightarrow> u8 list) \<Rightarrow>
    (string \<times> u8 list \<times> u64) option \<Rightarrow> string \<Rightarrow> string \<Rightarrow> string \<Rightarrow> string \<Rightarrow> adv_error + bool" where
  "advertise d parse_addr url_ok abi read http_url registry_addr onion fp_hex =
     (case parse_addr registry_addr of
        None \<Rightarrow> Inl BadRegistry
      | Some registry \<Rightarrow>
          (case parse_fingerprint32 (a_dec d) fp_hex of
             None \<Rightarrow> Inl BadFingerprint
           | Some fp \<Rightarrow>
               if \<not> url_ok http_url then Inl BadUrl
               else case read of
                      None \<Rightarrow> Inl ReadFailed
                    | Some cur \<Rightarrow>
                        if \<not> needs_update cur onion fp then Inr False
                        else case sign_submit_eth d registry (abi onion fp) 250000 of
                               Inl e \<Rightarrow> Inl (SubmitFailed e)
                             | Inr _ \<Rightarrow> Inr True))"

section \<open>The rent body\<close>

text \<open>A reader of the part of CBOR (RFC 8949) the body uses: integers, byte and text strings and maps
  whose size or value fits the head byte. Fuel bounds the nesting and the number of items.\<close>

fun cbor_read :: "nat \<Rightarrow> u8 list \<Rightarrow> (cbor \<times> u8 list) option"
  and cbor_pairs :: "nat \<Rightarrow> nat \<Rightarrow> u8 list \<Rightarrow> ((cbor \<times> cbor) list \<times> u8 list) option" where
  "cbor_read 0 bs = None"
| "cbor_read (Suc fuel) [] = None"
| "cbor_read (Suc fuel) (b # r) =
     (let major = unat b div 32; n = unat b mod 32
      in if n \<ge> 24 then None
         else if major = 0 then Some (CInt (int n), r)
         else if major = 2 then (if length r < n then None else Some (CBytes (take n r), drop n r))
         else if major = 3 then (if length r < n then None else Some (CText (map (\<lambda>b. char_of (unat b)) (take n r)), drop n r))
         else if major = 5 then map_option (\<lambda>(m, r'). (CMap m, r')) (cbor_pairs fuel n r)
         else None)"
| "cbor_pairs fuel 0 bs = Some ([], bs)"
| "cbor_pairs 0 (Suc n) bs = None"
| "cbor_pairs (Suc fuel) (Suc n) bs =
     (case cbor_read fuel bs of
        None \<Rightarrow> None
      | Some (k, r1) \<Rightarrow>
          (case cbor_read fuel r1 of
             None \<Rightarrow> None
           | Some (v, r2) \<Rightarrow> map_option (\<lambda>(m, r3). ((k, v) # m, r3)) (cbor_pairs fuel n r2)))"

lemma read_bytes:
  assumes "unat b = 32 * 2 + n" "length xs = n" "n < 24"
  shows "cbor_read (Suc fuel) (b # xs @ r) = Some (CBytes xs, r)"
proof -
  have d: "unat b div 32 = 2" "unat b mod 32 = n" using assms(1,3) by presburger+
  show ?thesis using assms(2,3) unfolding cbor_read.simps d Let_def by simp
qed

lemma char_of_byte: "char_of (unat (of_char c :: u8)) = c"
proof -
  have "(of_char c :: u8) = of_nat (of_char c)" by (cases c) (simp add: of_char_def)
  then have "unat (of_char c :: u8) = of_char c mod 256" by (simp only: unat_of_nat) simp
  then show ?thesis by simp
qed

lemma read_text:
  assumes "unat b = 32 * 3 + n" "length s = n" "n < 24"
  shows "cbor_read (Suc fuel) (b # map of_char s @ r) = Some (CText s, r)"
proof -
  have d: "unat b div 32 = 3" "unat b mod 32 = n" using assms(1,3) by presburger+
  show ?thesis using assms(2,3) unfolding cbor_read.simps d Let_def by (simp add: comp_def char_of_byte)
qed

lemma read_uint: "unat b < 24 \<Longrightarrow> cbor_read (Suc fuel) (b # r) = Some (CInt (int (unat b)), r)"
  by (simp add: Let_def)


definition rent_order :: "RentPayer \<Rightarrow> u8 \<Rightarrow> u8 \<Rightarrow> cbor" where
  "rent_order r trm cnt =
     CMap [(CText ''id'', CBytes (rp_instanceId r)), (CText ''term'', CInt (uint trm)),
           (CText ''provider'', CBytes (rp_provider r)), (CText ''term_count'', CInt (uint cnt))]"

lemma rent_body_read:
  assumes "encodeTopUpBody trm cnt r = Inr body" "length (rp_instanceId r) = 8" "length (rp_provider r) = 21"
  shows "cbor_read 6 body = Some (rent_order r trm cnt, [])"
proof -
  have t: "unat trm < 24" and c: "unat cnt < 24"
    using assms(1) by (auto simp: encodeTopUpBody_def word_le_nat_alt word_less_nat_alt split: if_splits)
  have body: "body = 0xa4 # 0x62 # map of_char ''id'' @ 0x48 # rp_instanceId r @ 0x64 # map of_char ''term'' @ trm #
      0x68 # map of_char ''provider'' @ 0x55 # rp_provider r @ 0x6a # map of_char ''term_count'' @ [cnt]"
    using assms(1) by (auto simp: encodeTopUpBody_def split: if_splits)
  have k1: "cbor_read (Suc f) (0x62 # map of_char ''id'' @ x) = Some (CText ''id'', x)" for f x by (rule read_text [where n = 2]) simp_all
  have k2: "cbor_read (Suc f) (0x64 # map of_char ''term'' @ x) = Some (CText ''term'', x)" for f x by (rule read_text [where n = 4]) simp_all
  have k3: "cbor_read (Suc f) (0x68 # map of_char ''provider'' @ x) = Some (CText ''provider'', x)" for f x
    by (rule read_text [where n = 8]) simp_all
  have k4: "cbor_read (Suc f) (0x6a # map of_char ''term_count'' @ x) = Some (CText ''term_count'', x)" for f x
    by (rule read_text [where n = 10]) simp_all
  have v1: "cbor_read (Suc f) (0x48 # rp_instanceId r @ x) = Some (CBytes (rp_instanceId r), x)" for f x
    by (rule read_bytes [where n = 8]) (simp_all add: assms(2))
  have v2: "cbor_read (Suc f) (0x55 # rp_provider r @ x) = Some (CBytes (rp_provider r), x)" for f x
    by (rule read_bytes [where n = 21]) (simp_all add: assms(3))
  have n1: "cbor_read (Suc f) (trm # x) = Some (CInt (uint trm), x)" for f x
    unfolding uint_nat [of trm] by (rule read_uint [OF t])
  have n2: "cbor_read (Suc f) (cnt # x) = Some (CInt (uint cnt), x)" for f x
    unfolding uint_nat [of cnt] by (rule read_uint [OF c])
  have pairs: "cbor_pairs (Suc (Suc (Suc (Suc (Suc 0))))) (Suc (Suc (Suc (Suc 0)))) (tl body) =
      Some ([(CText ''id'', CBytes (rp_instanceId r)), (CText ''term'', CInt (uint trm)),
           (CText ''provider'', CBytes (rp_provider r)), (CText ''term_count'', CInt (uint cnt))], [])"
    unfolding body list.sel by (simp only: cbor_pairs.simps k1 k2 k3 k4 v1 v2 n1 n2 option.case prod.case option.map)
  have head: "cbor_read (Suc f) (0xa4 # x) = map_option (\<lambda>(m, r'). (CMap m, r')) (cbor_pairs f 4 x)" for f x by simp
  have six: "(6 :: nat) = Suc (Suc (Suc (Suc (Suc (Suc 0)))))" and four: "(4 :: nat) = Suc (Suc (Suc (Suc 0)))" by simp_all
  have "cbor_read 6 body = map_option (\<lambda>(m, r'). (CMap m, r')) (cbor_pairs (Suc (Suc (Suc (Suc (Suc 0))))) 4 (tl body))"
    unfolding six body list.sel by (rule head)
  also have "\<dots> = Some (rent_order r trm cnt, [])" unfolding four pairs rent_order_def by (simp only: option.map prod.case)
  finally show ?thesis .
qed


section \<open>Advertising once\<close>

lemma advertise_once:
  assumes "parse_fingerprint32 (a_dec d) fp_hex = Some fp" "ucast timestamp \<noteq> (0 :: u64)"
    and "setEndpoints origin_ok timestamp onion fp r = Inr r'"
    and "parse_addr registry_addr = Some a" "url_ok http_url"
  shows "advertise d parse_addr url_ok abi (Some (endpoints r')) http_url registry_addr onion fp_hex = Inr False"
  using assms by (auto simp: advertise_def setEndpoints_def endpoints_def needs_update_def split: if_splits)

text \<open>What the enclave reads as proceeds is what the reservoir received, and at least \<open>minOut\<close> when the
  router keeps its promise.\<close>

lemma swap_proceeds:
  assumes "swapFeeToRose origin_ok swap bal mptIn minOut deadline f w = Inr (rose, w')"
    and "\<And>v v'. swap mptIn minOut (swap_path f) (fw_reservoir f) deadline v = Some v' \<Longrightarrow>
           uint (bal v' (fw_reservoir f)) \<ge> uint (bal v (fw_reservoir f)) + uint minOut"
  shows "origin_ok (fw_APP_ID f)" and "uint (bal w' (fw_reservoir f)) = uint (bal w (fw_reservoir f)) + uint rose"
    and "rose \<ge> minOut"
proof -
  have c: "origin_ok (fw_APP_ID f)" "swap mptIn minOut (swap_path f) (fw_reservoir f) deadline w = Some w'"
    "bal w (fw_reservoir f) \<le> bal w' (fw_reservoir f)" "rose = bal w' (fw_reservoir f) - bal w (fw_reservoir f)"
    using assms(1) by (auto simp: swapFeeToRose_def Let_def split: if_splits option.splits)
  show "origin_ok (fw_APP_ID f)" by (rule c)
  have e: "uint rose = uint (bal w' (fw_reservoir f)) - uint (bal w (fw_reservoir f))"
    unfolding c(4) using c(3) by (simp add: uint_minus_simple_alt)
  then show "uint (bal w' (fw_reservoir f)) = uint (bal w (fw_reservoir f)) + uint rose" by simp
  show "rose \<ge> minOut" using assms(2) [OF c(2)] e by (simp add: word_le_def)
qed

section \<open>Properties\<close>

text \<open>C38: A rent order reaches the marketplace as the agent planned it: when the agent's target was set
  on the contract and a tick submits a top-up, the contract accepts the arguments, the body it sends
  reads back as CBOR with exactly the configured instance and provider and the planned term and count,
  and the call fails only when the marketplace refuses it.\<close>

theorem rent_order_delivered:
  assumes "targeting d0 cfg = Some tgt"
    and "setInstance origin_ok (t_provider tgt) (t_instance_id tgt) r0 = Inr r"
    and "Topup t trm cnt taken \<in> set (snd (snd (fund_tick d abi tgt cfg flr now st)))"
  shows "\<exists>body. encodeTopUpBody trm cnt r = Inr body \<and>
    cbor_read 6 body =
      Some (CMap [(CText ''id'', CBytes (t_instance_id tgt)), (CText ''term'', CInt (uint trm)),
                  (CText ''provider'', CBytes (t_provider tgt)), (CText ''term_count'', CInt 1)], []) \<and>
    topUp origin_ok subcall trm cnt r =
      (if subcall ''roflmarket.InstanceTopUp'' body = 0 then Inr (body, r) else Inl ''InstanceTopUp failed'')"
proof -
  have len: "length (t_instance_id tgt) = 8" "length (t_provider tgt) = 21"
    using assms(1) by (auto simp: targeting_def parse_hex_n_def split: option.splits sum.splits if_splits)
  have r: "rp_provider r = t_provider tgt" "rp_instanceId r = t_instance_id tgt" "origin_ok (rp_APP_ID r)"
    using assms(2) by (auto simp: setInstance_def split: if_splits)
  have "cnt = 1 \<and> trm \<in> {1, 2, 3}"
  proof (cases rule: fund_tick_cases [of d abi tgt cfg flr now st])
    case (asked e inst trm' cnt')
    then show ?thesis using assms(3) choose_terms_range [OF asked(3)] by simp
  next
    case (taken inst trm' cnt')
    then show ?thesis using assms(3) choose_terms_range [OF taken(3)] by simp
  qed (use assms(3) in simp)
  then have c: "cnt = 1" and "trm \<ge> 1 \<and> trm \<le> 3" by auto
  then obtain body where b: "encodeTopUpBody trm cnt r = Inr body" by (simp add: encodeTopUpBody_def)
  show ?thesis
    using rent_body_read [OF b] r len b unfolding c
    by (intro exI [of _ body]) (simp add: rent_order_def topUp_def del: cbor_read.simps)
qed

theorem rent_order_delivered_witness:
  "\<exists>body. encodeTopUpBody 1 1 \<lparr>rp_APP_ID = [], rp_provider = replicate 21 0, rp_instanceId = replicate 8 0\<rparr> = Inr body \<and>
     cbor_read 6 body = Some (CMap [(CText ''id'', CBytes (replicate 8 0)), (CText ''term'', CInt 1),
                                    (CText ''provider'', CBytes (replicate 21 0)), (CText ''term_count'', CInt 1)], [])"
proof -
  have t: "targeting demo_daemon demo_fund_config = Some demo_target"
    by code_simp
  have s: "setInstance (\<lambda>_. True) (t_provider demo_target) (t_instance_id demo_target)
      \<lparr>rp_APP_ID = [], rp_provider = [], rp_instanceId = []\<rparr> =
      Inr \<lparr>rp_APP_ID = [], rp_provider = replicate 21 0, rp_instanceId = replicate 8 0\<rparr>"
    by (simp add: setInstance_def demo_target_def)
  have "Topup 10000 1 1 True \<in> set (snd (snd (fund_tick demo_daemon demo_abi demo_target demo_fund_config 50 10000
      \<lparr>fs_last_topup = 0, fs_forced_done = False\<rparr>)))" by (simp add: demo_tick)
  from rent_order_delivered [OF t s this] show ?thesis unfolding demo_target_def by auto
qed

end
