(* ===== verification/Vardiff.thy ===== *)
theory Vardiff
  imports Float64
begin

text \<open>
  \<open>stratum-proxy/src/vardiff.rs\<close>: the per-connection difficulty controller, with
  \<open>VardiffConfig\<close> of \<open>pool-core/src/config.rs\<close>. Instants are nanoseconds and a
  call of \<open>Instant::now\<close> is an argument. \<open>u64::clamp\<close> panics when its bounds
  cross, so \<open>retarget\<close> returns an \<open>exec\<close>.
\<close>

section \<open>Data\<close>

record VardiffConfig =
  cfg_sample_size :: u32
  variance_percent :: f64
  cfg_max_gain_factor :: f64
  cfg_max_drop_factor :: f64

definition VardiffConfig_default :: VardiffConfig where
  "VardiffConfig_default = \<lparr>cfg_sample_size = 16, variance_percent = Fin 30,
     cfg_max_gain_factor = Fin 2, cfg_max_drop_factor = f64_round (7 / 10)\<rparr>"

record Vardiff =
  vd_current :: u64
  vd_min :: u64
  vd_max :: u64
  upstream_cap :: u64
  target_secs :: f64
  last_submit :: "nat option"
  intervals :: "f64 list"
  sample_size :: nat
  variance :: f64
  max_gain_factor :: f64
  max_drop_factor :: f64

section \<open>Operations\<close>



definition Vardiff_new :: "u64 \<Rightarrow> u64 \<Rightarrow> u64 \<Rightarrow> u32 \<Rightarrow> VardiffConfig \<Rightarrow> nat \<Rightarrow> Vardiff" where
  "Vardiff_new mn initial mx target cfg now =
     \<lparr>vd_current = max initial mn, vd_min = mn, vd_max = mx, upstream_cap = u64_MAX,
      target_secs = f64_of_word target, last_submit = Some now, intervals = [],
      sample_size = unat (max (cfg_sample_size cfg) 1),
      variance = fclamp (Fin 0) (f64_round (95 / 100)) (fdiv (variance_percent cfg) (Fin 100)),
      max_gain_factor = cfg_max_gain_factor cfg, max_drop_factor = cfg_max_drop_factor cfg\<rparr>"

definition effective_max :: "Vardiff \<Rightarrow> u64" where
  "effective_max v = max (min (vd_max v) (upstream_cap v)) (vd_min v)"

definition set_upstream_cap :: "u64 \<Rightarrow> Vardiff \<Rightarrow> Vardiff" where
  "set_upstream_cap d v =
     (let v1 = v\<lparr>upstream_cap := d\<rparr>;
          ceil = effective_max v1
      in if vd_current v1 > ceil then v1\<lparr>vd_current := ceil, intervals := []\<rparr> else v1)"

text \<open>\<open>Duration::as_secs_f64\<close>, on a duration in nanoseconds.\<close>

definition as_secs_f64 :: "nat \<Rightarrow> f64" where
  "as_secs_f64 ns =
     fadd (f64_of_int (int ns div 1000000000))
          (fdiv (f64_of_int (int ns mod 1000000000)) (Fin 1000000000))"

definition push_interval :: "f64 \<Rightarrow> Vardiff \<Rightarrow> Vardiff" where
  "push_interval dt v =
     v\<lparr>intervals := pop_front_over (sample_size v)
         (intervals v @ [fmax dt (f64_round (1 / 1000))])\<rparr>"

definition on_share :: "nat \<Rightarrow> Vardiff \<Rightarrow> Vardiff" where
  "on_share now v =
     (let v1 = (case last_submit v of
                  None \<Rightarrow> v
                | Some prev \<Rightarrow> push_interval (as_secs_f64 (now - prev)) v)
      in v1\<lparr>last_submit := Some now\<rparr>)"

definition window_avg :: "f64 option \<Rightarrow> Vardiff \<Rightarrow> f64 option" where
  "window_avg extra v =
     (if intervals v = [] \<and> extra = None then None
      else let s = foldl fadd (Fin 0) (intervals v);
               n = length (intervals v)
           in case extra of
                None \<Rightarrow> Some (fdiv s (f64_of_int (int n)))
              | Some e \<Rightarrow> Some (fdiv (fadd s e) (f64_of_int (int (n + 1)))))"

definition u64_clamp :: "u64 \<Rightarrow> u64 \<Rightarrow> u64 \<Rightarrow> u64 exec" where
  "u64_clamp lo hi x = (if lo \<le> hi then Returns (max lo (min hi x)) else Panics)"

definition t_min :: "Vardiff \<Rightarrow> f64" where
  "t_min v = fmul (target_secs v) (fsub (Fin 1) (variance v))"

definition t_max :: "Vardiff \<Rightarrow> f64" where
  "t_max v = fmul (target_secs v) (fadd (Fin 1) (variance v))"

definition retarget_lo :: "Vardiff \<Rightarrow> u64" where
  "retarget_lo v = f64_to_word (fround (fmul (f64_of_word (vd_current v)) (max_drop_factor v)))"

definition retarget_hi :: "Vardiff \<Rightarrow> u64" where
  "retarget_hi v = f64_to_word (fround (fmul (f64_of_word (vd_current v)) (max_gain_factor v)))"

definition retarget_raw :: "f64 \<Rightarrow> Vardiff \<Rightarrow> u64" where
  "retarget_raw avg v =
     f64_to_word (fround (fmul (fdiv (target_secs v) avg) (f64_of_word (vd_current v))))"

definition cap_current :: "Vardiff \<Rightarrow> Vardiff" where
  "cap_current v =
     (if vd_current v > effective_max v then v\<lparr>vd_current := effective_max v\<rparr> else v)"

definition retarget_avg :: "f64 \<Rightarrow> Vardiff \<Rightarrow> f64 option" where
  "retarget_avg gap v =
     (if flt (t_max v) gap then
        (case window_avg (Some gap) v of None \<Rightarrow> Some gap | Some a \<Rightarrow> Some a)
      else if length (intervals v) < sample_size v then None
      else window_avg None v)"

definition apply_new :: "bool \<Rightarrow> nat \<Rightarrow> u64 \<Rightarrow> Vardiff \<Rightarrow> Vardiff" where
  "apply_new idle now new v =
     (if new \<noteq> vd_current v
      then (let v1 = v\<lparr>vd_current := new, intervals := []\<rparr>
            in if idle then v1\<lparr>last_submit := Some now\<rparr> else v1)
      else v)"

definition retarget_with_gap :: "f64 \<Rightarrow> nat \<Rightarrow> Vardiff \<Rightarrow> (Vardiff \<times> u64) exec" where
  "retarget_with_gap gap now v0 =
     (let v = cap_current v0;
          idle = flt (t_max v) gap
      in case retarget_avg gap v of
           None \<Rightarrow> Returns (v, vd_current v)
         | Some avg \<Rightarrow>
             if fle (t_min v) avg \<and> fle avg (t_max v) then Returns (v, vd_current v)
             else
               exec_bind (u64_clamp (retarget_lo v) (retarget_hi v) (retarget_raw avg v)) (\<lambda>c.
               exec_bind (u64_clamp (vd_min v) (effective_max v) c) (\<lambda>new.
               let v1 = apply_new idle now new v in Returns (v1, vd_current v1))))"

text \<open>\<open>now\<close> is the clock when the gap is measured, \<open>now'\<close> when the controller
  notes an idle change.\<close>

definition retarget :: "nat \<Rightarrow> nat \<Rightarrow> Vardiff \<Rightarrow> (Vardiff \<times> u64) exec" where
  "retarget now now' v =
     retarget_with_gap (case last_submit v of None \<Rightarrow> Fin 0 | Some p \<Rightarrow> as_secs_f64 (now - p)) now' v"

section \<open>Invariant\<close>

definition vardiff_ok :: "Vardiff \<Rightarrow> bool" where
  "vardiff_ok v \<longleftrightarrow> vd_min v \<le> vd_current v \<and> 1 \<le> sample_size v \<and> length (intervals v) \<le> sample_size v"

lemma effective_max_ge_min [simp]: "vd_min v \<le> effective_max v"
  by (simp add: effective_max_def)

lemma effective_max_upd [simp]:
  "effective_max (v\<lparr>vd_current := c\<rparr>) = effective_max v"
  "effective_max (v\<lparr>intervals := i\<rparr>) = effective_max v"
  "effective_max (v\<lparr>last_submit := l\<rparr>) = effective_max v"
  by (simp_all add: effective_max_def)

lemma Vardiff_new_ok: "vardiff_ok (Vardiff_new mn initial mx target cfg now)"
proof -
  have "1 \<le> max (cfg_sample_size cfg) 1" by simp
  then have "1 \<le> unat (max (cfg_sample_size cfg) 1)" by (simp only: word_le_nat_alt unat_1)
  then show ?thesis by (simp add: vardiff_ok_def Vardiff_new_def)
qed

lemma set_upstream_cap_ok:
  assumes "vardiff_ok v"
  shows "vardiff_ok (set_upstream_cap d v)"
    and "vd_current (set_upstream_cap d v) \<le> effective_max (set_upstream_cap d v)"
    and "vd_current (set_upstream_cap d v) \<noteq> vd_current v \<Longrightarrow> intervals (set_upstream_cap d v) = []"
proof -
  have "set_upstream_cap d v =
      (if vd_current v > effective_max (v\<lparr>upstream_cap := d\<rparr>)
       then v\<lparr>upstream_cap := d, vd_current := effective_max (v\<lparr>upstream_cap := d\<rparr>), intervals := []\<rparr>
       else v\<lparr>upstream_cap := d\<rparr>)" by (simp add: set_upstream_cap_def Let_def)
  moreover have "vd_min v \<le> effective_max (v\<lparr>upstream_cap := d\<rparr>)"
    using effective_max_ge_min [of "v\<lparr>upstream_cap := d\<rparr>"] by simp
  ultimately show "vardiff_ok (set_upstream_cap d v)"
    and "vd_current (set_upstream_cap d v) \<le> effective_max (set_upstream_cap d v)"
    and "vd_current (set_upstream_cap d v) \<noteq> vd_current v \<Longrightarrow> intervals (set_upstream_cap d v) = []"
    using assms by (simp_all add: vardiff_ok_def split: if_splits)
qed

lemma on_share_ok: "vardiff_ok v \<Longrightarrow> vardiff_ok (on_share now v)"
  by (simp add: vardiff_ok_def on_share_def push_interval_def Let_def split: option.split)

lemma cap_current_simps [simp]:
  "vd_min (cap_current v) = vd_min v" "effective_max (cap_current v) = effective_max v"
  "intervals (cap_current v) = intervals v" "sample_size (cap_current v) = sample_size v"
  "vd_current (cap_current v) = min (vd_current v) (effective_max v)"
  "target_secs (cap_current v) = target_secs v" "variance (cap_current v) = variance v"
  by (auto simp: cap_current_def min_def not_less)

lemma u64_clamp_Returns: "u64_clamp lo hi x = Returns y \<longleftrightarrow> lo \<le> hi \<and> y = max lo (min hi x)"
  by (auto simp: u64_clamp_def)

lemma apply_new_simps [simp]:
  "vd_current (apply_new idle now new v) = new" "vd_min (apply_new idle now new v) = vd_min v"
  "effective_max (apply_new idle now new v) = effective_max v"
  "sample_size (apply_new idle now new v) = sample_size v"
  "intervals (apply_new idle now new v) = (if new = vd_current v then intervals v else [])"
  by (auto simp: apply_new_def Let_def)

lemma retarget_cases:
  assumes "retarget_with_gap gap now v0 = Returns (v', d)"
  obtains (keep) "v' = cap_current v0" "d = vd_current v'"
  | (change) avg new where "retarget_avg gap (cap_current v0) = Some avg"
      "\<not> (fle (t_min (cap_current v0)) avg \<and> fle avg (t_max (cap_current v0)))"
      "retarget_lo (cap_current v0) \<le> retarget_hi (cap_current v0)"
      "new = max (vd_min v0) (min (effective_max v0)
         (max (retarget_lo (cap_current v0))
            (min (retarget_hi (cap_current v0)) (retarget_raw avg (cap_current v0)))))"
      "v' = apply_new (flt (t_max (cap_current v0)) gap) now new (cap_current v0)" "d = new"
proof (cases "retarget_avg gap (cap_current v0)")
  case None
  then have "v' = cap_current v0 \<and> d = vd_current v'"
    using assms by (auto simp: retarget_with_gap_def Let_def simp del: cap_current_simps)
  then show ?thesis using keep by blast
next
  case (Some avg)
  let ?v = "cap_current v0"
  show ?thesis
  proof (cases "fle (t_min ?v) avg \<and> fle avg (t_max ?v)")
    case True
    then have "v' = cap_current v0 \<and> d = vd_current v'"
      using assms Some by (auto simp: retarget_with_gap_def Let_def simp del: cap_current_simps)
    then show ?thesis using keep by blast
  next
    case False
    define c where "c = max (retarget_lo ?v) (min (retarget_hi ?v) (retarget_raw avg ?v))"
    define new where "new = max (vd_min ?v) (min (effective_max ?v) c)"
    have "retarget_lo ?v \<le> retarget_hi ?v
        \<and> v' = apply_new (flt (t_max ?v) gap) now new ?v \<and> d = new"
      using assms Some False unfolding retarget_with_gap_def Let_def
      by (auto simp: u64_clamp_def c_def new_def simp del: cap_current_simps split: if_splits)
    then show ?thesis using change [OF Some False, of new] by (simp add: new_def c_def)
  qed
qed

lemma retarget_ok:
  assumes "vardiff_ok v" "retarget_with_gap gap now v = Returns (v', d)"
  shows "vardiff_ok v'" "d = vd_current v'" "d \<le> effective_max v'"
    "vd_min v' = vd_min v" "effective_max v' = effective_max v"
    "vd_current v \<le> effective_max v \<Longrightarrow> d \<noteq> vd_current v \<Longrightarrow> intervals v' = []"
proof -
  have bound: "vd_min v \<le> max (vd_min v) (min (effective_max v) c)"
    "max (vd_min v) (min (effective_max v) c) \<le> effective_max v" for c by simp_all
  from assms(2) have "vardiff_ok v' \<and> d = vd_current v' \<and> d \<le> effective_max v'
    \<and> vd_min v' = vd_min v \<and> effective_max v' = effective_max v
    \<and> (vd_current v \<le> effective_max v \<longrightarrow> d \<noteq> vd_current v \<longrightarrow> intervals v' = [])"
  proof (cases rule: retarget_cases)
    case keep
    then show ?thesis using assms(1) by (auto simp: vardiff_ok_def min_def)
  next
    case (change avg new)
    then have "vd_min v \<le> new" "new \<le> effective_max v" using bound by blast+
    then show ?thesis using assms(1) change(5,6) by (auto simp: vardiff_ok_def)
  qed
  then show "vardiff_ok v'" "d = vd_current v'" "d \<le> effective_max v'"
    "vd_min v' = vd_min v" "effective_max v' = effective_max v"
    "vd_current v \<le> effective_max v \<Longrightarrow> d \<noteq> vd_current v \<Longrightarrow> intervals v' = []" by blast+
qed

section \<open>Properties\<close>

text \<open>The settings under which the per-change bounds of \<open>retarget\<close> do not cross.\<close>

definition factors_ok :: "Vardiff \<Rightarrow> bool" where
  "factors_ok v \<longleftrightarrow> fle (max_drop_factor v) (max_gain_factor v)"

lemma half_floor: "\<lfloor>1 / 2 :: rat\<rfloor> = 0"
  by (simp add: floor_eq_iff)

lemma retarget_bounds_ordered:
  assumes "factors_ok v" shows "retarget_lo v \<le> retarget_hi v"
proof -
  obtain x where x: "f64_of_word (vd_current v) = Fin x" "0 \<le> x"
    using f64_of_word_Fin [of "vd_current v"] rnd_word_rat_nonneg [of "vd_current v"] by auto
  show ?thesis
  proof (cases "x = 0")
    case True
    then have "retarget_lo v = 0" unfolding retarget_lo_def x(1)
      by (cases "max_drop_factor v")
        (auto simp: finf_def fsgn_def f64_to_word_def f64_round_id repr_zero f64_of_int_def
          round_half_away_def half_floor)
    then show ?thesis by simp
  next
    case False
    with x(2) have "0 < x" by simp
    then show ?thesis using assms unfolding retarget_lo_def retarget_hi_def factors_ok_def x(1)
      by (intro f64_to_word_mono fround_mono fmul_mono)
  qed
qed

lemma factors_ok_cap [simp]: "factors_ok (cap_current v) = factors_ok v"
  by (simp add: factors_ok_def cap_current_def)

lemma retarget_returns:
  assumes "factors_ok v" shows "\<exists>v' d. retarget_with_gap gap now v = Returns (v', d)"
  using retarget_bounds_ordered [of "cap_current v"] assms
  by (auto simp: retarget_with_gap_def Let_def u64_clamp_def split: option.split)

lemma clamp_clamp:
  fixes c :: u64
  assumes "lo \<le> c" "c \<le> hi" "mn \<le> mx" "d = max mn (min mx c)"
  shows "(lo \<le> d \<or> d = mx) \<and> (d \<le> hi \<or> d = mn)"
proof (cases "mx \<le> c")
  case True
  then have "d = mx" using assms by (simp add: min_absorb1 max_absorb2)
  with order_trans [OF True assms(2)] show ?thesis by simp
next
  case False
  then have d: "d = max mn c" using assms(4) by (simp add: min_absorb2)
  show ?thesis
  proof (cases "c \<le> mn")
    case True
    then have "d = mn" using d by (simp add: max_absorb1)
    with order_trans [OF assms(1) True] show ?thesis by simp
  next
    case False
    then have "d = c" using d by (simp add: max_absorb2)
    with assms show ?thesis by simp
  qed
qed

text \<open>C11: whatever gap and window it sees, \<open>retarget\<close> with ordered change factors
  does not panic; the difficulty it returns and keeps lies between the configured floor and the
  effective maximum (the configured maximum capped by the upstream job, but
  never under the floor), moves by at most the change factors inside that range, and
  a change of difficulty empties the window, so no average mixes difficulties.\<close>

theorem retarget_within_bounds:
  assumes "vardiff_ok v" and "factors_ok v" and "vd_current v \<le> effective_max v"
  shows "\<exists>v' d. retarget now now' v = Returns (v', d) \<and> d = vd_current v' \<and> vardiff_ok v'
    \<and> vd_min v \<le> d \<and> d \<le> effective_max v
    \<and> (d \<noteq> vd_current v \<longrightarrow> intervals v' = []
         \<and> (retarget_lo v \<le> d \<or> d = effective_max v) \<and> (d \<le> retarget_hi v \<or> d = vd_min v))"
proof -
  obtain v' d where r: "retarget now now' v = Returns (v', d)"
    unfolding retarget_def using retarget_returns [OF assms(2)] by blast
  note ok = retarget_ok [OF assms(1) r [unfolded retarget_def]]
  have cap: "cap_current v = v" using assms(3) by (simp add: cap_current_def not_less [symmetric])
  have "d = vd_current v \<or> ((retarget_lo v \<le> d \<or> d = effective_max v) \<and> (d \<le> retarget_hi v \<or> d = vd_min v))"
    using r [unfolded retarget_def]
  proof (cases rule: retarget_cases)
    case (change avg new)
    have "retarget_lo v \<le> retarget_hi v" using change(3) by (simp only: cap)
    then have "(retarget_lo v \<le> new \<or> new = effective_max v) \<and> (new \<le> retarget_hi v \<or> new = vd_min v)"
      using change(4) by (intro clamp_clamp [of _ "max (retarget_lo v) (min (retarget_hi v) (retarget_raw avg v))"])
        (simp_all add: cap)
    with change(6) show ?thesis by blast
  qed (simp add: cap)
  with r ok assms show ?thesis by (auto simp: vardiff_ok_def)
qed

definition demo_vardiff :: Vardiff where
  "demo_vardiff = (Vardiff_new 1000 50000 10000000 20 (VardiffConfig_default\<lparr>cfg_sample_size := 1\<rparr>) 0)
     \<lparr>intervals := [Fin 5]\<rparr>"

theorem retarget_within_bounds_witness:
  "\<exists>v'. retarget 0 0 demo_vardiff = Returns (v', 100000)
     \<and> 1000 \<le> (100000 :: u64) \<and> intervals v' = []"
proof -
  have v: "vardiff_ok demo_vardiff" "factors_ok demo_vardiff"
    "vd_current demo_vardiff \<le> effective_max demo_vardiff"
    unfolding vardiff_ok_def factors_ok_def by code_simp+
  obtain v' d where r: "retarget 0 0 demo_vardiff = Returns (v', d)"
    "d \<noteq> vd_current demo_vardiff \<longrightarrow> intervals v' = []"
    using retarget_within_bounds [OF v, of 0 0] by blast
  have "(case retarget 0 0 demo_vardiff of Returns (_, d) \<Rightarrow> d = 100000 | Panics \<Rightarrow> False)"
    by code_simp
  moreover have "vd_current demo_vardiff = 50000" by code_simp
  ultimately show ?thesis using r by auto
qed

section \<open>Idle miners\<close>

lemma t_max_ge_target:
  assumes "target_secs v = Fin t" "0 \<le> t" "f64_ok (Fin t)" "variance v = Fin w" "0 \<le> w"
    "flt (t_max v) (Fin g)"
  shows "t < g"
proof -
  have "fle (Fin 1) (fadd (Fin 1) (Fin w))"
    using f64_round_mono [of 1 "1 + w"] assms(5) by (simp add: f64_round_Fin b64.rd_fixed repr_one)
  then have "fle (Fin t) (t_max v)"
  proof (cases "fadd (Fin 1) (Fin w)")
    case (Fin y)
    with \<open>fle (Fin 1) (fadd (Fin 1) (Fin w))\<close> have "1 \<le> y" by simp
    then have "t \<le> t * y" using assms(2) by (simp add: mult_le_cancel_left1)
    then show ?thesis using f64_round_ge [OF assms(3)] Fin by (simp add: t_max_def assms)
  next
    case PInf
    then show ?thesis using assms by (cases "t = 0") (simp_all add: t_max_def finf_def fsgn_def)
  qed simp_all
  then show ?thesis using assms(6) by (cases "t_max v") auto
qed

lemma f64_to_word_of_int:
  assumes "0 \<le> n" "n < 2 ^ LENGTH('a::len)"
  shows "f64_to_word (Fin (of_int n)) = (word_of_int n :: 'a word)"
proof -
  have "\<not> 2 ^ LENGTH('a) \<le> (of_int n :: rat)"
    using assms(2) by (metis not_le of_int_less_iff of_int_numeral of_int_power)
  then show ?thesis using assms(1) by (auto simp: f64_to_word_def)
qed

lemma u64_f64_exact:
  assumes "uint (c :: u64) \<le> 2 ^ 53"
  shows "f64_of_word c = Fin (of_int (uint c))" "f64_ok (Fin (of_int (uint c)))"
    "f64_to_word (fround (Fin (of_int (uint c)))) = c"
proof -
  have b: "\<bar>uint c\<bar> \<le> 2 ^ 53" using assms by (simp add: uint_ge_0)
  show e: "f64_of_word c = Fin (of_int (uint c))"
    unfolding f64_of_word_def by (rule f64_of_int_exact [OF b])
  then show "f64_ok (Fin (of_int (uint c)))" by (metis f64_of_word_def f64_ok_ops(1))
  have "0 \<le> (of_int (uint c) :: rat)" unfolding of_int_0_le_iff by simp
  moreover have "\<lfloor>of_int (uint c) + 1 / 2 :: rat\<rfloor> = uint c" by (rule floor_unique) simp_all
  ultimately have "round_half_away (of_int (uint c)) = uint c" by (simp only: round_half_away_def if_True)
  then have f: "fround (Fin (of_int (uint c))) = Fin (of_int (uint c))"
    by (simp only: fround.simps f64_of_int_exact [OF b])
  have "uint c < 2 ^ 64" using uint_lt2p [of c] by simp
  then have "f64_to_word (Fin (of_int (uint c))) = (word_of_int (uint c) :: u64)"
    by (intro f64_to_word_of_int) simp_all
  then show "f64_to_word (fround (Fin (of_int (uint c)))) = c"
    unfolding f by (simp only: word_of_int_uint)
qed

lemma retarget_lo_le:
  assumes "uint (vd_current v) \<le> 2 ^ 53" "max_drop_factor v = Fin m" "m \<le> 1"
  shows "retarget_lo v \<le> vd_current v"
proof -
  let ?c = "of_int (uint (vd_current v)) :: rat"
  have "0 \<le> ?c" unfolding of_int_0_le_iff by simp
  then have "?c * m \<le> ?c" using assms(3) by (simp add: mult_left_le)
  then have "fle (fmul (f64_of_word (vd_current v)) (max_drop_factor v)) (Fin ?c)"
    using f64_round_le [OF u64_f64_exact(2) [OF assms(1)]] by (simp add: u64_f64_exact(1) [OF assms(1)] assms)
  from f64_to_word_mono [OF fround_mono [OF this], where 'a = 64] show ?thesis
    unfolding retarget_lo_def u64_f64_exact(3) [OF assms(1)] .
qed

lemma retarget_raw_le:
  assumes "uint (vd_current v) \<le> 2 ^ 53" "target_secs v = Fin t" "0 \<le> t" "t \<le> g" "0 < g"
  shows "retarget_raw (Fin g) v \<le> vd_current v"
proof -
  let ?c = "of_int (uint (vd_current v)) :: rat"
  have c: "0 \<le> ?c" unfolding of_int_0_le_iff by simp
  have "0 \<le> t / g" "t / g \<le> 1" using assms by simp_all
  then have q: "0 \<le> rnd (t / g)" "rnd (t / g) \<le> 1" "\<bar>t / g\<bar> \<le> 2 ^ 1000"
    using one_le_power [of "2 :: rat" 1000] by (auto intro: b64.rd_nonneg b64.rd_le [OF repr_one])
  have "fdiv (target_secs v) (Fin g) = Fin (rnd (t / g))"
    using assms f64_round_Fin [OF q(3)] by simp
  moreover have "rnd (t / g) * ?c \<le> ?c" using q c by (simp add: mult_left_le_one_le)
  ultimately have "fle (fmul (fdiv (target_secs v) (Fin g)) (f64_of_word (vd_current v))) (Fin ?c)"
    using f64_round_le [OF u64_f64_exact(2) [OF assms(1)]] by (simp add: u64_f64_exact(1) [OF assms(1)])
  from f64_to_word_mono [OF fround_mono [OF this], where 'a = 64] show ?thesis
    unfolding retarget_raw_def u64_f64_exact(3) [OF assms(1)] .
qed

text \<open>C12: a connection without a share at the current difficulty whose gap
  exceeds the dead-band is never given a higher difficulty, for difficulties up
  to \<open>2^53\<close>: idle decay only goes down.\<close>

theorem idle_never_raises:
  assumes "vardiff_ok v" and "intervals v = []" and "vd_current v \<le> effective_max v"
    and "uint (vd_current v) \<le> 2 ^ 53"
    and "target_secs v = Fin t" and "0 \<le> t" and "f64_ok (Fin t)"
    and "variance v = Fin w" and "0 \<le> w" and "max_drop_factor v = Fin m" and "m \<le> 1"
    and "flt (t_max v) (Fin g)" and "f64_ok (Fin g)"
    and "retarget_with_gap (Fin g) now v = Returns (v', d)"
  shows "d \<le> vd_current v"
proof -
  have tg: "t < g" by (rule t_max_ge_target [OF assms(5-9,12)])
  have cap: "cap_current v = v" using assms(3) by (simp add: cap_current_def not_less [symmetric])
  have one: "f64_of_int 1 = Fin 1" using f64_of_int_exact [of 1] by simp
  have avg: "retarget_avg (Fin g) v = Some (Fin g)"
    using assms(2,12) f64_round_ok [OF assms(13)] by (simp add: retarget_avg_def window_avg_def one)
  from assms(14) show ?thesis
  proof (cases rule: retarget_cases)
    case keep
    then show ?thesis by (simp add: cap)
  next
    case (change avg' new)
    then have "avg' = Fin g" using avg by (simp add: cap)
    then have "max (retarget_lo v) (min (retarget_hi v) (retarget_raw avg' v)) \<le> vd_current v"
      using retarget_lo_le [OF assms(4,10,11)] retarget_raw_le [OF assms(4,5,6), of g] tg assms(6)
      by (auto simp: min_le_iff_disj)
    then show ?thesis using change(4,6) assms(1) by (auto simp: cap vardiff_ok_def min_le_iff_disj)
  qed
qed

definition idle_vardiff :: Vardiff where
  "idle_vardiff = Vardiff_new 1000 50000 10000000 20 VardiffConfig_default 0"

lemma f64_ok_small_int: "\<bar>n\<bar> \<le> 2 ^ 53 \<Longrightarrow> f64_ok (Fin (of_int n))"
  using f64_ok_ops(1) [of n] by (simp only: f64_of_int_exact)

theorem idle_never_raises_witness:
  "\<exists>v' d. retarget_with_gap (Fin 600) 7 idle_vardiff = Returns (v', d) \<and> d \<le> 50000 \<and> d = 35000"
proof -
  have h: "vardiff_ok idle_vardiff" "intervals idle_vardiff = []"
    "vd_current idle_vardiff \<le> effective_max idle_vardiff" "uint (vd_current idle_vardiff) \<le> 2 ^ 53"
    unfolding vardiff_ok_def by code_simp+
  have f: "target_secs idle_vardiff = Fin 20"
    "variance idle_vardiff = Fin (5404319552844595 / 18014398509481984)"
    "max_drop_factor idle_vardiff = Fin (3152519739159347 / 4503599627370496)"
    "flt (t_max idle_vardiff) (Fin 600)" by code_simp+
  have ok: "f64_ok (Fin 20)" "f64_ok (Fin 600)"
    using f64_ok_small_int [of 20] f64_ok_small_int [of 600] by simp_all
  have fo: "factors_ok idle_vardiff" unfolding factors_ok_def by code_simp
  obtain v' d where r: "retarget_with_gap (Fin 600) 7 idle_vardiff = Returns (v', d)"
    using retarget_returns [OF fo] by blast
  have "(case retarget_with_gap (Fin 600) 7 idle_vardiff of Returns (_, d) \<Rightarrow> d = 35000 | Panics \<Rightarrow> False)"
    by code_simp
  then have "d = 35000" using r by simp
  moreover have "d \<le> vd_current idle_vardiff"
    using idle_never_raises [OF h(1-4) f(1) _ ok(1) f(2) _ f(3) _ f(4) ok(2) r] by simp
  moreover have "vd_current idle_vardiff = 50000" by code_simp
  ultimately show ?thesis using r by auto
qed

text \<open>With recent fast shares in the window the gap does not outweigh them: the
  idle branch then raises the difficulty, before the window is full.\<close>

lemma idle_may_raise:
  "(case retarget_with_gap (Fin 27) 7 (idle_vardiff\<lparr>intervals := [Fin 1, Fin 1, Fin 1]\<rparr>) of
      Returns (_, d) \<Rightarrow> d = 100000 | Panics \<Rightarrow> False)"
  by code_simp

end
