(* ===== verification/Session.thy ===== *)
theory Session
  imports Share Vardiff Json
begin

text \<open>
  \<open>stratum-proxy/src/protocol.rs\<close> and \<open>stratum-proxy/src/session.rs\<close>: one miner
  connection. A session is a record (what \<open>handle_one\<close> keeps in its locals), the
  shared services are a record \<open>world\<close> (job store, verifier, what was credited,
  forwarded and written), and one iteration of the connection's loop is the
  function \<open>session_step\<close> on an event. JSON decoding, address parsing, hex and the
  verifier's hash are arguments (\<open>libs\<close>); the clock, the random draw and the
  outcome of each I/O operation are the record \<open>step_env\<close>.
\<close>

section \<open>Messages\<close>

record Request =
  req_id :: json
  req_jsonrpc :: "string option"
  req_method :: string
  req_params :: json

record ErrorObj =
  err_code :: int
  err_message :: string

record Response =
  resp_id :: json
  resp_jsonrpc :: "string option"
  resp_result :: "json option"
  resp_error :: "ErrorObj option"

record LoginParams =
  login :: string
  pass :: "string option"
  agent :: "string option"
  rigid :: "string option"

record SubmitParams =
  sp_id :: string
  sp_job_id :: string
  sp_nonce :: string
  sp_result :: string

datatype message = Reply Response | Notify json

record UpstreamSubmit =
  us_job_id :: string
  us_nonce_hex :: string
  us_result_hex :: string

section \<open>State\<close>

record StratumConfig =
  bind_addr :: string
  tls_cert :: "string option"
  tls_key :: "string option"
  min_share_difficulty :: u64
  target_seconds_per_share :: u32
  max_submits_per_second :: u32
  verification_warmup :: u32
  verification_sample_rate :: f64
  share_grace_secs :: u32
  idle_timeout_secs :: u32
  cfg_vardiff :: VardiffConfig

record ('addr, 's) libs =
  lib_enc :: hex_enc
  lib_dec :: hex_dec
  lib_hash :: "'s hasher"
  parse_request :: "string \<Rightarrow> Request option"
  parse_login :: "json \<Rightarrow> LoginParams option"
  parse_submit :: "json \<Rightarrow> SubmitParams option"
  parse_address :: "string \<Rightarrow> 'addr option"

record step_env =
  t_gap :: nat
  t_idle :: nat
  t_record :: nat
  t_share :: nat
  utc_now :: int
  gen_bool :: "f64 \<Rightarrow> bool exec"
  join_ok :: bool
  credit_ok :: bool
  write_ok :: bool

text \<open>\<open>w_credits\<close> pairs each credited share with the nonce it was submitted under.\<close>

record ('addr, 's) world =
  w_jobs :: JobStore
  w_verifier :: 's
  w_credits :: "(string \<times> 'addr ShareAccepted) list"
  w_forwarded :: "UpstreamSubmit list"
  w_out :: "message list"
  w_open :: int
  worker_seq :: u8

record 'addr Session =
  se_miner :: "'addr option"
  se_vardiff :: Vardiff
  se_advertised :: "(string \<times> u64) list"
  se_verified_count :: u32
  se_worker_byte :: u8
  se_session_id :: string
  se_guard :: bool

datatype flow = KeepOpen | CloseSession | SessionErr string | SessionPanic

section \<open>Helpers\<close>

definition ADVERTISED_CAP :: nat where "ADVERTISED_CAP = 16"
definition MAX_STRATUM_LINE_BYTES :: nat where "MAX_STRATUM_LINE_BYTES = 16 * 1024"

definition note_advertised :: "string \<Rightarrow> u64 \<Rightarrow> (string \<times> u64) list \<Rightarrow> (string \<times> u64) list" where
  "note_advertised jid d adv =
     (if jid \<in> fst ` set adv then adv else pop_front_over ADVERTISED_CAP (adv @ [(jid, d)]))"

definition advertised_diff :: "string \<Rightarrow> (string \<times> u64) list \<Rightarrow> u64 option" where
  "advertised_diff jid adv = map_option snd (find (\<lambda>(j, _). j = jid) (rev adv))"

definition job_to_json :: "hex_enc \<Rightarrow> string \<Rightarrow> UpstreamJob \<Rightarrow> u64 \<Rightarrow> u8 \<Rightarrow> json exec" where
  "job_to_json enc session_id job local_diff worker_byte =
     exec_bind (stamp_worker_byte (blob_hex job) worker_byte) (\<lambda>blob.
     Returns (JObj [(''id'', JStr session_id), (''job_id'', JStr (job_id job)), (''blob'', JStr blob),
       (''seed_hash'', JStr (seed_hex job)), (''target'', JStr (diff_to_target_hex enc local_diff)),
       (''height'', case height job of None \<Rightarrow> JNull | Some h \<Rightarrow> JNum (uint h))]))"

definition write_msg ::
  "step_env \<Rightarrow> message \<Rightarrow> flow \<Rightarrow> 'addr Session \<Rightarrow> ('addr, 's) world
     \<Rightarrow> flow \<times> 'addr Session \<times> ('addr, 's) world" where
  "write_msg env msg fl se w =
     (if write_ok env then (fl, se, w\<lparr>w_out := w_out w @ [msg]\<rparr>) else (SessionErr ''write'', se, w))"

definition ok_reply :: "json \<Rightarrow> json \<Rightarrow> message" where
  "ok_reply rid res = Reply \<lparr>resp_id = rid, resp_jsonrpc = Some ''2.0'', resp_result = Some res,
     resp_error = None\<rparr>"

definition err_reply :: "json \<Rightarrow> int \<Rightarrow> string \<Rightarrow> message" where
  "err_reply rid code msg = Reply \<lparr>resp_id = rid, resp_jsonrpc = Some ''2.0'', resp_result = None,
     resp_error = Some \<lparr>err_code = code, err_message = msg\<rparr>\<rparr>"

definition status_json :: "string \<Rightarrow> json" where
  "status_json s = JObj [(''status'', JStr s)]"

text \<open>Serving a job: cap the difficulty, retarget, remember what is advertised.\<close>

definition serve_job ::
  "hex_enc \<Rightarrow> step_env \<Rightarrow> UpstreamJob \<Rightarrow> 'addr Session \<Rightarrow> (json \<times> 'addr Session) exec" where
  "serve_job enc env job se =
     exec_bind (retarget (t_gap env) (t_idle env) (set_upstream_cap (upstream_diff job) (se_vardiff se)))
       (\<lambda>(vd, d).
     let se1 = se\<lparr>se_vardiff := vd, se_advertised := note_advertised (job_id job) d (se_advertised se)\<rparr>
     in exec_bind (job_to_json enc (se_session_id se) job d (se_worker_byte se)) (\<lambda>j. Returns (j, se1)))"

section \<open>Requests\<close>

definition share_grace :: "StratumConfig \<Rightarrow> nat" where
  "share_grace cfg = nat (uint (share_grace_secs cfg) * 1000000000)"

definition sample_cfg :: "StratumConfig \<Rightarrow> SampleConfig" where
  "sample_cfg cfg = SampleConfig_from (verification_warmup cfg) (verification_sample_rate cfg)"

definition handle_login ::
  "('addr, 's) libs \<Rightarrow> step_env \<Rightarrow> Request \<Rightarrow> 'addr Session \<Rightarrow> ('addr, 's) world
     \<Rightarrow> flow \<times> 'addr Session \<times> ('addr, 's) world" where
  "handle_login lib env req se w =
     (case parse_login lib (req_params req) of
        None \<Rightarrow> (SessionErr ''login params'', se, w)
      | Some p \<Rightarrow>
          (case parse_address lib (str_trim (login p)) of
             None \<Rightarrow> write_msg env (err_reply (req_id req) (- 1) ''login must be a valid 0x... EVM address'')
                       KeepOpen se w
           | Some addr \<Rightarrow>
               let se1 = se\<lparr>se_miner := Some addr\<rparr>;
                   served = (case current (w_jobs w) of
                               None \<Rightarrow> Returns (JNull, se1)
                             | Some j \<Rightarrow> serve_job (lib_enc lib) env j se1)
               in (case served of
                     Panics \<Rightarrow> (SessionPanic, se1, w)
                   | Returns (job_json, se2) \<Rightarrow>
                       write_msg env (ok_reply (req_id req)
                         (JObj [(''id'', JStr (se_session_id se)), (''job'', job_json),
                            (''status'', JStr ''OK''), (''extensions'', JArr [JStr ''nicehash''])]))
                         KeepOpen se2 w)))"

definition check_diff :: "string \<Rightarrow> 'addr Session \<Rightarrow> u64" where
  "check_diff jid se =
     (case advertised_diff jid (se_advertised se) of None \<Rightarrow> vd_min (se_vardiff se) | Some d \<Rightarrow> d)"

definition submit_input :: "'addr \<Rightarrow> UpstreamJob \<Rightarrow> SubmitParams \<Rightarrow> 'addr Session \<Rightarrow> 'addr VerifyInput" where
  "submit_input addr job p se = \<lparr>vi_miner = addr, vi_job = job,
     session_difficulty = check_diff (sp_job_id p) se, nonce_hex = sp_nonce p,
     claimed_result_hex = sp_result p\<rparr>"

text \<open>The verdict on a share: verified on the blocking pool, or on the claimed
  result when the share was not sampled.\<close>

definition judge_share ::
  "('addr, 's) libs \<Rightarrow> step_env \<Rightarrow> bool \<Rightarrow> 'addr VerifyInput \<Rightarrow> ('addr, 's) world
     \<Rightarrow> (string + ShareOutcome) \<times> ('addr, 's) world" where
  "judge_share lib env did_verify i w =
     (if did_verify then
        (if \<not> join_ok env then (Inl ''RandomX verify task failed to join'', w)
         else (case verify_share (lib_dec lib) (lib_hash lib) (w_verifier w) i of
                 (Inl e, s) \<Rightarrow> (Inl e, w\<lparr>w_verifier := s\<rparr>)
               | (Inr (outcome, _), s) \<Rightarrow> (Inr outcome, w\<lparr>w_verifier := s\<rparr>)))
      else (Inr (fst (accept_claimed_result (lib_dec lib) i)), w))"

definition share_accepted ::
  "step_env \<Rightarrow> Request \<Rightarrow> 'addr \<Rightarrow> SubmitParams \<Rightarrow> bool \<Rightarrow> bool \<Rightarrow> 'addr Session \<Rightarrow> ('addr, 's) world
     \<Rightarrow> flow \<times> 'addr Session \<times> ('addr, 's) world" where
  "share_accepted env req addr p did_verify forwarded se w =
     (let se1 = se\<lparr>se_verified_count := (if did_verify then sat_add (se_verified_count se) 1
                                        else se_verified_count se),
                   se_vardiff := on_share (t_share env) (se_vardiff se)\<rparr>;
          share = \<lparr>sa_miner = addr, sa_job_id = sp_job_id p, sa_difficulty = check_diff (sp_job_id p) se,
                   accepted_at = utc_now env, forwarded_upstream = forwarded\<rparr>;
          w1 = (if credit_ok env then w\<lparr>w_credits := w_credits w @ [(sp_nonce p, share)]\<rparr> else w);
          w2 = (if forwarded
                then w1\<lparr>w_forwarded := w_forwarded w1 @
                      [\<lparr>us_job_id = sp_job_id p, us_nonce_hex = sp_nonce p, us_result_hex = sp_result p\<rparr>]\<rparr>
                else w1)
      in write_msg env (ok_reply (req_id req) (status_json ''OK'')) KeepOpen se1 w2)"

definition reject_code :: "ShareOutcome \<Rightarrow> int \<times> string" where
  "reject_code err =
     (case err of
        BelowDifficulty \<Rightarrow> (- 5, ''below local difficulty'')
      | InvalidHash \<Rightarrow> (- 6, ''invalid hash'')
      | ShareUnknownJob \<Rightarrow> (- 4, ''unknown job'')
      | BadBlob \<Rightarrow> (- 7, ''bad blob'')
      | ShareOk _ \<Rightarrow> (0, ''unreachable''))"

definition share_rejected ::
  "step_env \<Rightarrow> Request \<Rightarrow> ShareOutcome \<Rightarrow> bool \<Rightarrow> 'addr Session \<Rightarrow> ('addr, 's) world
     \<Rightarrow> flow \<times> 'addr Session \<times> ('addr, 's) world" where
  "share_rejected env req err did_verify se w =
     (let kick = did_verify \<and> se_verified_count se = 0
            \<and> (err = BelowDifficulty \<or> err = InvalidHash \<or> err = BadBlob);
          se1 = se\<lparr>se_verified_count := 0\<rparr>
      in write_msg env (err_reply (req_id req) (fst (reject_code err)) (snd (reject_code err)))
           (if kick then CloseSession else KeepOpen) se1 w)"

text \<open>The source awaits between recording a submission and crediting it, and between the parts of a reply. Handling a
  submit is still one step here: the record is the only test-and-set on state that sessions share, and it is one
  critical section; what follows uses the session's own state, the hash, which depends on its arguments only, and additions to
  counters and streams, which commute with those of other sessions.\<close>

definition handle_submit ::
  "('addr, 's) libs \<Rightarrow> StratumConfig \<Rightarrow> step_env \<Rightarrow> Request \<Rightarrow> 'addr Session \<Rightarrow> ('addr, 's) world
     \<Rightarrow> flow \<times> 'addr Session \<times> ('addr, 's) world" where
  "handle_submit lib cfg env req se w =
     (case se_miner se of
        None \<Rightarrow> write_msg env (err_reply (req_id req) (- 2) ''not logged in'') KeepOpen se w
      | Some addr \<Rightarrow>
          (case parse_submit lib (req_params req) of
             None \<Rightarrow> (SessionErr ''submit params'', se, w)
           | Some p \<Rightarrow>
               if nonce_high_byte (sp_nonce p) = Panics then (SessionPanic, se, w)
               else
                 (case record_submission (sp_job_id p) (sp_nonce p) (share_grace cfg) (t_record env) (w_jobs w) of
                    (Duplicate, st) \<Rightarrow>
                      write_msg env (err_reply (req_id req) (- 3) ''duplicate share'') KeepOpen se (w\<lparr>w_jobs := st\<rparr>)
                  | (UnknownJob, st) \<Rightarrow>
                      write_msg env (err_reply (req_id req) (- 4) ''unknown job'') KeepOpen se (w\<lparr>w_jobs := st\<rparr>)
                  | (Stale, st) \<Rightarrow>
                      write_msg env (err_reply (req_id req) (- 8) ''stale share'') KeepOpen se (w\<lparr>w_jobs := st\<rparr>)
                  | (Accepted job, st) \<Rightarrow>
                      (let w1 = w\<lparr>w_jobs := st\<rparr>
                       in case should_verify (se_verified_count se) (sample_cfg cfg) (gen_bool env) of
                            Panics \<Rightarrow> (SessionPanic, se, w1)
                          | Returns did_verify \<Rightarrow>
                              (case judge_share lib env did_verify (submit_input addr job p se) w1 of
                                 (Inl e, w2) \<Rightarrow> (SessionErr e, se, w2)
                               | (Inr (ShareOk forwarded), w2) \<Rightarrow>
                                   share_accepted env req addr p did_verify forwarded se w2
                               | (Inr err, w2) \<Rightarrow> share_rejected env req err did_verify se w2)))))"

definition handle_request ::
  "('addr, 's) libs \<Rightarrow> StratumConfig \<Rightarrow> step_env \<Rightarrow> Request \<Rightarrow> 'addr Session \<Rightarrow> ('addr, 's) world
     \<Rightarrow> flow \<times> 'addr Session \<times> ('addr, 's) world" where
  "handle_request lib cfg env req se w =
     (if req_method req = ''login'' then handle_login lib env req se w
      else if req_method req = ''submit'' then handle_submit lib cfg env req se w
      else if req_method req = ''keepalived''
      then write_msg env (ok_reply (req_id req) (status_json ''KEEPALIVED'')) KeepOpen se w
      else (KeepOpen, se, w))"

section \<open>The loop of a connection\<close>

definition u64_half :: u64 where "u64_half = u64_MAX div 2"

definition session_new ::
  "StratumConfig \<Rightarrow> string \<Rightarrow> nat \<Rightarrow> ('addr, 's) world \<Rightarrow> 'addr Session \<times> ('addr, 's) world" where
  "session_new cfg uuid now w =
     (\<lparr>se_miner = None,
       se_vardiff = Vardiff_new (min_share_difficulty cfg) (sat_mul (min_share_difficulty cfg) 2) u64_half
         (target_seconds_per_share cfg) (cfg_vardiff cfg) now,
       se_advertised = [], se_verified_count = 0, se_worker_byte = worker_seq w,
       se_session_id = uuid, se_guard = False\<rparr>,
      w\<lparr>worker_seq := worker_seq w + 1\<rparr>)"

text \<open>What wakes the loop: a line (or its capped prefix), the idle timeout, the end
  of the stream, a read error, or a job broadcast by the store.\<close>

datatype event = Line string | IdleTimeout | Eof | ReadError | NewJob UpstreamJob

definition arm_guard ::
  "'addr Session \<Rightarrow> ('addr, 's) world \<Rightarrow> 'addr Session \<times> ('addr, 's) world" where
  "arm_guard se w =
     (if \<not> se_guard se \<and> se_miner se \<noteq> None then (se\<lparr>se_guard := True\<rparr>, w\<lparr>w_open := w_open w + 1\<rparr>)
      else (se, w))"

definition push_job ::
  "('addr, 's) libs \<Rightarrow> step_env \<Rightarrow> UpstreamJob \<Rightarrow> 'addr Session \<Rightarrow> ('addr, 's) world
     \<Rightarrow> flow \<times> 'addr Session \<times> ('addr, 's) world" where
  "push_job lib env job se w =
     (case serve_job (lib_enc lib) env job se of
        Panics \<Rightarrow> (SessionPanic, se, w)
      | Returns (params, se1) \<Rightarrow>
          write_msg env (Notify (JObj [(''jsonrpc'', JStr ''2.0''), (''method'', JStr ''job''),
            (''params'', params)])) KeepOpen se1 w)"

definition on_line ::
  "('addr, 's) libs \<Rightarrow> StratumConfig \<Rightarrow> step_env \<Rightarrow> string \<Rightarrow> 'addr Session \<Rightarrow> ('addr, 's) world
     \<Rightarrow> flow \<times> 'addr Session \<times> ('addr, 's) world" where
  "on_line lib cfg env line se w =
     (if line = [] \<or> last line \<noteq> CHR 0x0A then (CloseSession, se, w)
      else (case parse_request lib (str_trim line) of
              None \<Rightarrow> (KeepOpen, se, w)
            | Some req \<Rightarrow>
                (case handle_request lib cfg env req se w of
                   (KeepOpen, se1, w1) \<Rightarrow> (KeepOpen, arm_guard se1 w1)
                 | (CloseSession, se1, w1) \<Rightarrow> (CloseSession, arm_guard se1 w1)
                 | (fl, se1, w1) \<Rightarrow> (fl, se1, w1))))"

definition drop_guard ::
  "flow \<times> 'addr Session \<times> ('addr, 's) world \<Rightarrow> flow \<times> 'addr Session \<times> ('addr, 's) world" where
  "drop_guard r =
     (case r of (fl, se, w) \<Rightarrow>
        if fl \<noteq> KeepOpen \<and> se_guard se
        then (fl, se\<lparr>se_guard := False\<rparr>, w\<lparr>w_open := w_open w - 1\<rparr>) else (fl, se, w))"

definition session_step ::
  "('addr, 's) libs \<Rightarrow> StratumConfig \<Rightarrow> step_env \<Rightarrow> event \<Rightarrow> 'addr Session \<Rightarrow> ('addr, 's) world
     \<Rightarrow> flow \<times> 'addr Session \<times> ('addr, 's) world" where
  "session_step lib cfg env ev se w =
     drop_guard (case ev of
        Line line \<Rightarrow> on_line lib cfg env (take MAX_STRATUM_LINE_BYTES line) se w
      | IdleTimeout \<Rightarrow> (CloseSession, se, w)
      | Eof \<Rightarrow> (CloseSession, se, w)
      | ReadError \<Rightarrow> (SessionErr ''read'', se, w)
      | NewJob job \<Rightarrow> if se_miner se \<noteq> None then push_job lib env job se w else (KeepOpen, se, w))"

section \<open>Frame lemmas\<close>

lemma write_msg_simps [simp]:
  "fst (snd (write_msg env msg fl se w)) = se"
  "w_jobs (snd (snd (write_msg env msg fl se w))) = w_jobs w"
  "w_credits (snd (snd (write_msg env msg fl se w))) = w_credits w"
  "w_forwarded (snd (snd (write_msg env msg fl se w))) = w_forwarded w"
  "w_open (snd (snd (write_msg env msg fl se w))) = w_open w"
  by (simp_all add: write_msg_def)

lemma write_msg_eq:
  "write_msg env msg fl se w = (fl', se', w') \<Longrightarrow>
     se' = se \<and> w_jobs w' = w_jobs w \<and> w_credits w' = w_credits w \<and> w_forwarded w' = w_forwarded w
     \<and> w_open w' = w_open w \<and> (fl' = fl \<or> fl' = SessionErr ''write'')"
  by (auto simp: write_msg_def split: if_splits)

lemma judge_share_frame:
  assumes "judge_share lib env dv i w = (r, w')"
  shows "w_jobs w' = w_jobs w" "w_credits w' = w_credits w" "w_forwarded w' = w_forwarded w"
    "w_open w' = w_open w"
  using assms by (auto simp: judge_share_def split: if_splits prod.splits sum.splits)

lemma handle_login_frame:
  assumes "handle_login lib env req se w = (fl, se', w')"
  shows "w_jobs w' = w_jobs w" "w_credits w' = w_credits w" "w_forwarded w' = w_forwarded w"
    "w_open w' = w_open w"
  using assms
  by (auto simp: handle_login_def Let_def dest!: write_msg_eq split: option.splits exec.splits prod.splits)

lemma share_rejected_frame:
  assumes "share_rejected env req err dv se w = (fl, se', w')"
  shows "w_jobs w' = w_jobs w \<and> w_credits w' = w_credits w \<and> w_forwarded w' = w_forwarded w
    \<and> w_open w' = w_open w \<and> se_verified_count se' = 0"
  using assms by (auto simp: share_rejected_def Let_def dest!: write_msg_eq)

lemma push_job_frame:
  assumes "push_job lib env job se w = (fl, se', w')"
  shows "w_jobs w' = w_jobs w" "w_credits w' = w_credits w" "w_forwarded w' = w_forwarded w"
    "w_open w' = w_open w"
  using assms by (auto simp: push_job_def dest!: write_msg_eq split: exec.splits prod.splits)

section \<open>What a submission does\<close>

definition credited_share :: "step_env \<Rightarrow> 'addr \<Rightarrow> SubmitParams \<Rightarrow> bool \<Rightarrow> 'addr Session \<Rightarrow> 'addr ShareAccepted" where
  "credited_share env addr p fwd se =
     \<lparr>sa_miner = addr, sa_job_id = sp_job_id p, sa_difficulty = check_diff (sp_job_id p) se,
      accepted_at = utc_now env, forwarded_upstream = fwd\<rparr>"

lemma share_accepted_effect:
  assumes "share_accepted env req addr p dv fwd se w = (fl, se', w')"
  shows "w_jobs w' = w_jobs w" "w_open w' = w_open w"
    "w_credits w' = (if credit_ok env then w_credits w @ [(sp_nonce p, credited_share env addr p fwd se)]
                     else w_credits w)"
    "w_forwarded w' = (if fwd then w_forwarded w @ [\<lparr>us_job_id = sp_job_id p, us_nonce_hex = sp_nonce p,
                          us_result_hex = sp_result p\<rparr>] else w_forwarded w)"
  using assms by (auto simp: share_accepted_def Let_def credited_share_def dest!: write_msg_eq)

text \<open>A submission either leaves the job store and the credits alone, or is
  recorded by the store; it is credited only when the store accepted it and the
  verdict is positive.\<close>

lemma handle_submit_cases:
  assumes "handle_submit lib cfg env req se w = (fl, se', w')"
  obtains (untouched) "w_jobs w' = w_jobs w" "w_credits w' = w_credits w" "w_forwarded w' = w_forwarded w"
  | (recorded) p st where "parse_submit lib (req_params req) = Some p"
      "snd (record_submission (sp_job_id p) (sp_nonce p) (share_grace cfg) (t_record env) (w_jobs w)) = st"
      "w_jobs w' = st" "w_credits w' = w_credits w" "w_forwarded w' = w_forwarded w"
  | (credited) addr p job st dv fwd w2 where "se_miner se = Some addr"
      "parse_submit lib (req_params req) = Some p"
      "record_submission (sp_job_id p) (sp_nonce p) (share_grace cfg) (t_record env) (w_jobs w)
         = (Accepted job, st)"
      "should_verify (se_verified_count se) (sample_cfg cfg) (gen_bool env) = Returns dv"
      "judge_share lib env dv (submit_input addr job p se) (w\<lparr>w_jobs := st\<rparr>) = (Inr (ShareOk fwd), w2)"
      "w_jobs w' = st"
      "w_credits w' = (if credit_ok env then w_credits w @ [(sp_nonce p, credited_share env addr p fwd se)]
                       else w_credits w)"
      "w_forwarded w' = (if fwd then w_forwarded w @ [\<lparr>us_job_id = sp_job_id p, us_nonce_hex = sp_nonce p,
                          us_result_hex = sp_result p\<rparr>] else w_forwarded w)"
proof (cases "se_miner se")
  case None
  then show ?thesis using assms untouched by (auto simp: handle_submit_def dest!: write_msg_eq)
next
  case (Some addr)
  show ?thesis
  proof (cases "parse_submit lib (req_params req)")
    case None
    then show ?thesis using assms Some untouched by (auto simp: handle_submit_def)
  next
    case (Some p)
    note addr = \<open>se_miner se = Some addr\<close>
    obtain o' st where rec: "record_submission (sp_job_id p) (sp_nonce p) (share_grace cfg) (t_record env)
        (w_jobs w) = (o', st)" by (cases "record_submission (sp_job_id p) (sp_nonce p) (share_grace cfg)
        (t_record env) (w_jobs w)") auto
    show ?thesis
    proof (cases "nonce_high_byte (sp_nonce p) = Panics")
      case True
      then show ?thesis using assms addr Some untouched by (auto simp: handle_submit_def)
    next
      case nopanic: False
      note base = assms [unfolded handle_submit_def] addr Some rec nopanic
      show ?thesis
      proof (cases o')
        case (Accepted job)
        show ?thesis
        proof (cases "should_verify (se_verified_count se) (sample_cfg cfg) (gen_bool env)")
          case Panics
          then show ?thesis using base Accepted recorded [OF Some] by (auto simp: Let_def)
        next
          case (Returns dv)
          obtain r w2 where j: "judge_share lib env dv (submit_input addr job p se) (w\<lparr>w_jobs := st\<rparr>) = (r, w2)"
            by (cases "judge_share lib env dv (submit_input addr job p se) (w\<lparr>w_jobs := st\<rparr>)") auto
          note f = judge_share_frame [OF j]
          show ?thesis
          proof (cases "\<exists>fwd. r = Inr (ShareOk fwd)")
            case True
            then obtain fwd where r: "r = Inr (ShareOk fwd)" by blast
            then have "share_accepted env req addr p dv fwd se w2 = (fl, se', w')"
              using base Accepted Returns j by (simp add: Let_def)
            note e = share_accepted_effect [OF this]
            show ?thesis using credited [OF addr Some _ Returns, of job st fwd w2] j r rec Accepted e f by simp
          next
            case False
            then have "w_jobs w' = st \<and> w_credits w' = w_credits w \<and> w_forwarded w' = w_forwarded w"
              using base Accepted Returns j f
              by (auto simp: Let_def split: sum.splits ShareOutcome.splits dest!: share_rejected_frame)
            then show ?thesis using recorded [OF Some] rec by simp
          qed
        qed
      qed (use base recorded [OF Some] in \<open>auto dest!: write_msg_eq\<close>)
    qed
  qed
qed

section \<open>Properties\<close>

lemma judge_share_ShareOk:
  assumes "judge_share lib env dv i w = (Inr (ShareOk fwd), w2)"
  shows "\<exists>h. meets_difficulty h (session_difficulty i)
    \<and> (fwd \<longleftrightarrow> meets_difficulty h (upstream_diff (vi_job i)))
    \<and> (dv \<longrightarrow> (\<exists>blob. assemble_blob_with_nonce (lib_dec lib) (blob_hex (vi_job i)) (nonce_hex i) = Inr blob
               \<and> fst (lib_hash lib (w_verifier w) (share_seed (lib_dec lib) (vi_job i)) blob) = Inr h))
    \<and> (\<not> dv \<longrightarrow> lib_dec lib (claimed_result_hex i) = Inr h)"
proof (cases dv)
  case True
  obtain h s where v: "verify_share (lib_dec lib) (lib_hash lib) (w_verifier w) i = (Inr (ShareOk fwd, h), s)"
    using assms True by (auto simp: judge_share_def split: if_splits prod.splits sum.splits)
  then obtain blob where "assemble_blob_with_nonce (lib_dec lib) (blob_hex (vi_job i)) (nonce_hex i) = Inr blob"
    "lib_hash lib (w_verifier w) (share_seed (lib_dec lib) (vi_job i)) blob = (Inr h, s)"
    "meets_difficulty h (session_difficulty i)" "fwd = meets_difficulty h (upstream_diff (vi_job i))"
    by (rule verify_share_ShareOk)
  with True show ?thesis by auto
next
  case False
  obtain h where "accept_claimed_result (lib_dec lib) i = (ShareOk fwd, h)"
    using assms False by (cases "accept_claimed_result (lib_dec lib) i") (auto simp: judge_share_def)
  from accept_claimed_ShareOk [OF this] False show ?thesis by auto
qed

lemma fclamp_fclamp: "fclamp (Fin 0) (Fin 1) (fclamp (Fin 0) (Fin 1) r) = fclamp (Fin 0) (Fin 1) r"
  by (cases r) (auto simp: fclamp_def Let_def)

lemma should_verify_sampled:
  "should_verify c (sample_cfg cfg) g =
     (if c < verification_warmup cfg then Returns True
      else g (fclamp (Fin 0) (Fin 1) (verification_sample_rate cfg)))"
  by (simp add: should_verify_def sample_cfg_def SampleConfig_from_def fclamp_fclamp)

text \<open>C15: whatever a connection sends, a request credits at most one share, only
  to the address that logged in, only for a job and nonce the store has just accepted, at the
  difficulty the session remembers for that job (the floor if it was never advertised or its entry was
  evicted), and only with a hash that meets this difficulty. During the warm-up, and whenever the draw at the
  configured rate (forced into the unit interval) selects the share, that hash is the one the verifier computed
  on the job's blob with the submitted nonce; only after the warm-up, and only when the draw passes the share
  over, it is the claimed result.\<close>

theorem credit_sound:
  assumes "handle_request lib cfg env req se w = (fl, se', w')" and "w_credits w' \<noteq> w_credits w"
  shows "\<exists>addr p job fwd h. se_miner se = Some addr
    \<and> parse_submit lib (req_params req) = Some p
    \<and> fst (record_submission (sp_job_id p) (sp_nonce p) (share_grace cfg) (t_record env) (w_jobs w))
        = Accepted job
    \<and> w_credits w' = w_credits w @ [(sp_nonce p, credited_share env addr p fwd se)]
    \<and> meets_difficulty h (check_diff (sp_job_id p) se)
    \<and> (fwd \<longleftrightarrow> meets_difficulty h (upstream_diff job))
    \<and> (if se_verified_count se < verification_warmup cfg
           \<or> gen_bool env (fclamp (Fin 0) (Fin 1) (verification_sample_rate cfg)) = Returns True
        then \<exists>blob. assemble_blob_with_nonce (lib_dec lib) (blob_hex job) (sp_nonce p) = Inr blob
          \<and> fst (lib_hash lib (w_verifier w) (share_seed (lib_dec lib) job) blob) = Inr h
        else gen_bool env (fclamp (Fin 0) (Fin 1) (verification_sample_rate cfg)) = Returns False
          \<and> lib_dec lib (sp_result p) = Inr h)"
proof -
  have sub: "handle_submit lib cfg env req se w = (fl, se', w')"
  proof (rule ccontr)
    assume "handle_submit lib cfg env req se w \<noteq> (fl, se', w')"
    then have "w_credits w' = w_credits w"
      using assms(1) handle_login_frame [of lib env req se w fl se' w']
      by (auto simp: handle_request_def dest!: write_msg_eq split: if_splits)
    with assms(2) show False by simp
  qed
  then show ?thesis
  proof (cases rule: handle_submit_cases)
    case (credited addr p job st dv fwd w2)
    then have c: "w_credits w' = w_credits w @ [(sp_nonce p, credited_share env addr p fwd se)]"
      using assms(2) by (simp split: if_splits)
    from judge_share_ShareOk [OF credited(5)] obtain h where
      h: "meets_difficulty h (check_diff (sp_job_id p) se)" "fwd \<longleftrightarrow> meets_difficulty h (upstream_diff job)"
      "dv \<longrightarrow> (\<exists>blob. assemble_blob_with_nonce (lib_dec lib) (blob_hex job) (sp_nonce p) = Inr blob
               \<and> fst (lib_hash lib (w_verifier w) (share_seed (lib_dec lib) job) blob) = Inr h)"
      "\<not> dv \<longrightarrow> lib_dec lib (sp_result p) = Inr h"
      by (auto simp: submit_input_def)
    moreover have "dv \<longleftrightarrow> se_verified_count se < verification_warmup cfg
        \<or> gen_bool env (fclamp (Fin 0) (Fin 1) (verification_sample_rate cfg)) = Returns True"
      "\<not> dv \<longrightarrow> gen_bool env (fclamp (Fin 0) (Fin 1) (verification_sample_rate cfg)) = Returns False"
      using credited(4) by (auto simp: should_verify_sampled split: if_splits)
    ultimately show ?thesis using credited(1-3) c by (cases dv) auto
  qed (use assms(2) in simp_all)
qed

definition demo_cfg :: StratumConfig where
  "demo_cfg = \<lparr>bind_addr = ''0.0.0.0:3333'', tls_cert = None, tls_key = None, min_share_difficulty = 1,
     target_seconds_per_share = 20, max_submits_per_second = 10, verification_warmup = 5,
     verification_sample_rate = Fin 0, share_grace_secs = 0, idle_timeout_secs = 600,
     cfg_vardiff = VardiffConfig_default\<rparr>"

definition demo_submit :: SubmitParams where
  "demo_submit = \<lparr>sp_id = ''s'', sp_job_id = ''a'', sp_nonce = ''00000001'', sp_result = ''00''\<rparr>"

definition demo_libs :: "(nat, unit) libs" where
  "demo_libs = \<lparr>lib_enc = hex_encode, lib_dec = hex_decode, lib_hash = StubVerifier_hash,
     parse_request = (\<lambda>_. None), parse_login = (\<lambda>_. None), parse_submit = (\<lambda>_. Some demo_submit),
     parse_address = (\<lambda>_. Some 1)\<rparr>"

definition demo_env :: step_env where
  "demo_env = \<lparr>t_gap = 0, t_idle = 0, t_record = 3, t_share = 3, utc_now = 0,
     gen_bool = (\<lambda>_. Returns False), join_ok = True, credit_ok = True, write_ok = True\<rparr>"

definition demo_world :: "(nat, unit) world" where
  "demo_world = \<lparr>w_jobs = publish (vi_job demo_input) 1 JobStore_new, w_verifier = (), w_credits = [],
     w_forwarded = [], w_out = [], w_open = 0, worker_seq = 0\<rparr>"

definition demo_session :: "nat Session" where
  "demo_session = (fst (session_new demo_cfg ''s'' 0 demo_world))
     \<lparr>se_miner := Some 7, se_advertised := [(''a'', 1)]\<rparr>"

definition demo_request :: "string \<Rightarrow> Request" where
  "demo_request meth = \<lparr>req_id = JNum 1, req_jsonrpc = None, req_method = meth, req_params = JNull\<rparr>"

theorem credit_sound_witness:
  "length (w_credits (snd (snd (handle_request demo_libs demo_cfg demo_env (demo_request ''submit'')
      demo_session demo_world)))) = 1
   \<and> (\<exists>addr. se_miner demo_session = Some addr)"
proof -
  obtain fl se' w' where r: "handle_request demo_libs demo_cfg demo_env (demo_request ''submit'')
      demo_session demo_world = (fl, se', w')" by (metis prod_cases3)
  have "length (w_credits (snd (snd (handle_request demo_libs demo_cfg demo_env (demo_request ''submit'')
      demo_session demo_world)))) = 1" by code_simp
  moreover have "w_credits demo_world = []" by code_simp
  ultimately have n: "w_credits w' \<noteq> w_credits demo_world" using r by auto
  from credit_sound [OF r n] obtain addr p fwd where "se_miner demo_session = Some addr"
    "w_credits w' = w_credits demo_world @ [(sp_nonce p, credited_share demo_env addr p fwd demo_session)]"
    by blast
  then show ?thesis using r \<open>w_credits demo_world = []\<close> by simp
qed

lemma find_append: "find P (xs @ ys) = (case find P xs of None \<Rightarrow> find P ys | Some x \<Rightarrow> Some x)"
  by (induction xs) simp_all

lemma note_advertised_new:
  assumes "j \<notin> fst ` set adv" "length adv \<le> ADVERTISED_CAP"
  obtains k where "note_advertised j d adv = drop k adv @ [(j, d)]"
  using assms that by (simp add: note_advertised_def pop_front_over_snoc ADVERTISED_CAP_def)

text \<open>The advertisements of a connection. A step serves at most one job: the one broadcast to it, or
  the current one when a login succeeds; what it tells the miner is the retargeted difficulty.\<close>

definition served_job :: "('addr, 's) libs \<Rightarrow> event \<Rightarrow> 'addr Session \<Rightarrow> ('addr, 's) world \<Rightarrow> UpstreamJob option" where
  "served_job lib ev se w =
     (case ev of
        NewJob job \<Rightarrow> if se_miner se \<noteq> None then Some job else None
      | Line line \<Rightarrow>
          (let l = take MAX_STRATUM_LINE_BYTES line
           in if l = [] \<or> last l \<noteq> CHR 0x0A then None
              else case parse_request lib (str_trim l) of
                     None \<Rightarrow> None
                   | Some req \<Rightarrow>
                       if req_method req \<noteq> ''login'' then None
                       else case parse_login lib (req_params req) of
                              None \<Rightarrow> None
                            | Some p \<Rightarrow> if parse_address lib (str_trim (login p)) = None then None else current (w_jobs w))
      | _ \<Rightarrow> None)"

definition told :: "step_env \<Rightarrow> UpstreamJob option \<Rightarrow> 'addr Session \<Rightarrow> (string \<times> u64) list" where
  "told env served se =
     (case served of
        None \<Rightarrow> []
      | Some job \<Rightarrow>
          (case retarget (t_gap env) (t_idle env) (set_upstream_cap (upstream_diff job) (se_vardiff se)) of
             Returns (_, d) \<Rightarrow> [(job_id job, d)]
           | Panics \<Rightarrow> []))"

text \<open>The states of an open connection with what it has told its miner so far. The shared services may
  change in any way between its steps.\<close>

inductive session_told :: "('addr, 's) libs \<Rightarrow> StratumConfig \<Rightarrow> (string \<times> u64) list \<Rightarrow> 'addr Session \<Rightarrow> bool"
  for lib :: "('addr, 's) libs" and cfg :: StratumConfig where
  opened: "session_told lib cfg [] (fst (session_new cfg uuid now (w :: ('addr, 's) world)))"
| stepped: "session_told lib cfg (hist @ told env (served_job lib ev se w) se) se'"
    if "session_told lib cfg hist se" "session_step lib cfg env ev se w = (KeepOpen, se', w')"

definition note_all :: "(string \<times> u64) list \<Rightarrow> (string \<times> u64) list \<Rightarrow> (string \<times> u64) list" where
  "note_all hist adv = fold (\<lambda>(j, d). note_advertised j d) hist adv"

lemma note_all_simps [simp]:
  "note_all [] adv = adv" "note_all (h @ h') adv = note_all h' (note_all h adv)"
  "note_all [(j, d)] adv = note_advertised j d adv"
  by (simp_all add: note_all_def)

lemma serve_job_advertised:
  assumes "serve_job enc env job se = Returns (js, se')"
  shows "se_advertised se' = note_all (told env (Some job) se) (se_advertised se)"
  using assms by (auto simp: serve_job_def told_def Let_def exec_bind_Returns_iff note_all_def)

lemma handle_submit_advertised:
  "handle_submit lib cfg env req se w = (fl, se', w') \<Longrightarrow> se_advertised se' = se_advertised se \<and> se_miner se' = se_miner se"
  by (auto simp: handle_submit_def share_accepted_def share_rejected_def Let_def dest!: write_msg_eq
      split: option.splits if_splits prod.splits SubmissionOutcome.splits exec.splits sum.splits ShareOutcome.splits)

lemma handle_login_advertised:
  assumes "handle_login lib env req se w = (KeepOpen, se', w')"
  shows "se_advertised se' = note_all (told env
    (case parse_login lib (req_params req) of None \<Rightarrow> None
     | Some p \<Rightarrow> if parse_address lib (str_trim (login p)) = None then None else current (w_jobs w)) se) (se_advertised se)"
  using assms
  by (auto simp: handle_login_def Let_def told_def dest!: write_msg_eq serve_job_advertised
      split: option.splits exec.splits prod.splits)

lemma arm_guard_advertised: "arm_guard se w = (se', w') \<Longrightarrow> se_advertised se' = se_advertised se"
  by (auto simp: arm_guard_def split: if_splits)

lemma on_line_advertised:
  assumes "on_line lib cfg env (take MAX_STRATUM_LINE_BYTES line) se w = (KeepOpen, se', w')"
  shows "se_advertised se' = note_all (told env (served_job lib (Line line) se w) se) (se_advertised se)"
proof (cases "parse_request lib (str_trim (take MAX_STRATUM_LINE_BYTES line))")
  case None
  then show ?thesis using assms by (auto simp: on_line_def served_job_def told_def Let_def split: if_splits)
next
  case (Some req)
  obtain se1 w1 where r: "handle_request lib cfg env req se w = (KeepOpen, se1, w1)" "arm_guard se1 w1 = (se', w')"
      "\<not> (take MAX_STRATUM_LINE_BYTES line = [] \<or> last (take MAX_STRATUM_LINE_BYTES line) \<noteq> CHR 0x0A)"
    using assms Some by (auto simp: on_line_def split: if_splits prod.splits flow.splits)
  have "se_advertised se1 = note_all (told env (served_job lib (Line line) se w) se) (se_advertised se)"
    using r(1,3) Some
    by (auto simp: handle_request_def served_job_def Let_def told_def [of _ None] dest!: handle_submit_advertised handle_login_advertised write_msg_eq
        split: if_splits)
  then show ?thesis using arm_guard_advertised [OF r(2)] by simp
qed

lemma session_step_advertised:
  assumes "session_step lib cfg env ev se w = (KeepOpen, se', w')"
  shows "se_advertised se' = note_all (told env (served_job lib ev se w) se) (se_advertised se)"
proof (cases ev)
  case (Line line)
  then have "on_line lib cfg env (take MAX_STRATUM_LINE_BYTES line) se w = (KeepOpen, se', w')"
    using assms by (auto simp: session_step_def drop_guard_def split: if_splits prod.splits)
  then show ?thesis using Line on_line_advertised by blast
next
  case (NewJob job)
  then show ?thesis using assms
    by (auto simp: session_step_def drop_guard_def served_job_def told_def [of _ None] push_job_def
        dest!: serve_job_advertised write_msg_eq split: if_splits exec.splits prod.splits)
qed (use assms in \<open>auto simp: session_step_def drop_guard_def split: if_splits\<close>)

lemma session_told_advertised:
  "session_told lib cfg hist se \<Longrightarrow> se_advertised se = note_all hist []"
proof (induction rule: session_told.induct)
  case (stepped hist se env ev w se' w')
  then show ?case using session_step_advertised [OF stepped.hyps(2)] by simp
qed (simp add: session_new_def)

text \<open>The ring: an entry survives until 16 other jobs were advertised after it.\<close>

lemma note_advertised_distinct: "distinct (map fst adv) \<Longrightarrow> distinct (map fst (note_advertised j d adv))"
  unfolding note_advertised_def by (auto intro!: distinct_pop_front_over)

lemma note_all_distinct: "distinct (map fst (note_all hist []))"
proof (induction hist rule: rev_induct)
  case (snoc x hist)
  then show ?case by (cases x) (simp add: note_advertised_distinct)
qed simp

lemma note_all_length: "length (note_all hist []) \<le> ADVERTISED_CAP"
proof (induction hist rule: rev_induct)
  case (snoc x hist)
  then show ?case by (cases x) (simp add: note_advertised_def)
qed simp

lemma ring_keeps:
  assumes "j \<notin> fst ` set pre" "card (fst ` set post - {j}) < ADVERTISED_CAP"
  shows "\<exists>xs ys. note_all (pre @ (j, d) # post) [] = xs @ (j, d) # ys \<and> fst ` set ys \<subseteq> fst ` set post - {j}"
  using assms(2)
proof (induction post rule: rev_induct)
  case Nil
  have "fst ` set (note_all pre []) \<subseteq> fst ` set pre"
  proof (induction pre rule: rev_induct)
    case (snoc x xs)
    have "set (note_advertised i e adv) \<subseteq> insert (i, e) (set adv)" for i e adv
      using set_pop_front_over [of ADVERTISED_CAP "adv @ [(i, e)]"] by (auto simp: note_advertised_def)
    from image_mono [OF this, of fst "fst x" "snd x" "note_all xs []"] snoc show ?case by (cases x) auto
  qed simp
  then have "j \<notin> fst ` set (note_all pre [])" using assms(1) by blast
  then obtain k where "note_advertised j d (note_all pre []) = drop k (note_all pre []) @ [(j, d)]"
    using note_all_length by (rule note_advertised_new)
  then show ?case by (intro exI [of _ "drop k (note_all pre [])"] exI [of _ "[]"]) simp
next
  case (snoc x post)
  obtain i e where x: "x = (i, e)" by fastforce
  have sub: "fst ` set post - {j} \<subseteq> fst ` set (post @ [x]) - {j}" by auto
  then have "card (fst ` set post - {j}) \<le> card (fst ` set (post @ [x]) - {j})" by (intro card_mono) simp_all
  then have "card (fst ` set post - {j}) < ADVERTISED_CAP" using snoc.prems by (rule le_less_trans)
  from snoc.IH [OF this] obtain xs ys where r: "note_all (pre @ (j, d) # post) [] = xs @ (j, d) # ys"
    "fst ` set ys \<subseteq> fst ` set post - {j}" by (elim exE conjE)
  let ?adv = "note_all (pre @ (j, d) # post) []"
  have e: "note_all (pre @ (j, d) # post @ [x]) [] = note_advertised i e ?adv" using x by (simp flip: append_Cons)
  show ?case
  proof (cases "i \<in> fst ` set ?adv")
    case True
    then have "note_advertised i e ?adv = ?adv" by (simp add: note_advertised_def)
    then show ?thesis using r sub unfolding e by (intro exI [of _ xs] exI [of _ ys]) (simp only: subset_trans simp_thms)
  next
    case False
    have d: "distinct (map fst ys)" using note_all_distinct [of "pre @ (j, d) # post"] unfolding r(1) by simp
    have "set (map fst (ys @ [(i, e)])) \<subseteq> fst ` set (post @ [x]) - {j}"
      using r False x by auto
    then have "card (set (map fst (ys @ [(i, e)]))) < ADVERTISED_CAP"
      by (intro le_less_trans [OF card_mono snoc.prems]) simp_all
    moreover have "distinct (map fst (ys @ [(i, e)]))" using d False r(1) by auto
    ultimately have len: "Suc (length ys) < ADVERTISED_CAP" using distinct_card [of "map fst (ys @ [(i, e)])"] by simp
    have "pop_front_over ADVERTISED_CAP (?adv @ [(i, e)]) = drop (Suc (length ?adv) - ADVERTISED_CAP) (?adv @ [(i, e)])"
      by (simp add: pop_front_over_drop)
    moreover have "Suc (length ?adv) - ADVERTISED_CAP \<le> length xs" using len unfolding r(1) by simp
    ultimately have "note_advertised i e ?adv = drop (Suc (length ?adv) - ADVERTISED_CAP) xs @ (j, d) # (ys @ [(i, e)])"
      using False unfolding r(1) by (simp add: note_advertised_def)
    moreover have "fst ` set (ys @ [(i, e)]) \<subseteq> fst ` set (post @ [x]) - {j}" using r False x by auto
    ultimately show ?thesis unfolding e by blast
  qed
qed

lemma remembered_diff:
  assumes "session_told lib cfg (pre @ (j, d) # post) se" "j \<notin> fst ` set pre" "card (fst ` set post - {j}) < ADVERTISED_CAP"
  shows "check_diff j se = d"
proof -
  obtain xs ys where r: "se_advertised se = xs @ (j, d) # ys"
    using session_told_advertised [OF assms(1)] ring_keeps [OF assms(2,3), of d] by metis
  then have "j \<notin> fst ` set ys"
    using note_all_distinct [of "pre @ (j, d) # post"] session_told_advertised [OF assms(1)] by simp
  then have "find (\<lambda>(i, _). i = j) (rev ys) = None" by (force simp: find_None_iff)
  then show ?thesis by (simp add: check_diff_def advertised_diff_def r find_append)
qed

text \<open>The hash a share is judged by: computed when it was drawn for verification, claimed otherwise.\<close>

definition judged_hash ::
  "('addr, 's) libs \<Rightarrow> step_env \<Rightarrow> bool \<Rightarrow> UpstreamJob \<Rightarrow> SubmitParams \<Rightarrow> ('addr, 's) world \<Rightarrow> ResultHash option" where
  "judged_hash lib env dv job p w =
     (if dv then
        (case assemble_blob_with_nonce (lib_dec lib) (blob_hex job) (sp_nonce p) of
           Inr blob \<Rightarrow>
             (case lib_hash lib (w_verifier w) (share_seed (lib_dec lib) job) blob of
                (Inr h, _) \<Rightarrow> if join_ok env then Some h else None
              | _ \<Rightarrow> None)
         | Inl _ \<Rightarrow> None)
      else (case lib_dec lib (sp_result p) of Inr h \<Rightarrow> if length h = 32 then Some h else None | Inl _ \<Rightarrow> None))"

lemma judge_share_verdict:
  assumes "judged_hash lib env dv job p w = Some h"
  shows "\<exists>w2. judge_share lib env dv (submit_input addr job p se) (w\<lparr>w_jobs := st\<rparr>) =
      (Inr (if meets_difficulty h (check_diff (sp_job_id p) se) then ShareOk (meets_difficulty h (upstream_diff job)) else BelowDifficulty), w2)"
proof (cases dv)
  case True
  then obtain blob s' where a: "assemble_blob_with_nonce (lib_dec lib) (blob_hex job) (sp_nonce p) = Inr blob"
    "lib_hash lib (w_verifier w) (share_seed (lib_dec lib) job) blob = (Inr h, s')" "join_ok env"
    using assms by (auto simp: judged_hash_def split: sum.splits prod.splits if_splits)
  then obtain nonce where "lib_dec lib (sp_nonce p) = Inr nonce" "length nonce = NONCE_LEN"
    unfolding assemble_Inr_iff NONCE_LEN_def by blast
  then show ?thesis using a True by (simp add: judge_share_def verify_share_def submit_input_def)
next
  case False
  then have "lib_dec lib (sp_result p) = Inr h" "length h = 32"
    using assms by (auto simp: judged_hash_def split: sum.splits if_splits)
  then show ?thesis using False by (simp add: judge_share_def accept_claimed_result_def submit_input_def)
qed

text \<open>C16: the difficulty a job was first advertised at on a connection is the one its shares are
  judged and credited at, until 16 other jobs were advertised to that miner after it: whatever else
  happened on the connection, retargets and second advertisements of the job included, a recorded share with
  hash \<open>h\<close> is credited, at that difficulty, exactly when \<open>h\<close> meets it. The memory holds at most 16 jobs.\<close>

theorem advertised_first_writer_wins:
  assumes "session_told lib cfg (pre @ (j, d) # post) se"
    and "j \<notin> fst ` set pre" "card (fst ` set post - {j}) < 16"
    and "se_miner se = Some addr" "req_method req = ''submit''"
    and "parse_submit lib (req_params req) = Some p" "sp_job_id p = j" "nonce_high_byte (sp_nonce p) \<noteq> Panics"
    and "record_submission j (sp_nonce p) (share_grace cfg) (t_record env) (w_jobs w) = (Accepted job, st)"
    and "should_verify (se_verified_count se) (sample_cfg cfg) (gen_bool env) = Returns dv"
    and "judged_hash lib env dv job p w = Some h" "credit_ok env"
  shows "w_credits (snd (snd (handle_request lib cfg env req se w))) = w_credits w @
      (if meets_difficulty h d
       then [(sp_nonce p, \<lparr>sa_miner = addr, sa_job_id = j, sa_difficulty = d, accepted_at = utc_now env,
                           forwarded_upstream = meets_difficulty h (upstream_diff job)\<rparr>)]
       else [])
    \<and> length (se_advertised se) \<le> 16"
proof -
  have d: "check_diff (sp_job_id p) se = d"
    using remembered_diff [OF assms(1,2)] assms(3,7) by (simp add: ADVERTISED_CAP_def)
  from judge_share_verdict [OF assms(11), of addr se st, unfolded d] obtain w2 where
    j: "judge_share lib env dv (submit_input addr job p se) (w\<lparr>w_jobs := st\<rparr>) =
      (Inr (if meets_difficulty h d then ShareOk (meets_difficulty h (upstream_diff job)) else BelowDifficulty), w2)"
    by blast
  have "length (se_advertised se) \<le> 16"
    using note_all_length [of "pre @ (j, d) # post"] unfolding session_told_advertised [OF assms(1)] ADVERTISED_CAP_def .
  moreover have "w_credits w2 = w_credits w" using judge_share_frame(2) [OF j] by simp
  ultimately show ?thesis using assms(4-10,12) j d
    by (simp add: handle_request_def handle_submit_def share_accepted_def share_rejected_def Let_def)
qed

definition demo_login_libs :: "(nat, unit) libs" where
  "demo_login_libs = demo_libs\<lparr>parse_request := (\<lambda>_. Some (demo_request ''login'')),
     parse_login := (\<lambda>_. Some \<lparr>login = [], pass = None, agent = None, rigid = None\<rparr>)\<rparr>"

definition demo_open :: "nat Session" where
  "demo_open = fst (session_new demo_cfg ''s'' 0 demo_world)"

definition demo_login :: "nat Session" where
  "demo_login = fst (snd (session_step demo_login_libs demo_cfg demo_env (Line [CHR 0x0A]) demo_open demo_world))"

text \<open>A login advertises job \<open>a\<close> at difficulty 1; a submit of that job is credited at 1.\<close>

lemma demo_login_told: "session_told demo_login_libs demo_cfg ([] @ (''a'', 1) # []) demo_login"
proof -
  have "fst (session_step demo_login_libs demo_cfg demo_env (Line [CHR 0x0A]) demo_open demo_world) = KeepOpen" by code_simp
  then obtain w' where s: "session_step demo_login_libs demo_cfg demo_env (Line [CHR 0x0A]) demo_open demo_world = (KeepOpen, demo_login, w')"
    unfolding demo_login_def by (metis prod.collapse)
  have o': "session_told demo_login_libs demo_cfg [] demo_open"
    unfolding demo_open_def by (rule session_told.opened)
  have "told demo_env (served_job demo_login_libs (Line [CHR 0x0A]) demo_open demo_world) demo_open = [(''a'', 1)]" by code_simp
  with session_told.stepped [OF o' s] show ?thesis by simp
qed

theorem advertised_first_writer_wins_witness:
  "map (\<lambda>c. sa_difficulty (snd c)) (w_credits (snd (snd (handle_request demo_login_libs demo_cfg demo_env
      (demo_request ''submit'') demo_login demo_world)))) = [1]"
proof -
  let ?r = "record_submission ''a'' ''00000001'' (share_grace demo_cfg) (t_record demo_env) (w_jobs demo_world)"
  have r: "fst ?r = Accepted (vi_job demo_input)" by code_simp
  obtain h where h: "judged_hash demo_login_libs demo_env True (vi_job demo_input) demo_submit demo_world = Some h"
      "meets_difficulty h 1"
  proof -
    have "(case judged_hash demo_login_libs demo_env True (vi_job demo_input) demo_submit demo_world of
        Some h \<Rightarrow> meets_difficulty h 1 | None \<Rightarrow> False)" by code_simp
    then show thesis using that by (auto split: option.splits)
  qed
  have m: "se_miner demo_login = Some 1" "nonce_high_byte ''00000001'' \<noteq> Panics"
    "should_verify (se_verified_count demo_login) (sample_cfg demo_cfg) (gen_bool demo_env) = Returns True"
    "w_credits demo_world = []" by code_simp+
  have "record_submission ''a'' ''00000001'' (share_grace demo_cfg) (t_record demo_env) (w_jobs demo_world)
      = (Accepted (vi_job demo_input), snd ?r)" using r by (metis prod.collapse)
  note r' = this
  have c: "''a'' \<notin> fst ` set []" "card (fst ` set [] - {''a''}) < 16" "req_method (demo_request ''submit'') = ''submit''"
    "parse_submit demo_login_libs (req_params (demo_request ''submit'')) = Some demo_submit" "sp_job_id demo_submit = ''a''"
    "sp_nonce demo_submit = ''00000001''" "credit_ok demo_env"
    by (simp_all add: demo_request_def demo_login_libs_def demo_libs_def demo_submit_def demo_env_def)
  from advertised_first_writer_wins [OF demo_login_told c(1,2) m(1) c(3-5), unfolded c(6), OF m(2) r' m(3) h(1) c(7)]
  show ?thesis using m(4) h(2) by simp
qed

section \<open>All sessions together\<close>

definition credit_key :: "string \<times> 'addr ShareAccepted \<Rightarrow> string \<times> string" where
  "credit_key c = (sa_job_id (snd c), to_ascii_lowercase (fst c))"

text \<open>The proxy: its sessions, the services they share, the ids issued so far and
  the clock. A step publishes a job, opens a connection, or lets one session
  handle one event.\<close>

record ('addr, 's) proxy =
  px_sessions :: "nat \<Rightarrow> 'addr Session"
  px_world :: "('addr, 's) world"
  px_issued :: "string set"
  px_clock :: nat

definition px_publish :: "UpstreamJob \<Rightarrow> nat \<Rightarrow> ('addr, 's) proxy \<Rightarrow> ('addr, 's) proxy" where
  "px_publish job now px = px
     \<lparr>px_world := (px_world px)\<lparr>w_jobs := publish job now (w_jobs (px_world px))\<rparr>,
      px_issued := insert (job_id job) (px_issued px), px_clock := now\<rparr>"

definition px_connect :: "StratumConfig \<Rightarrow> nat \<Rightarrow> string \<Rightarrow> nat \<Rightarrow> ('addr, 's) proxy \<Rightarrow> ('addr, 's) proxy" where
  "px_connect cfg i uuid now px =
     (case session_new cfg uuid now (px_world px) of
        (se, w) \<Rightarrow> px\<lparr>px_sessions := (px_sessions px)(i := se), px_world := w\<rparr>)"

definition px_event ::
  "('addr, 's) libs \<Rightarrow> StratumConfig \<Rightarrow> nat \<Rightarrow> step_env \<Rightarrow> event \<Rightarrow> ('addr, 's) proxy \<Rightarrow> ('addr, 's) proxy" where
  "px_event lib cfg i env ev px =
     (case session_step lib cfg env ev (px_sessions px i) (px_world px) of
        (_, se, w) \<Rightarrow> px\<lparr>px_sessions := (px_sessions px)(i := se), px_world := w, px_clock := t_record env\<rparr>)"

inductive px_step ::
  "('addr, 's) libs \<Rightarrow> StratumConfig \<Rightarrow> ('addr, 's) proxy \<Rightarrow> ('addr, 's) proxy \<Rightarrow> bool"
  for lib :: "('addr, 's) libs" and cfg :: StratumConfig where
  px_publish_step: "px_step lib cfg px (px_publish job now px)"
    if "px_clock px \<le> now" "job_id job \<notin> px_issued px"
      "height_mono (current_height (w_jobs (px_world px))) (height job)"
| px_connect_step: "px_step lib cfg px (px_connect cfg i uuid now px)"
| px_event_step: "px_step lib cfg px (px_event lib cfg i env ev px)"
    if "px_clock px \<le> t_record env"

definition px_run :: "('addr, 's) proxy \<Rightarrow> (string \<times> string) list \<Rightarrow> jobs_run" where
  "px_run px acc = \<lparr>store = w_jobs (px_world px), accepted = acc, issued = px_issued px, clock = px_clock px\<rparr>"

definition px_inv :: "StratumConfig \<Rightarrow> ('addr, 's) proxy \<Rightarrow> bool" where
  "px_inv cfg px \<longleftrightarrow>
     (\<exists>acc. jobs_inv (share_grace cfg) (px_run px acc)
        \<and> credit_key ` set (w_credits (px_world px)) \<subseteq> set acc)"

definition px_log :: "('addr, 's) proxy \<Rightarrow> (string \<times> string) list" where
  "px_log px = rev (map credit_key (w_credits (px_world px)))"

lemma jobs_inv_tick:
  assumes "jobs_inv grace r" "clock r \<le> now" shows "jobs_inv grace (r\<lparr>clock := now\<rparr>)"
  using assms claimed_mono [of grace "clock r" _ _ now] by (auto simp: jobs_inv_def)

text \<open>What one event does to the store and the credits.\<close>

definition recorded_as :: "StratumConfig \<Rightarrow> step_env \<Rightarrow> ('addr, 's) world \<Rightarrow> ('addr, 's) world \<Rightarrow> bool" where
  "recorded_as cfg env w w' \<longleftrightarrow>
     (w_jobs w' = w_jobs w \<and> w_credits w' = w_credits w)
     \<or> (\<exists>jid nonce. let r = record_submission jid nonce (share_grace cfg) (t_record env) (w_jobs w)
          in w_jobs w' = snd r \<and>
             (w_credits w' = w_credits w \<or>
              (\<exists>job share. fst r = Accepted job \<and> sa_job_id share = jid
                 \<and> w_credits w' = w_credits w @ [(nonce, share)])))"

lemma handle_request_recorded:
  assumes "handle_request lib cfg env req se w = (fl, se', w')"
  shows "recorded_as cfg env w w'"
proof (cases "req_method req = ''submit''")
  case True
  then have "handle_submit lib cfg env req se w = (fl, se', w')" using assms by (simp add: handle_request_def)
  then show ?thesis
  proof (cases rule: handle_submit_cases)
    case untouched
    then show ?thesis by (simp add: recorded_as_def)
  next
    case (recorded p st)
    then show ?thesis unfolding recorded_as_def Let_def by blast
  next
    case (credited addr p job st dv fwd w2)
    then show ?thesis unfolding recorded_as_def Let_def
      by (intro disjI2 exI [of _ "sp_job_id p"] exI [of _ "sp_nonce p"]) (auto simp: credited_share_def)
  qed
next
  case False
  then have "w_jobs w' = w_jobs w \<and> w_credits w' = w_credits w"
    using assms handle_login_frame [of lib env req se w fl se' w']
    by (auto simp: handle_request_def dest!: write_msg_eq split: if_splits)
  then show ?thesis by (simp add: recorded_as_def)
qed

lemma arm_guard_frame:
  "arm_guard se w = (se', w') \<Longrightarrow> w_jobs w' = w_jobs w \<and> w_credits w' = w_credits w"
  by (auto simp: arm_guard_def split: if_splits)

lemma on_line_recorded:
  assumes "on_line lib cfg env line se w = (fl, se', w')"
  shows "recorded_as cfg env w w'"
proof -
  have same: "recorded_as cfg env w w" by (simp add: recorded_as_def)
  have arm: "recorded_as cfg env w w2" if "recorded_as cfg env w w1" "arm_guard se1 w1 = (se2, w2)" for se1 w1 se2 w2
    using that arm_guard_frame [OF that(2)] by (simp add: recorded_as_def Let_def)
  show ?thesis using assms same
    by (auto simp: on_line_def split: if_splits option.splits prod.splits flow.splits
        dest!: handle_request_recorded intro: arm)
qed

lemma session_step_recorded:
  assumes "session_step lib cfg env ev se w = (fl, se', w')"
  shows "recorded_as cfg env w w'"
proof -
  obtain fl1 se1 w1 where c: "(case ev of
        Line line \<Rightarrow> on_line lib cfg env (take MAX_STRATUM_LINE_BYTES line) se w
      | IdleTimeout \<Rightarrow> (CloseSession, se, w) | Eof \<Rightarrow> (CloseSession, se, w)
      | ReadError \<Rightarrow> (SessionErr ''read'', se, w)
      | NewJob job \<Rightarrow> if se_miner se \<noteq> None then push_job lib env job se w else (KeepOpen, se, w))
      = (fl1, se1, w1)" by (metis prod_cases3)
  then have d: "w_jobs w' = w_jobs w1 \<and> w_credits w' = w_credits w1"
    using assms by (auto simp: session_step_def drop_guard_def split: if_splits)
  have "recorded_as cfg env w w1"
  proof (cases ev)
    case (Line line)
    then show ?thesis using c on_line_recorded by simp
  next
    case (NewJob job)
    then show ?thesis using c push_job_frame(1,2) [of lib env job se w fl1 se1 w1]
      by (auto simp: recorded_as_def split: if_splits)
  qed (use c in \<open>auto simp: recorded_as_def\<close>)
  with d show ?thesis by (simp add: recorded_as_def Let_def)
qed

lemma px_run_submit:
  "run_submit jid nonce grace now (px_run px acc) =
     (case record_submission jid nonce grace now (w_jobs (px_world px)) of
        (Accepted _, st) \<Rightarrow> (px_run px ((jid, to_ascii_lowercase nonce) # acc))\<lparr>store := st, clock := now\<rparr>
      | (_, st) \<Rightarrow> (px_run px acc)\<lparr>store := st, clock := now\<rparr>)"
  by (auto simp: run_submit_def px_run_def split: prod.splits SubmissionOutcome.splits)

lemma px_event_inv:
  assumes inv: "px_inv cfg px" and now: "px_clock px \<le> t_record env"
  shows "px_inv cfg (px_event lib cfg i env ev px)"
    and "px_log (px_event lib cfg i env ev px) = px_log px \<or>
      (\<exists>k. k \<notin> set (px_log px) \<and> px_log (px_event lib cfg i env ev px) = k # px_log px)"
proof -
  let ?g = "share_grace cfg" and ?w = "px_world px" and ?now = "t_record env"
  obtain acc where acc: "jobs_inv ?g (px_run px acc)" "credit_key ` set (w_credits ?w) \<subseteq> set acc"
    using inv by (auto simp: px_inv_def)
  have clk: "clock (px_run px acc) \<le> ?now" using now by (simp add: px_run_def)
  obtain fl se w where st: "session_step lib cfg env ev (px_sessions px i) ?w = (fl, se, w)" by (metis prod_cases3)
  define px' where "px' = px_event lib cfg i env ev px"
  have px': "px_world px' = w" "px_issued px' = px_issued px" "px_clock px' = ?now"
    using st by (simp_all add: px'_def px_event_def)
  from session_step_recorded [OF st] consider
    (same) "w_jobs w = w_jobs ?w" "w_credits w = w_credits ?w"
    | (rec) jid nonce o' where "record_submission jid nonce ?g ?now (w_jobs ?w) = (o', w_jobs w)"
        "w_credits w = w_credits ?w \<or> (\<exists>job share. o' = Accepted job \<and> sa_job_id share = jid
           \<and> w_credits w = w_credits ?w @ [(nonce, share)])"
    unfolding recorded_as_def Let_def by (metis prod.collapse)
  then have "px_inv cfg px' \<and> (px_log px' = px_log px \<or> (\<exists>k. k \<notin> set (px_log px) \<and> px_log px' = k # px_log px))"
  proof cases
    case same
    then have "px_run px' acc = (px_run px acc)\<lparr>clock := ?now\<rparr>" by (simp add: px_run_def px')
    then have "jobs_inv ?g (px_run px' acc)" using jobs_inv_tick [OF acc(1) clk] by simp
    then have "px_inv cfg px'" unfolding px_inv_def px'(1) using acc(2) same(2) by auto
    then show ?thesis using same by (simp add: px_log_def px')
  next
    case (rec jid nonce o')
    note sub = jobs_inv_submit [OF acc(1) clk, of jid nonce]
    show ?thesis
    proof (cases "\<exists>job. o' = Accepted job")
      case True
      let ?k = "(jid, to_ascii_lowercase nonce)"
      have run: "run_submit jid nonce ?g ?now (px_run px acc) = px_run px' (?k # acc)"
        using True rec(1) unfolding px_run_submit by (auto simp: px_run_def px')
      have fresh: "?k \<notin> set acc" using sub(2) unfolding run by (auto simp: px_run_def)
      have keys: "w_credits w = w_credits ?w \<or> (\<exists>share. credit_key (nonce, share) = ?k \<and> w_credits w = w_credits ?w @ [(nonce, share)])"
        using rec(2) by (auto simp: credit_key_def)
      have "credit_key ` set (w_credits w) \<subseteq> insert ?k (credit_key ` set (w_credits ?w))"
        using keys by (elim disjE exE conjE) (simp_all add: subset_insertI)
      then have "credit_key ` set (w_credits w) \<subseteq> set (?k # acc)" using acc(2) by (simp only: list.set) blast
      then have "px_inv cfg px'" using sub(1) unfolding run px_inv_def px'(1) by blast
      moreover have "?k \<notin> set (px_log px)" using fresh acc(2) by (auto simp: px_log_def)
      ultimately show ?thesis using keys by (auto simp: px_log_def px'(1))
    next
      case False
      have "run_submit jid nonce ?g ?now (px_run px acc) = px_run px' acc"
        using False rec(1) unfolding px_run_submit by (auto simp: px_run_def px' split: SubmissionOutcome.splits)
      then show ?thesis using sub(1) rec(2) False acc(2) by (auto simp: px_inv_def px_log_def px'(1))
    qed
  qed
  then show "px_inv cfg (px_event lib cfg i env ev px)"
    and "px_log (px_event lib cfg i env ev px) = px_log px \<or>
      (\<exists>k. k \<notin> set (px_log px) \<and> px_log (px_event lib cfg i env ev px) = k # px_log px)"
    by (simp_all add: px'_def)
qed

lemma px_publish_inv:
  assumes "px_inv cfg px" "px_clock px \<le> now" "job_id job \<notin> px_issued px"
    "height_mono (current_height (w_jobs (px_world px))) (height job)"
  shows "px_inv cfg (px_publish job now px)" "px_log (px_publish job now px) = px_log px"
proof -
  obtain acc where acc: "jobs_inv (share_grace cfg) (px_run px acc)"
    "credit_key ` set (w_credits (px_world px)) \<subseteq> set acc" using assms(1) by (auto simp: px_inv_def)
  have "jobs_inv (share_grace cfg) (run_publish job now (px_run px acc))"
    using acc(1) assms(2-4) by (intro jobs_inv_publish) (simp_all add: px_run_def)
  moreover have "run_publish job now (px_run px acc) = px_run (px_publish job now px) acc"
    by (simp add: run_publish_def px_run_def px_publish_def)
  ultimately show "px_inv cfg (px_publish job now px)" using acc(2)
    by (auto simp: px_inv_def px_publish_def)
qed (simp add: px_log_def px_publish_def)

lemma px_connect_inv:
  "px_inv cfg px \<Longrightarrow> px_inv cfg (px_connect cfg' i uuid now px)"
  "px_log (px_connect cfg' i uuid now px) = px_log px"
  by (simp_all add: px_inv_def px_log_def px_connect_def session_new_def px_run_def)

interpretation px_once: at_most_once "px_step lib cfg" "px_inv cfg" px_log for lib cfg
proof
  fix px px' assume "px_inv cfg px" "px_step lib cfg px px'"
  then show "px_inv cfg px'"
    by (auto elim!: px_step.cases intro: px_publish_inv px_connect_inv px_event_inv)
next
  fix px px' assume inv: "px_inv cfg px" and "px_step lib cfg px px'"
  from this(2) show "px_log px' = px_log px \<or> (\<exists>k. k \<notin> set (px_log px) \<and> px_log px' = k # px_log px)"
  proof (cases rule: px_step.cases)
    case px_publish_step
    then show ?thesis using px_publish_inv(2) [OF inv] by simp
  next
    case px_connect_step
    then show ?thesis by (simp add: px_connect_inv)
  next
    case px_event_step
    then show ?thesis using px_event_inv(2) [OF inv] by simp
  qed
qed

text \<open>C17: with any number of sessions on one store, any interleaving of their
  events with new jobs and new connections, and any outcome of the I/O they do, no job id and
  nonce (up to letter case) is credited twice, to the same or to different
  miners, as long as job ids are not reissued and heights do not go back.\<close>

theorem no_share_credited_twice:
  assumes "(px_step lib cfg)\<^sup>*\<^sup>* px px'" and "w_jobs (px_world px) = JobStore_new"
    and "w_credits (px_world px) = []"
  shows "distinct (map credit_key (w_credits (px_world px')))"
proof -
  have "jobs_inv (share_grace cfg) (px_run px [])"
    using assms(2) by (simp add: jobs_inv_def px_run_def JobStore_new_def)
  then have "px_inv cfg px" using assms(3) by (auto simp: px_inv_def)
  then show ?thesis using px_once.distinct_steps [OF assms(1)] assms(3) by (simp add: px_log_def)
qed

definition demo_proxy :: "(nat, unit) proxy" where
  "demo_proxy = \<lparr>px_sessions = (\<lambda>_. demo_session), px_world = demo_world\<lparr>w_jobs := JobStore_new\<rparr>,
     px_issued = {}, px_clock = 0\<rparr>"

definition demo_submit_libs :: "(nat, unit) libs" where
  "demo_submit_libs = demo_libs\<lparr>parse_request := (\<lambda>_. Some (demo_request ''submit''))\<rparr>"

definition demo_proxy_run :: "(nat, unit) proxy" where
  "demo_proxy_run =
     px_event demo_submit_libs demo_cfg 1 demo_env (Line [CHR 0x0A])
       (px_event demo_submit_libs demo_cfg 0 demo_env (Line [CHR 0x0A])
         (px_publish (vi_job demo_input) 1 demo_proxy))"

theorem no_share_credited_twice_witness:
  "distinct (map credit_key (w_credits (px_world demo_proxy_run)))
   \<and> length (w_credits (px_world demo_proxy_run)) = 1"
proof -
  let ?p1 = "px_publish (vi_job demo_input) 1 demo_proxy"
  let ?p2 = "px_event demo_submit_libs demo_cfg 0 demo_env (Line [CHR 0x0A]) ?p1"
  have "px_step demo_submit_libs demo_cfg demo_proxy ?p1"
    by (rule px_publish_step)
      (simp_all add: demo_proxy_def JobStore_new_def current_height_def current_def height_mono_def)
  moreover have "px_step demo_submit_libs demo_cfg ?p1 ?p2"
    by (rule px_event_step) (simp add: px_publish_def demo_env_def)
  moreover have "px_step demo_submit_libs demo_cfg ?p2 demo_proxy_run"
    unfolding demo_proxy_run_def
    by (rule px_event_step) (simp add: px_event_def demo_env_def split: prod.split)
  ultimately have r: "(px_step demo_submit_libs demo_cfg)\<^sup>*\<^sup>* demo_proxy demo_proxy_run" by auto
  have "length (w_credits (px_world demo_proxy_run)) = 1" by code_simp
  moreover have "w_jobs (px_world demo_proxy) = JobStore_new" "w_credits (px_world demo_proxy) = []"
    by (simp_all add: demo_proxy_def demo_world_def)
  ultimately show ?thesis using no_share_credited_twice [OF r] by blast
qed

section \<open>The live-session gauge\<close>

lemma handle_submit_guard:
  assumes "handle_submit lib cfg env req se w = (fl, se', w')"
  shows "se_guard se' = se_guard se \<and> w_open w' = w_open w"
  using assms
  by (auto simp: handle_submit_def share_accepted_def share_rejected_def Let_def
      split: option.splits if_splits prod.splits SubmissionOutcome.splits exec.splits sum.splits
        ShareOutcome.splits dest!: write_msg_eq judge_share_frame(4))

lemma serve_job_guard:
  "serve_job enc env job se = Returns (j, se') \<Longrightarrow> se_guard se' = se_guard se"
  by (auto simp: serve_job_def Let_def exec_bind_Returns_iff)

lemma handle_request_guard:
  assumes "handle_request lib cfg env req se w = (fl, se', w')"
  shows "se_guard se' = se_guard se \<and> w_open w' = w_open w"
  using assms handle_submit_guard [of lib cfg env req se w fl se' w']
  by (auto simp: handle_request_def handle_login_def Let_def dest!: write_msg_eq serve_job_guard
      split: if_splits option.splits exec.splits prod.splits)

lemma handle_request_miner:
  assumes "handle_request lib cfg env req se w = (fl, se', w')" "se_miner se \<noteq> None"
  shows "se_miner se' \<noteq> None"
proof (cases "req_method req = ''login''")
  case True
  then have "handle_login lib env req se w = (fl, se', w')" using assms(1) by (simp add: handle_request_def)
  then show ?thesis using assms(2)
    by (auto simp: handle_login_def serve_job_def Let_def exec_bind_Returns_iff dest!: write_msg_eq
        split: option.splits exec.splits prod.splits)
next
  case False
  then show ?thesis using assms handle_submit_advertised [of lib cfg env req se w fl se' w']
    by (auto simp: handle_request_def dest!: write_msg_eq split: if_splits)
qed

lemma push_job_session:
  assumes "push_job lib env job se w = (fl, se', w')"
  shows "se_guard se' = se_guard se \<and> se_miner se' = se_miner se"
  using assms by (auto simp: push_job_def serve_job_def Let_def exec_bind_Returns_iff dest!: write_msg_eq
      split: exec.splits prod.splits)

text \<open>C18: the live-miner gauge is exact. A step changes it only by arming or releasing the session's own
  guard. A connection starts without a guard and not logged in, and while it stays open its guard is armed
  exactly when it is logged in: connections that never log in are not counted, and every one that does is. A
  session that ends, for any reason, holds no guard: every increment is matched by exactly one decrement.\<close>

theorem session_gauge_balanced:
  assumes "session_step lib cfg env ev se w = (fl, se', w')"
  shows "w_open w' - of_bool (se_guard se') = w_open w - of_bool (se_guard se)
    \<and> (fl \<noteq> KeepOpen \<longrightarrow> \<not> se_guard se')
    \<and> ((se_guard se \<longleftrightarrow> se_miner se \<noteq> None) \<and> fl = KeepOpen \<longrightarrow> (se_guard se' \<longleftrightarrow> se_miner se' \<noteq> None))
    \<and> (case session_new cfg uuid now w of (se0, w0) \<Rightarrow> \<not> se_guard se0 \<and> se_miner se0 = None \<and> w_open w0 = w_open w)"
proof -
  obtain fl1 se1 w1 where c: "(case ev of
        Line line \<Rightarrow> on_line lib cfg env (take MAX_STRATUM_LINE_BYTES line) se w
      | IdleTimeout \<Rightarrow> (CloseSession, se, w) | Eof \<Rightarrow> (CloseSession, se, w)
      | ReadError \<Rightarrow> (SessionErr ''read'', se, w)
      | NewJob job \<Rightarrow> if se_miner se \<noteq> None then push_job lib env job se w else (KeepOpen, se, w))
      = (fl1, se1, w1)" by (metis prod_cases3)
  have arm: "w_open wb - of_bool (se_guard sb) = w_open wa - of_bool (se_guard sa)"
    if "arm_guard sa wa = (sb, wb)" for sa sb and wa wb :: "('a, 'b) world"
    using that by (auto simp: arm_guard_def split: if_splits)
  have "w_open w1 - of_bool (se_guard se1) = w_open w - of_bool (se_guard se)"
  proof (cases ev)
    case (Line line)
    then show ?thesis using c
      by (auto simp: on_line_def split: if_splits option.splits prod.splits flow.splits
          dest!: handle_request_guard arm)
  next
    case (NewJob job)
    then show ?thesis using c
      by (auto simp: push_job_def split: if_splits exec.splits prod.splits dest!: write_msg_eq serve_job_guard)
  qed (use c in auto)
  moreover have "se_guard se1 \<longleftrightarrow> se_miner se1 \<noteq> None" if "se_guard se \<longleftrightarrow> se_miner se \<noteq> None" "fl1 = KeepOpen"
  proof (cases ev)
    case (Line line)
    have keep: "se_guard sb \<longleftrightarrow> se_miner sb \<noteq> None"
      if "handle_request lib cfg env req se w = (fa, sa, wa)" "arm_guard sa wa = (sb, wb)" for req fa sa sb wa wb
      using that \<open>se_guard se \<longleftrightarrow> se_miner se \<noteq> None\<close> handle_request_miner [OF that(1)] handle_request_guard [OF that(1)]
      by (cases "se_guard sa") (auto simp: arm_guard_def split: if_splits)
    show ?thesis using c Line that
      by (auto simp: on_line_def split: if_splits option.splits prod.splits flow.splits dest: keep)
  next
    case (NewJob job)
    then show ?thesis using c that push_job_session [of lib env job se w fl1 se1 w1] by (auto split: if_splits)
  qed (use c that in auto)
  moreover have "drop_guard (fl1, se1, w1) = (fl, se', w')" using assms c by (simp add: session_step_def)
  ultimately show ?thesis by (auto simp: drop_guard_def session_new_def split: if_splits)
qed

theorem session_gauge_balanced_witness:
  "w_open (snd (snd (session_step demo_libs demo_cfg demo_env Eof (demo_session\<lparr>se_guard := True\<rparr>)
      (demo_world\<lparr>w_open := 1\<rparr>)))) = 0"
proof -
  obtain fl se' w' where r: "session_step demo_libs demo_cfg demo_env Eof (demo_session\<lparr>se_guard := True\<rparr>)
      (demo_world\<lparr>w_open := 1\<rparr>) = (fl, se', w')" by (metis prod_cases3)
  then have "fl \<noteq> KeepOpen" by (auto simp: session_step_def drop_guard_def split: if_splits)
  with session_gauge_balanced [OF r] r show ?thesis by simp
qed

text \<open>A job served a second time (a second login, or the broadcast of a job the
  login already served) carries the target of the new difficulty, while its
  shares stay judged and credited at the first one.\<close>

lemma readvertised_at_another_difficulty:
  "(case serve_job hex_encode demo_env ((vi_job demo_input)\<lparr>upstream_diff := 100\<rparr>) demo_session of
      Returns (JObj kvs, se) \<Rightarrow>
        map_of kvs ''target'' = Some (JStr (diff_to_target_hex hex_encode 2)) \<and> check_diff ''a'' se = 1
    | _ \<Rightarrow> False)"
  by code_simp

end
