(* ===== verification/Upstream.thy ===== *)
theory Upstream
  imports Session Metrics Appd
begin

text \<open>
  \<open>stratum-proxy/src/upstream.rs\<close>: the client of the upstream pool. Sockets, TLS handshakes, the JSON
  text and SHA-256 are third-party code and parameters; a session is a run over the events its select
  loop sees, with the clocks and the outcome of each write. A line is what \<open>read_line\<close> returns.
\<close>

section \<open>Targets and pins\<close>

record UpstreamConfig =
  uc_url :: string
  uc_user :: string
  uc_password :: string
  uc_socks5h_proxy :: "string option"
  uc_tls_pin_sha256 :: "string option"

record Endpoint =
  ep_host :: string
  ep_port :: int
  ep_use_tls :: bool

definition split_scheme :: "string \<Rightarrow> bool \<times> string" where
  "split_scheme url =
     (if starts_with url ''stratum+ssl://'' then (True, drop 14 url)
      else if starts_with url ''stratum+tcp://'' then (False, drop 14 url)
      else if starts_with url ''ssl://'' then (True, drop 6 url)
      else if starts_with url ''tcp://'' then (False, drop 6 url)
      else (False, url))"

definition parse_endpoint :: "string \<Rightarrow> string + Endpoint" where
  "parse_endpoint url =
     (case split_scheme url of (use_tls, rest) \<Rightarrow>
        (case str_rfind rest CHR '':'' of
           None \<Rightarrow> Inl (''upstream url missing port: '' @ url)
         | Some i \<Rightarrow>
             (case parse_uint 65535 (drop (i + 1) rest) of
                None \<Rightarrow> Inl ''upstream port not a number''
              | Some port \<Rightarrow> Inr \<lparr>ep_host = take i rest, ep_port = port, ep_use_tls = use_tls\<rparr>)))"

text \<open>Characters that are neither white space nor a colon.\<close>

fun pin_chars :: "nat \<Rightarrow> string \<Rightarrow> string" where
  "pin_chars 0 s = []"
| "pin_chars (Suc n) [] = []"
| "pin_chars (Suc n) (c # s) =
     (case find (\<lambda>q. take (length q) (map of_char (c # s)) = q) ws_seqs of
        Some q \<Rightarrow> pin_chars n (drop (length q) (c # s))
      | None \<Rightarrow> if c = CHR '':'' then pin_chars n s else c # pin_chars n s)"

definition parse_fingerprint :: "hex_dec \<Rightarrow> string \<Rightarrow> u8 list option" where
  "parse_fingerprint dec s =
     (case dec (pin_chars (length s) s) of
        Inl _ \<Rightarrow> None
      | Inr bytes \<Rightarrow> if length bytes \<noteq> 32 then None else Some bytes)"

datatype CertVerifier = AcceptAny | Pinned "u8 list"

definition tls_connector :: "hex_dec \<Rightarrow> UpstreamConfig \<Rightarrow> string + CertVerifier" where
  "tls_connector dec cfg =
     (case uc_tls_pin_sha256 cfg of
        None \<Rightarrow> Inr AcceptAny
      | Some pin_hex \<Rightarrow>
          (case parse_fingerprint dec pin_hex of
             None \<Rightarrow> Inl (''tls_pin_sha256 not a 32-byte hex: '' @ pin_hex)
           | Some pin \<Rightarrow> Inr (Pinned pin)))"

definition verify_server_cert :: "(u8 list \<Rightarrow> u8 list) \<Rightarrow> CertVerifier \<Rightarrow> u8 list \<Rightarrow> bool" where
  "verify_server_cert sha256 v end_entity = (case v of AcceptAny \<Rightarrow> True | Pinned pin \<Rightarrow> sha256 end_entity = pin)"

section \<open>Backing off\<close>

definition RECONNECT_MAX_DELAY_MS :: u64 where "RECONNECT_MAX_DELAY_MS = 10000"
definition RECONNECT_BASE_DELAY_MS :: u64 where "RECONNECT_BASE_DELAY_MS = 500"
definition HEALTHY_SESSION_MS :: nat where "HEALTHY_SESSION_MS = 30000"

definition reconnect_delay :: "f64 \<Rightarrow> u32 \<Rightarrow> u64" where
  "reconnect_delay rnd01 consecutive_failures =
     (if consecutive_failures = 0 then 0
      else let e = min (sat_sub consecutive_failures 1) 30;
               raw_ms = sat_mul RECONNECT_BASE_DELAY_MS (push_bit (unat e) 1);
               capped_ms = min raw_ms RECONNECT_MAX_DELAY_MS;
               jitter = fadd (f64_round (8 / 10)) (fmul (f64_round (4 / 10)) rnd01);
               jittered = f64_to_word (fmul (f64_of_word capped_ms) jitter)
           in max jittered 50)"

section \<open>A session\<close>

definition get_job_str :: "string \<Rightarrow> json \<Rightarrow> string option" where
  "get_job_str k p = Option.bind (json_get k p) as_str"

definition parse_job :: "hex_dec \<Rightarrow> json \<Rightarrow> UpstreamJob option" where
  "parse_job dec p =
     (case get_job_str ''job_id'' p of None \<Rightarrow> None | Some jid \<Rightarrow>
     (case get_job_str ''blob'' p of None \<Rightarrow> None | Some blob \<Rightarrow>
      let seed = (case get_job_str ''seed_hash'' p of Some s \<Rightarrow> s | None \<Rightarrow> [])
      in case get_job_str ''target'' p of None \<Rightarrow> None | Some target \<Rightarrow>
           Some \<lparr>job_id = jid, blob_hex = blob, seed_hex = seed, upstream_target_hex = target,
                 upstream_diff = (case target_hex_to_diff dec target of Inl _ \<Rightarrow> 1 | Inr d \<Rightarrow> d),
                 height = Option.bind (json_get ''height'' p) as_u64\<rparr>))"

definition login_request :: "UpstreamConfig \<Rightarrow> Request" where
  "login_request cfg =
     \<lparr>req_id = JNum 1, req_jsonrpc = Some ''2.0'', req_method = ''login'',
      req_params = JObj [(''login'', JStr (uc_user cfg)), (''pass'', JStr (uc_password cfg)), (''agent'', JStr ''tiny-pool/0.1'')]\<rparr>"

definition submit_request :: "UpstreamSubmit \<Rightarrow> Request" where
  "submit_request s =
     \<lparr>req_id = JStr (''submit:'' @ us_job_id s), req_jsonrpc = Some ''2.0'', req_method = ''submit'',
      req_params = JObj [(''id'', JStr []), (''job_id'', JStr (us_job_id s)), (''nonce'', JStr (us_nonce_hex s)), (''result'', JStr (us_result_hex s))]\<rparr>"

record up_state =
  up_session_id :: string
  up_jobs :: JobStore
  up_metrics :: Metrics
  up_sent :: "Request list"

datatype up_event = UpLine string | UpEof | UpReadError | UpSubmit UpstreamSubmit

datatype up_flow = UpGo | UpFail string

text \<open>\<open>ErrorObj\<close> as serde reads it, from an object or from an array in field order.\<close>

definition read_error_obj :: "json \<Rightarrow> ErrorObj" where
  "read_error_obj err =
     (let fields = (case err of
          JObj kv \<Rightarrow> (map_of kv ''code'', map_of kv ''message'')
        | JArr [c, m] \<Rightarrow> (Some c, Some m)
        | _ \<Rightarrow> (None, None))
      in case fields of
           (Some (JNum c), Some (JStr msg)) \<Rightarrow>
             if - (2 ^ 31) \<le> c \<and> c < 2 ^ 31 then \<lparr>err_code = c, err_message = msg\<rparr>
             else \<lparr>err_code = -1, err_message = ''login failed''\<rparr>
         | _ \<Rightarrow> \<lparr>err_code = -1, err_message = ''login failed''\<rparr>)"

definition publish_from :: "hex_dec \<Rightarrow> nat \<Rightarrow> json option \<Rightarrow> up_state \<Rightarrow> up_state" where
  "publish_from dec now p st =
     (case Option.bind p (parse_job dec) of None \<Rightarrow> st | Some job \<Rightarrow> st\<lparr>up_jobs := publish job now (up_jobs st)\<rparr>)"

definition on_login_result :: "hex_dec \<Rightarrow> nat \<Rightarrow> int \<Rightarrow> json \<Rightarrow> up_state \<Rightarrow> up_state" where
  "on_login_result dec now ms result st =
     (let st1 = st\<lparr>up_metrics := mark_upstream_connected ms (up_metrics st)\<rparr>;
          st2 = (case get_job_str ''id'' result of Some i \<Rightarrow> st1\<lparr>up_session_id := i\<rparr> | None \<Rightarrow> st1)
      in publish_from dec now (json_get ''job'' result) st2)"

definition is_submit_id :: "json option \<Rightarrow> bool" where
  "is_submit_id v = (case Option.bind v as_str of Some s \<Rightarrow> starts_with s ''submit:'' | None \<Rightarrow> False)"

definition on_up_message :: "hex_dec \<Rightarrow> nat \<Rightarrow> int \<Rightarrow> json \<Rightarrow> up_state \<Rightarrow> up_flow \<times> up_state" where
  "on_up_message dec now ms v st =
     (if Option.bind (json_get ''method'' v) as_str = Some ''job'' then
        (UpGo, publish_from dec now (json_get ''params'' v) st)
      else if json_get ''id'' v = Some (JNum 1) then
        (case json_get ''result'' v of
           Some result \<Rightarrow> (UpGo, on_login_result dec now ms result st)
         | None \<Rightarrow>
             (case json_get ''error'' v of
                Some err \<Rightarrow>
                  let e = read_error_obj err
                  in (UpFail (''upstream login failed: '' @ show_int (err_code e) @ '' '' @ err_message e), st)
              | None \<Rightarrow> (UpGo, st)))
      else if is_submit_id (json_get ''id'' v) then
        (if \<not> (json_get ''error'' v = None \<or> json_get ''error'' v = Some JNull)
         then (UpGo, st\<lparr>up_metrics := record_upstream_submit_reject (up_metrics st)\<rparr>)
         else if json_get ''result'' v \<noteq> None
         then (UpGo, st\<lparr>up_metrics := record_upstream_submit_accept (up_metrics st)\<rparr>)
         else (UpGo, st))
      else (UpGo, st))"

definition up_step :: "hex_dec \<Rightarrow> (string \<Rightarrow> json option) \<Rightarrow> nat \<times> int \<times> bool \<Rightarrow> up_event \<Rightarrow> up_state \<Rightarrow> up_flow \<times> up_state" where
  "up_step dec from_json tick ev st =
     (case tick of (now, ms, wrote) \<Rightarrow>
        (case ev of
           UpEof \<Rightarrow> (UpFail ''upstream closed'', st)
         | UpReadError \<Rightarrow> (UpFail ''read'', st)
         | UpLine line \<Rightarrow>
             (case from_json (str_trim line) of None \<Rightarrow> (UpGo, st) | Some v \<Rightarrow> on_up_message dec now ms v st)
         | UpSubmit s \<Rightarrow>
             if wrote then (UpGo, st\<lparr>up_sent := up_sent st @ [submit_request s]\<rparr>) else (UpFail ''write'', st)))"

fun up_loop :: "hex_dec \<Rightarrow> (string \<Rightarrow> json option) \<Rightarrow> ((nat \<times> int \<times> bool) \<times> up_event) list \<Rightarrow> up_state \<Rightarrow> string option \<times> up_state" where
  "up_loop dec from_json [] st = (None, st)"
| "up_loop dec from_json ((tick, ev) # evs) st =
     (case up_step dec from_json tick ev st of
        (UpGo, st') \<Rightarrow> up_loop dec from_json evs st'
      | (UpFail e, st') \<Rightarrow> (Some e, st'))"

definition run_session_io :: "hex_dec \<Rightarrow> (string \<Rightarrow> json option) \<Rightarrow> bool \<Rightarrow> UpstreamConfig \<Rightarrow>
    ((nat \<times> int \<times> bool) \<times> up_event) list \<Rightarrow> JobStore \<Rightarrow> Metrics \<Rightarrow> string option \<times> up_state" where
  "run_session_io dec from_json login_ok cfg evs jobs mx =
     (let st = \<lparr>up_session_id = [], up_jobs = jobs, up_metrics = mx, up_sent = []\<rparr>
      in if \<not> login_ok then (Some ''write'', st)
         else up_loop dec from_json evs (st\<lparr>up_sent := [login_request cfg]\<rparr>))"

section \<open>Connecting\<close>

text \<open>The peer of one attempt: whether the dial succeeds, what its TLS handshake presents, and the
  events of the session.\<close>

record up_peer =
  pr_dial :: "string option \<Rightarrow> Endpoint \<Rightarrow> bool"
  pr_name_ok :: "string \<Rightarrow> bool"
  pr_cert :: "u8 list option"
  pr_login_ok :: bool
  pr_events :: "((nat \<times> int \<times> bool) \<times> up_event) list"
  pr_elapsed_ms :: nat
  pr_end_ms :: int
  pr_random :: f64

fun trim_start_str :: "nat \<Rightarrow> string \<Rightarrow> string \<Rightarrow> string" where
  "trim_start_str 0 pat s = s"
| "trim_start_str (Suc n) pat s = (if starts_with s pat then trim_start_str n pat (drop (length pat) s) else s)"

definition proxy_addr :: "string \<Rightarrow> string" where
  "proxy_addr url = (let a = trim_start_str (length url) ''socks5h://'' url in trim_start_str (length a) ''socks5://'' a)"

definition try_session :: "hex_dec \<Rightarrow> (string \<Rightarrow> json option) \<Rightarrow> (u8 list \<Rightarrow> u8 list) \<Rightarrow> UpstreamConfig \<Rightarrow> up_peer \<Rightarrow>
    JobStore \<Rightarrow> Metrics \<Rightarrow> string option \<times> up_state" where
  "try_session dec from_json sha256 cfg peer jobs mx =
     (let idle = \<lparr>up_session_id = [], up_jobs = jobs, up_metrics = mx, up_sent = []\<rparr>;
          go = run_session_io dec from_json (pr_login_ok peer) cfg (pr_events peer) jobs mx
      in case parse_endpoint (uc_url cfg) of
           Inl e \<Rightarrow> (Some e, idle)
         | Inr ep \<Rightarrow>
             if \<not> pr_dial peer (map_option proxy_addr (uc_socks5h_proxy cfg)) ep then (Some ''connect'', idle)
             else if \<not> ep_use_tls ep then go
             else case tls_connector dec cfg of
                    Inl e \<Rightarrow> (Some e, idle)
                  | Inr v \<Rightarrow>
                      if \<not> pr_name_ok peer (ep_host ep) then (Some ''bad TLS server name'', idle)
                      else case pr_cert peer of
                             None \<Rightarrow> (Some ''TLS handshake'', idle)
                           | Some cert \<Rightarrow> if verify_server_cert sha256 v cert then go else (Some ''TLS handshake'', idle))"

text \<open>One turn of \<open>run_loop\<close>: the state after it and the delay before the next.\<close>

definition run_turn :: "hex_dec \<Rightarrow> (string \<Rightarrow> json option) \<Rightarrow> (u8 list \<Rightarrow> u8 list) \<Rightarrow> UpstreamConfig \<Rightarrow> up_peer \<Rightarrow>
    JobStore \<times> Metrics \<Rightarrow> u64 \<times> JobStore \<times> Metrics" where
  "run_turn dec from_json sha256 cfg peer w =
     (case w of (jobs, mx) \<Rightarrow>
      case try_session dec from_json sha256 cfg peer jobs mx of (_, st) \<Rightarrow>
      case mark_upstream_disconnected (pr_end_ms peer) (up_metrics st) of (was_connected, m1) \<Rightarrow>
      case (if was_connected \<and> HEALTHY_SESSION_MS \<le> pr_elapsed_ms peer
            then (1, m1\<lparr>upstream_consecutive_failures := 1\<rparr>) else record_upstream_failure m1) of (failures, m2) \<Rightarrow>
        (reconnect_delay (pr_random peer) failures, up_jobs st, m2))"

section \<open>What a session does\<close>

definition submits :: "((nat \<times> int \<times> bool) \<times> up_event) list \<Rightarrow> UpstreamSubmit list" where
  "submits evs = List.map_filter (\<lambda>(_, e). case e of UpSubmit s \<Rightarrow> Some s | _ \<Rightarrow> None) evs"

definition messages :: "(string \<Rightarrow> json option) \<Rightarrow> ((nat \<times> int \<times> bool) \<times> up_event) list \<Rightarrow> json list" where
  "messages from_json evs = List.map_filter (\<lambda>(_, e). case e of UpLine l \<Rightarrow> from_json (str_trim l) | _ \<Rightarrow> None) evs"

text \<open>The messages of the protocol: a job notification, a reply to the login, a reply to a submit.\<close>

definition notifies_job :: "json \<Rightarrow> bool" where
  "notifies_job v \<longleftrightarrow> get_str ''method'' v = Some ''job''"

definition login_accepted :: "json \<Rightarrow> bool" where
  "login_accepted v \<longleftrightarrow> \<not> notifies_job v \<and> json_get ''id'' v = Some (JNum 1) \<and> json_get ''result'' v \<noteq> None"

definition login_refused :: "json \<Rightarrow> bool" where
  "login_refused v \<longleftrightarrow>
     \<not> notifies_job v \<and> json_get ''id'' v = Some (JNum 1) \<and> json_get ''result'' v = None \<and> json_get ''error'' v \<noteq> None"

definition share_refused :: "json \<Rightarrow> bool" where
  "share_refused v \<longleftrightarrow> \<not> notifies_job v \<and> is_submit_id (json_get ''id'' v) \<and> json_get ''error'' v \<notin> {None, Some JNull}"

definition share_taken :: "json \<Rightarrow> bool" where
  "share_taken v \<longleftrightarrow> \<not> notifies_job v \<and> is_submit_id (json_get ''id'' v) \<and>
     json_get ''error'' v \<in> {None, Some JNull} \<and> json_get ''result'' v \<noteq> None"

text \<open>The job a message carries: a notification's parameters, or the job of a login result.\<close>

definition job_in :: "hex_dec \<Rightarrow> json \<Rightarrow> UpstreamJob option" where
  "job_in dec v =
     (if notifies_job v then Option.bind (json_get ''params'' v) (parse_job dec)
      else if login_accepted v then
        Option.bind (Option.bind (json_get ''result'' v) (json_get ''job'')) (parse_job dec)
      else None)"

text \<open>The share a request submits, read from its fields, and the events that end a session.\<close>

definition share_of :: "Request \<Rightarrow> UpstreamSubmit option" where
  "share_of r =
     (case (get_str ''job_id'' (req_params r), get_str ''nonce'' (req_params r), get_str ''result'' (req_params r)) of
        (Some j, Some n, Some x) \<Rightarrow>
          if req_method r = ''submit'' \<and> req_id r = JStr (''submit:'' @ j)
          then Some \<lparr>us_job_id = j, us_nonce_hex = n, us_result_hex = x\<rparr> else None
      | _ \<Rightarrow> None)"

fun ends_session :: "(string \<Rightarrow> json option) \<Rightarrow> (nat \<times> int \<times> bool) \<times> up_event \<Rightarrow> bool" where
  "ends_session from_json (_, UpEof) = True"
| "ends_session from_json (_, UpReadError) = True"
| "ends_session from_json ((_, _, wrote), UpSubmit s) = (\<not> wrote)"
| "ends_session from_json (_, UpLine l) = (case from_json (str_trim l) of None \<Rightarrow> False | Some v \<Rightarrow> login_refused v)"

text \<open>What a session that saw the events \<open>evs\<close> has done to the state it began in.\<close>

definition session_did :: "hex_dec \<Rightarrow> (string \<Rightarrow> json option) \<Rightarrow> ((nat \<times> int \<times> bool) \<times> up_event) list \<Rightarrow>
    up_state \<Rightarrow> up_state \<Rightarrow> bool" where
  "session_did dec from_json evs st st' \<longleftrightarrow>
     (let ms = messages from_json evs
      in up_sent st' = up_sent st @ map submit_request (submits evs) \<and>
         tx_log (up_jobs st') = tx_log (up_jobs st) @ List.map_filter (job_in dec) ms \<and>
         upstream_connected (up_metrics st') = (upstream_connected (up_metrics st) \<or> list_ex login_accepted ms) \<and>
         upstream_submit_accepts_total (up_metrics st') =
           upstream_submit_accepts_total (up_metrics st) + of_nat (length (filter share_taken ms)) \<and>
         upstream_submit_rejects_total (up_metrics st') =
           upstream_submit_rejects_total (up_metrics st) + of_nat (length (filter share_refused ms)))"

lemma publish_tx_log [simp]: "tx_log (publish job now st) = tx_log st @ [job]"
  by (simp add: publish_def)

lemma share_of_submit: "share_of (submit_request s) = Some s"
  by (simp add: share_of_def submit_request_def get_str_def json_get_def as_str_def)

lemma publish_from_effect:
  "up_sent (publish_from dec now p st) = up_sent st"
  "up_metrics (publish_from dec now p st) = up_metrics st"
  "tx_log (up_jobs (publish_from dec now p st)) = tx_log (up_jobs st) @ List.map_filter id [Option.bind p (parse_job dec)]"
  by (simp_all add: publish_from_def List.map_filter_def split: option.split)

lemma on_login_result_effect:
  "up_sent (on_login_result dec now ms result st) = up_sent st"
  "up_metrics (on_login_result dec now ms result st) = mark_upstream_connected ms (up_metrics st)"
  "tx_log (up_jobs (on_login_result dec now ms result st)) =
     tx_log (up_jobs st) @ List.map_filter id [Option.bind (json_get ''job'' result) (parse_job dec)]"
  by (simp_all add: on_login_result_def Let_def publish_from_effect split: option.split)

lemmas message_kinds = notifies_job_def login_accepted_def login_refused_def share_refused_def share_taken_def
  job_in_def is_submit_id_def get_str_def as_str_def List.map_filter_def

lemma mark_upstream_connected_effect:
  "upstream_connected (mark_upstream_connected ms m)"
  "upstream_submit_accepts_total (mark_upstream_connected ms m) = upstream_submit_accepts_total m"
  "upstream_submit_rejects_total (mark_upstream_connected ms m) = upstream_submit_rejects_total m"
  by (simp_all add: mark_upstream_connected_def Let_def)

lemma up_step_line:
  assumes "from_json (str_trim l) = Some v" "messages from_json [(tick, UpLine l)] = [v]" "tick = (now, ms, wr)"
  shows "session_did dec from_json [(tick, UpLine l)] st (snd (on_up_message dec now ms v st))"
    and "fst (on_up_message dec now ms v st) = UpGo \<longleftrightarrow> \<not> login_refused v"
proof -
  have sub: "submits [(tick, UpLine l)] = []" by (simp add: submits_def List.map_filter_def)
  consider (job) "notifies_job v" | (login) "\<not> notifies_job v" "json_get ''id'' v = Some (JNum 1)"
    | (other) "\<not> notifies_job v" "json_get ''id'' v \<noteq> Some (JNum 1)" by blast
  then show "session_did dec from_json [(tick, UpLine l)] st (snd (on_up_message dec now ms v st))"
  proof cases
    case job
    then show ?thesis unfolding session_did_def assms(2) sub
      by (simp add: on_up_message_def message_kinds publish_from_effect)
  next
    case login
    then show ?thesis unfolding session_did_def assms(2) sub
      by (simp add: on_up_message_def message_kinds on_login_result_effect mark_upstream_connected_effect Let_def split: option.split)
  next
    case other
    then show ?thesis unfolding session_did_def assms(2) sub
      by (auto simp: on_up_message_def message_kinds record_upstream_submit_reject_def record_upstream_submit_accept_def)
  qed
  show "fst (on_up_message dec now ms v st) = UpGo \<longleftrightarrow> \<not> login_refused v"
    by (auto simp: on_up_message_def message_kinds Let_def split: option.splits)
qed

lemma up_step_effect:
  assumes "up_step dec from_json tick ev st = (f, st')"
  shows "f = UpGo \<longleftrightarrow> \<not> ends_session from_json (tick, ev)"
    and "f = UpGo \<Longrightarrow> session_did dec from_json [(tick, ev)] st st'"
proof -
  obtain now ms wr where t: "tick = (now, ms, wr)" by (cases tick)
  have "(f = UpGo \<longleftrightarrow> \<not> ends_session from_json (tick, ev)) \<and> (f = UpGo \<longrightarrow> session_did dec from_json [(tick, ev)] st st')"
  proof (cases ev)
    case (UpLine l)
    show ?thesis
    proof (cases "from_json (str_trim l)")
      case None
      then show ?thesis using assms UpLine t
        by (auto simp: up_step_def session_did_def submits_def messages_def List.map_filter_def)
    next
      case (Some v)
      then have r: "on_up_message dec now ms v st = (f, st')" using assms UpLine t by (simp add: up_step_def)
      have "messages from_json [(tick, UpLine l)] = [v]" using Some by (simp add: messages_def List.map_filter_def)
      from up_step_line [where dec = dec and st = st, OF Some this t] show ?thesis unfolding r UpLine t using Some by simp
    qed
  qed (use assms t in \<open>auto simp: up_step_def session_did_def submits_def messages_def List.map_filter_def split: if_splits\<close>)
  then show "f = UpGo \<longleftrightarrow> \<not> ends_session from_json (tick, ev)"
    "f = UpGo \<Longrightarrow> session_did dec from_json [(tick, ev)] st st'" by simp_all
qed

lemma up_step_fail: "up_step dec from_json tick ev st = (UpFail e, st') \<Longrightarrow> st' = st"
  by (auto simp: up_step_def on_up_message_def Let_def split: prod.splits up_event.splits if_splits option.splits)

lemma map_filter_app: "List.map_filter f (xs @ ys) = List.map_filter f xs @ List.map_filter f ys"
  by (simp add: List.map_filter_def)

lemma session_did_Nil: "session_did dec from_json [] st st"
  by (simp add: session_did_def submits_def messages_def List.map_filter_def)

lemma session_did_trans:
  assumes "session_did dec from_json xs st st1" "session_did dec from_json ys st1 st2"
  shows "session_did dec from_json (xs @ ys) st st2"
proof -
  have "submits (xs @ ys) = submits xs @ submits ys" "messages from_json (xs @ ys) = messages from_json xs @ messages from_json ys"
    unfolding submits_def messages_def by (rule map_filter_app)+
  then show ?thesis using assms by (auto simp: session_did_def Let_def map_filter_app)
qed

lemma up_loop_effect:
  "up_loop dec from_json evs st = (e, st') \<Longrightarrow>
   let (pre, post) = (takeWhile (\<lambda>x. \<not> ends_session from_json x) evs, dropWhile (\<lambda>x. \<not> ends_session from_json x) evs)
   in (e = None \<longleftrightarrow> post = []) \<and> session_did dec from_json pre st st'"
proof (induction evs arbitrary: st)
  case Nil
  then show ?case by (simp add: session_did_Nil)
next
  case (Cons x evs)
  obtain tick ev where x: "x = (tick, ev)" by (cases x)
  obtain f st1 where s: "up_step dec from_json tick ev st = (f, st1)" by (cases "up_step dec from_json tick ev st")
  show ?case
  proof (cases f)
    case UpGo
    then have "up_loop dec from_json evs st1 = (e, st')" using Cons.prems x s by simp
    from Cons.IH [OF this] session_did_trans [OF up_step_effect(2) [OF s UpGo]] up_step_effect(1) [OF s] UpGo
    show ?thesis unfolding x by (auto simp: Let_def)
  next
    case (UpFail err)
    then have "e = Some err" "st' = st1" using Cons.prems x s by simp_all
    then show ?thesis using up_step_fail [OF s [unfolded UpFail]] up_step_effect(1) [OF s] UpFail unfolding x
      by (simp add: session_did_Nil)
  qed
qed

lemma try_session_cases:
  assumes "try_session dec from_json sha256 cfg peer jobs mx = (e, st)"
  obtains (idle) err where "e = Some err" "st = \<lparr>up_session_id = [], up_jobs = jobs, up_metrics = mx, up_sent = []\<rparr>"
  | (login) ep where "parse_endpoint (uc_url cfg) = Inr ep" "pr_dial peer (map_option proxy_addr (uc_socks5h_proxy cfg)) ep"
      "up_loop dec from_json (pr_events peer)
         \<lparr>up_session_id = [], up_jobs = jobs, up_metrics = mx, up_sent = [login_request cfg]\<rparr> = (e, st)"
      "ep_use_tls ep \<Longrightarrow> \<exists>cert. pr_cert peer = Some cert \<and>
         (\<forall>pin. uc_tls_pin_sha256 cfg = Some pin \<longrightarrow> parse_fingerprint dec pin = Some (sha256 cert))"
  using assms by (auto simp: try_session_def run_session_io_def Let_def tls_connector_def verify_server_cert_def
      split: if_splits option.splits sum.splits)

lemma fadd_mono: "fle a b \<Longrightarrow> fle (fadd (Fin c) a) (fadd (Fin c) b)"
  by (cases a; cases b) (auto simp: f64_round_mono)

lemma reconnect_delay_bounds:
  assumes "n \<noteq> 0" "fle r (Fin 1)" "fle (Fin 0) r"
  shows "50 \<le> reconnect_delay r n \<and> reconnect_delay r n \<le> 12000"
proof -
  define capped where "capped = min (sat_mul RECONNECT_BASE_DELAY_MS (push_bit (unat (min (sat_sub n 1) 30)) 1)) RECONNECT_MAX_DELAY_MS"
  let ?j = "fadd (f64_round (8 / 10)) (fmul (f64_round (4 / 10)) r)"
  have a: "f64_round (4 / 10) = Fin (3602879701896397 / 9007199254740992)"
    "f64_round (8 / 10) = Fin (3602879701896397 / 4503599627370496)"
    "fadd (f64_round (8 / 10)) (fmul (f64_round (4 / 10)) (Fin 1)) = Fin (1351079888211149 / 1125899906842624)"
    "fadd (f64_round (8 / 10)) (fmul (f64_round (4 / 10)) (Fin 0)) = Fin (3602879701896397 / 4503599627370496)" by code_simp+
  have "fle (fmul (f64_round (4 / 10)) r) (fmul (f64_round (4 / 10)) (Fin 1))" unfolding a by (rule fmul_mono) (simp_all add: assms(2))
  then have j: "fle ?j (Fin (1351079888211149 / 1125899906842624))" using fadd_mono unfolding a(2) by (metis a(2,3))
  have "fle (fadd (f64_round (8 / 10)) (fmul (f64_round (4 / 10)) (Fin 0))) ?j"
    unfolding a(1,2) by (intro fadd_mono fmul_mono) (simp_all add: assms(3))
  then have j0: "?j \<noteq> NInf" using a(4) by (cases ?j) auto
  have "capped \<le> 10000" unfolding capped_def RECONNECT_MAX_DELAY_MS_def by (rule min.cobounded2)
  then have c: "uint capped \<le> 10000" by (simp add: word_le_def)
  then have k: "f64_of_word capped = Fin (of_int (uint capped))"
    using uint_ge_0 [of capped] by (simp add: f64_of_word_def f64_of_int_exact)
  have b: "fle (fmul (f64_of_word capped) ?j) (Fin (24001 / 2))"
  proof (cases "uint capped = 0")
    case True
    then show ?thesis unfolding k using j j0 by (cases ?j) (auto simp: fsgn_def finf_def f64_round_id repr_zero)
  next
    case False
    then have pos: "0 < (of_int (uint capped) :: rat)" using uint_ge_0 [of capped] by (simp only: of_int_0_less_iff order_le_less) simp
    then have "fle (fmul (f64_of_word capped) ?j) (fmul (f64_of_word capped) (Fin (1351079888211149 / 1125899906842624)))"
      unfolding k using pos j by (intro fmul_mono)
    moreover have "fle (fmul (f64_of_word capped) (Fin (1351079888211149 / 1125899906842624))) (Fin (24001 / 2))"
    proof -
      have top: "f64_round (24001 / 2) = Fin (24001 / 2)" by code_simp
      have "(of_int (uint capped) :: rat) \<le> of_int 10000" using c by (simp only: of_int_le_iff)
      then have "of_int (uint capped) * (1351079888211149 / 1125899906842624) \<le> (24001 / 2 :: rat)" by simp
      from f64_round_mono [OF this] show ?thesis unfolding k top by simp
    qed
    ultimately show ?thesis by (rule fle_trans)
  qed
  have top: "f64_to_word (Fin (24001 / 2)) = (12000 :: u64)" by code_simp
  have "f64_to_word (fmul (f64_of_word capped) ?j) \<le> (12000 :: u64)"
    using f64_to_word_mono [OF b, where 'a = 64] unfolding top .
  then show ?thesis using assms(1) unfolding reconnect_delay_def Let_def capped_def [symmetric] by simp
qed


section \<open>Properties\<close>

text \<open>C40: A connection attempt to the upstream either fails before the login is written and changes
  nothing, or runs a session on a link to the configured endpoint, dialled through the configured proxy,
  where a TLS peer with a configured pin presented a certificate with that fingerprint. The session ends at the first
  end of input, failed read, failed write or refused login, and at nothing else. Before that it wrote the
  login and then exactly one submit for each share forwarded to it, in order, whose fields give back that
  share's job, nonce and result. It published exactly the jobs in the messages read, in order; the upstream
  counts as connected once a login reply with a result was read; and the counters of taken and refused shares
  grew by the number of such replies to submits, modulo 2^64. The session id of a submit is outside the
  property: it is always empty (submit_without_session_id).\<close>

theorem upstream_session_forwards:
  assumes "try_session dec from_json sha256 cfg peer jobs mx = (e, st)"
  shows "(e \<noteq> None \<and> up_sent st = [] \<and> up_jobs st = jobs \<and> up_metrics st = mx) \<or>
    (\<exists>ep. parse_endpoint (uc_url cfg) = Inr ep \<and> pr_dial peer (map_option proxy_addr (uc_socks5h_proxy cfg)) ep \<and>
      (ep_use_tls ep \<longrightarrow> (\<exists>cert. pr_cert peer = Some cert \<and>
         (\<forall>pin. uc_tls_pin_sha256 cfg = Some pin \<longrightarrow> parse_fingerprint dec pin = Some (sha256 cert)))) \<and>
      (let seen = takeWhile (\<lambda>x. \<not> ends_session from_json x) (pr_events peer); ms = messages from_json seen
       in (e = None \<longleftrightarrow> seen = pr_events peer) \<and>
          (\<exists>reqs. up_sent st = login_request cfg # reqs \<and> map share_of reqs = map Some (submits seen)) \<and>
          tx_log (up_jobs st) = tx_log jobs @ List.map_filter (job_in dec) ms \<and>
          upstream_connected (up_metrics st) = (upstream_connected mx \<or> list_ex login_accepted ms) \<and>
          upstream_submit_accepts_total (up_metrics st) =
            upstream_submit_accepts_total mx + of_nat (length (filter share_taken ms)) \<and>
          upstream_submit_rejects_total (up_metrics st) =
            upstream_submit_rejects_total mx + of_nat (length (filter share_refused ms))))"
  using assms
proof (cases rule: try_session_cases)
  case (login ep)
  have eq: "dropWhile P xs = [] \<longleftrightarrow> takeWhile P xs = xs" for P and xs :: "((nat \<times> int \<times> bool) \<times> up_event) list"
    by (metis append_Nil2 append_self_conv takeWhile_dropWhile_id)
  show ?thesis using up_loop_effect [OF login(3)] login(1,2,4)
    by (simp add: Let_def session_did_def share_of_submit comp_def eq)
qed simp

theorem upstream_session_forwards_witness:
  "let s = \<lparr>us_job_id = ''7'', us_nonce_hex = ''00000000'', us_result_hex = []\<rparr>;
       cfg = \<lparr>uc_url = ''host:1'', uc_user = ''u'', uc_password = ''x'', uc_socks5h_proxy = None, uc_tls_pin_sha256 = None\<rparr>;
       peer = \<lparr>pr_dial = (\<lambda>_ _. True), pr_name_ok = (\<lambda>_. True), pr_cert = None, pr_login_ok = True,
         pr_events = [((0, 0, True), UpSubmit s), ((1, 1, True), UpEof)], pr_elapsed_ms = 1, pr_end_ms = 1, pr_random = Fin 0\<rparr>;
       st = snd (try_session (\<lambda>_. Inl OddLength) (\<lambda>_. None) id cfg peer JobStore_new (Metrics_new 0))
   in up_sent st \<noteq> [] \<and> (\<exists>reqs. up_sent st = login_request cfg # reqs \<and> map share_of reqs = [Some s])"
proof -
  let ?s = "\<lparr>us_job_id = ''7'', us_nonce_hex = ''00000000'', us_result_hex = []\<rparr>"
  let ?cfg = "\<lparr>uc_url = ''host:1'', uc_user = ''u'', uc_password = ''x'', uc_socks5h_proxy = None, uc_tls_pin_sha256 = None\<rparr>"
  let ?peer = "\<lparr>pr_dial = (\<lambda>_ _. True), pr_name_ok = (\<lambda>_. True), pr_cert = None, pr_login_ok = True,
    pr_events = [((0, 0, True), UpSubmit ?s), ((1, 1, True), UpEof)], pr_elapsed_ms = 1, pr_end_ms = 1, pr_random = Fin 0\<rparr>"
  have ep: "parse_endpoint (uc_url ?cfg) = Inr \<lparr>ep_host = ''host'', ep_port = 1, ep_use_tls = False\<rparr>" by code_simp
  have "up_sent (snd (try_session (\<lambda>_. Inl OddLength) (\<lambda>_. None) id ?cfg ?peer JobStore_new (Metrics_new 0))) \<noteq> []"
    unfolding try_session_def ep by (simp add: run_session_io_def up_step_def)
  then show ?thesis
    using upstream_session_forwards [of "\<lambda>_. Inl OddLength" "\<lambda>_. None" id ?cfg ?peer JobStore_new "Metrics_new 0", OF prod.collapse [symmetric]]
    unfolding Let_def by (auto simp: submits_def List.map_filter_def)
qed

section \<open>Boundaries\<close>

text \<open>An eight-byte target above the 32-bit range, which every difficulty below \<open>2 ^ 32\<close> has, is read
  as difficulty 0; and a submit never carries the session id the login returned.\<close>

lemma wide_target_zero_difficulty:
  assumes "dec t = Inr bytes" "length bytes = 8" "ucast u32_MAX < u64_from_le_bytes bytes"
  shows "target_hex_to_diff dec t = Inr 0"
proof -
  have "unat (u64_from_le_bytes bytes) > unat (ucast u32_MAX :: u64)" using assms(3) by (simp add: word_less_nat_alt)
  moreover have "(1 :: u64) < ucast u32_MAX" by code_simp
  then have "1 < u64_from_le_bytes bytes" using assms(3) by (rule less_trans)
  then have "max (u64_from_le_bytes bytes) 1 = u64_from_le_bytes bytes" "u64_from_le_bytes bytes \<noteq> 0"
    by (auto simp: max_def)
  ultimately show ?thesis using assms(1,2)
    by (simp add: target_hex_to_diff_def Let_def word_unat_eq_iff unat_div)
qed

lemma submit_without_session_id: "json_get ''id'' (req_params (submit_request s)) = Some (JStr [])"
  by (simp add: submit_request_def json_get_def)

end
