(* ===== verification/Oracle.thy ===== *)
theory Oracle
  imports Appd
begin

text \<open>
  \<open>crossroads-oracle/src\<close>: the block-hash oracle. HTTP requests to the committee, contract reads, DNS,
  URL and hash parsing, Keccak and ECDSA are third-party code and parameters; a run of the server sees
  fresh answers of each at every request.
\<close>

section \<open>Reports\<close>

record Settings =
  os_sapphire_chain_id :: u64
  os_registry :: "u8 list"
  os_max_source_rpcs :: nat
  os_rate_limit_per_sec :: u32
  os_global_rate_limit_per_sec :: u32
  os_report_ttl_secs :: u64
  os_allow_signer_rotation :: bool

record OracleInfo =
  oi_source_chain_id :: u64
  oi_min_confirmations :: u64
  oi_mandate_finalized :: bool
  oi_rpc_urls :: "string list"
  oi_quorum :: nat

record BlockHashReport =
  br_source_chain_id :: u64
  br_block_number :: u64
  br_block_hash :: "u8 list"
  br_required_confirmations :: u64
  br_observed_confirmations :: u64
  br_quorum_tip :: u64
  br_observed_quorum :: u64
  br_require_finalized :: bool
  br_finalized_block_number :: u64
  br_expires_at :: u64
  br_signer_epoch :: u64

text \<open>A 64-bit value as a 32-byte big-endian word.\<close>

definition word32 :: "u64 \<Rightarrow> u8 list" where
  "word32 v = replicate 24 0 @ map (\<lambda>i. ucast (drop_bit (8 * i) v)) (rev [0..<8])"

definition BLOCK_HASH_DOMAIN :: "u8 list" where
  "BLOCK_HASH_DOMAIN = map of_char ''CROSSROADS_EVM_BLOCK_HASH_V1''"

definition report_preimage :: "(u8 list \<Rightarrow> u8 list) \<Rightarrow> u64 \<Rightarrow> u8 list \<Rightarrow> BlockHashReport \<Rightarrow> u8 list" where
  "report_preimage keccak chain_id orc r =
     keccak BLOCK_HASH_DOMAIN @ word32 chain_id @ (replicate 12 0 @ orc) @ word32 (br_source_chain_id r) @
     word32 (br_block_number r) @ br_block_hash r @ word32 (br_required_confirmations r) @
     word32 (br_observed_confirmations r) @ word32 (br_quorum_tip r) @ word32 (br_observed_quorum r) @
     (replicate 31 0 @ [if br_require_finalized r then 1 else 0]) @ word32 (br_finalized_block_number r) @
     word32 (br_expires_at r) @ word32 (br_signer_epoch r)"

definition report_digest :: "(u8 list \<Rightarrow> u8 list) \<Rightarrow> u64 \<Rightarrow> u8 list \<Rightarrow> BlockHashReport \<Rightarrow> u8 list" where
  "report_digest keccak chain_id orc r = keccak (report_preimage keccak chain_id orc r)"

section \<open>Public addresses\<close>

datatype IpAddr = V4 u8 u8 u8 u8 | V6 u16 u16 u16 u16 u16 u16 u16 u16

definition is_global_v4 :: "u8 \<Rightarrow> u8 \<Rightarrow> u8 \<Rightarrow> u8 \<Rightarrow> bool" where
  "is_global_v4 a b c d =
     (\<not> ((a = 10 \<or> a = 172 \<and> 16 \<le> b \<and> b \<le> 31 \<or> a = 192 \<and> b = 168)
        \<or> a = 127
        \<or> a = 169 \<and> b = 254
        \<or> (a = 255 \<and> b = 255 \<and> c = 255 \<and> d = 255)
        \<or> (a = 192 \<and> b = 0 \<and> c = 2 \<or> a = 198 \<and> b = 51 \<and> c = 100 \<or> a = 203 \<and> b = 0 \<and> c = 113)
        \<or> (a = 0 \<and> b = 0 \<and> c = 0 \<and> d = 0)
        \<or> 224 \<le> a \<and> a \<le> 239
        \<or> a = 0
        \<or> (a = 100 \<and> b AND 0xc0 = 64)
        \<or> a \<ge> 240))"

definition to_ipv4 :: "IpAddr \<Rightarrow> IpAddr option" where
  "to_ipv4 ip = (case ip of
     V6 s0 s1 s2 s3 s4 s5 ab cd \<Rightarrow>
       if s0 = 0 \<and> s1 = 0 \<and> s2 = 0 \<and> s3 = 0 \<and> s4 = 0 \<and> (s5 = 0 \<or> s5 = 0xffff)
       then Some (V4 (ucast (drop_bit 8 ab)) (ucast ab) (ucast (drop_bit 8 cd)) (ucast cd)) else None
   | V4 _ _ _ _ \<Rightarrow> None)"

definition is_global :: "IpAddr \<Rightarrow> bool" where
  "is_global ip = (case ip of
     V4 a b c d \<Rightarrow> is_global_v4 a b c d
   | V6 s0 s1 s2 s3 s4 s5 s6 s7 \<Rightarrow>
       (case to_ipv4 ip of
          Some (V4 a b c d) \<Rightarrow> is_global_v4 a b c d
        | _ \<Rightarrow> \<not> ((s0 = 0 \<and> s1 = 0 \<and> s2 = 0 \<and> s3 = 0 \<and> s4 = 0 \<and> s5 = 0 \<and> s6 = 0 \<and> s7 = 1)
                 \<or> (s0 = 0 \<and> s1 = 0 \<and> s2 = 0 \<and> s3 = 0 \<and> s4 = 0 \<and> s5 = 0 \<and> s6 = 0 \<and> s7 = 0)
                 \<or> s0 AND 0xff00 = 0xff00
                 \<or> s0 AND 0xfe00 = 0xfc00
                 \<or> s0 AND 0xffc0 = 0xfe80)))"

text \<open>A parsed URL: scheme, host and the port or the scheme's own.\<close>

record net_env =
  ne_url :: "string \<Rightarrow> (string \<times> string option \<times> nat option) option"
  ne_lookup :: "string \<Rightarrow> nat \<Rightarrow> IpAddr list option"
  ne_post :: "string \<Rightarrow> json \<Rightarrow> json option"
  ne_hash :: "string \<Rightarrow> u8 list option"
  ne_order :: "u8 list list \<Rightarrow> u8 list list"

definition assert_public_url :: "net_env \<Rightarrow> string \<Rightarrow> bool" where
  "assert_public_url net raw =
     (case ne_url net raw of
        None \<Rightarrow> False
      | Some (scheme, host, port) \<Rightarrow>
          (scheme = ''http'' \<or> scheme = ''https'') \<and>
          (case host of
             None \<Rightarrow> False
           | Some h \<Rightarrow>
               (case ne_lookup net h (case port of Some p \<Rightarrow> p | None \<Rightarrow> 443) of
                  None \<Rightarrow> False
                | Some addrs \<Rightarrow> addrs \<noteq> [] \<and> list_all is_global addrs)))"

section \<open>The committee\<close>

record Confirmed =
  cf_block_hash :: "u8 list"
  cf_quorum_tip :: u64
  cf_observed_confirmations :: u64
  cf_observed_quorum :: u64
  cf_finalized_block_number :: u64

definition quorum_tip :: "u64 list \<Rightarrow> nat \<Rightarrow> u64 option exec" where
  "quorum_tip tips quorum =
     (if length tips < quorum then Returns None
      else if quorum = 0 then Panics
      else Returns (Some (rev (sort tips) ! (quorum - 1))))"

text \<open>\<open>max_by_key\<close> keeps the last of the largest; the order is that of the hash map's iteration over
  the distinct votes.\<close>

fun max_by_count :: "('a \<Rightarrow> nat) \<Rightarrow> 'a option \<Rightarrow> 'a list \<Rightarrow> 'a option" where
  "max_by_count cnt best [] = best"
| "max_by_count cnt best (h # hs) =
     max_by_count cnt (case best of Some b \<Rightarrow> if cnt h \<ge> cnt b then Some h else Some b | None \<Rightarrow> Some h) hs"

definition quorum_hash :: "(u8 list list \<Rightarrow> u8 list list) \<Rightarrow> u8 list list \<Rightarrow> nat \<Rightarrow> (u8 list \<times> nat) option" where
  "quorum_hash order votes quorum =
     (case max_by_count (count_list votes) None (order (remdups votes)) of
        None \<Rightarrow> None
      | Some h \<Rightarrow> if count_list votes h \<ge> quorum then Some (h, count_list votes h) else None)"

definition rpc :: "net_env \<Rightarrow> string \<Rightarrow> string \<Rightarrow> json \<Rightarrow> json option" where
  "rpc net url meth params =
     (case ne_post net url (JObj [(''jsonrpc'', JStr ''2.0''), (''id'', JNum 1), (''method'', JStr meth), (''params'', params)]) of
        None \<Rightarrow> None
      | Some v \<Rightarrow>
          (case json_get ''error'' v of
             Some e \<Rightarrow> if e = JNull then Some (case json_get ''result'' v of Some r \<Rightarrow> r | None \<Rightarrow> JNull) else None
           | None \<Rightarrow> Some (case json_get ''result'' v of Some r \<Rightarrow> r | None \<Rightarrow> JNull)))"

text \<open>\<open>from_str_radix(16)\<close>: one optional \<open>+\<close>, at least one digit, no overflow; and \<open>{:x}\<close>.\<close>

fun hex_digits :: "int \<Rightarrow> string \<Rightarrow> int option" where
  "hex_digits acc [] = Some acc"
| "hex_digits acc (c # cs) =
     (case hex_value c of
        None \<Rightarrow> None
      | Some d \<Rightarrow> let a = acc * 16 + int d in if a \<ge> 2 ^ 64 then None else hex_digits a cs)"

definition parse_u64_hex :: "json \<Rightarrow> u64 option" where
  "parse_u64_hex v =
     (case as_str v of
        None \<Rightarrow> None
      | Some s \<Rightarrow>
          if \<not> starts_with s ''0x'' then None
          else let t = (case drop 2 s of CHR ''+'' # r \<Rightarrow> r | r \<Rightarrow> r)
               in if t = [] then None else map_option word_of_int (hex_digits 0 t))"

fun show_hex :: "nat \<Rightarrow> string" where
  "show_hex n = (if n < 16 then [hex_digit n] else show_hex (n div 16) @ [hex_digit (n mod 16)])"

definition block_number_of :: "json option \<Rightarrow> u64 option" where
  "block_number_of b = Option.bind (Option.bind b (json_get ''number'')) parse_u64_hex"

definition poll_member :: "net_env \<Rightarrow> u64 \<Rightarrow> bool \<Rightarrow> string \<Rightarrow> u64 option \<times> u64 option \<times> u8 list option" where
  "poll_member net block_number want_finalized url =
     (let meth = ''eth_getBlockByNumber'';
          tip = block_number_of (rpc net url meth (JArr [JStr ''latest'', JBool False]));
          fin = (if want_finalized then block_number_of (rpc net url meth (JArr [JStr ''finalized'', JBool False])) else None);
          tag = ''0x'' @ show_hex (unat block_number);
          hash = Option.bind (Option.bind (Option.bind (rpc net url meth (JArr [JStr tag, JBool False])) (json_get ''hash'')) as_str) (ne_hash net)
      in (tip, fin, hash))"

datatype oracle_error = NoTips | NotConfirmed | NoFinalized | NotFinal | NoHashQuorum
  | ReadFailed | WrongRegistry | TooFewRpcs | SignFailed

type_synonym vote = "u64 option \<times> u64 option \<times> u8 list option"

definition confirm_hash :: "net_env \<Rightarrow> vote list \<Rightarrow> nat \<Rightarrow> u64 \<Rightarrow> u64 \<Rightarrow> u64 \<Rightarrow> oracle_error + Confirmed" where
  "confirm_hash net votes quorum block_number tip fin =
     (case quorum_hash (ne_order net) (List.map_filter (\<lambda>v. snd (snd v)) votes) quorum of
        None \<Rightarrow> Inl NoHashQuorum
      | Some (h, n) \<Rightarrow>
          Inr \<lparr>cf_block_hash = h, cf_quorum_tip = tip, cf_observed_confirmations = tip - block_number,
               cf_observed_quorum = of_nat n, cf_finalized_block_number = fin\<rparr>)"

definition confirm_final :: "net_env \<Rightarrow> vote list \<Rightarrow> nat \<Rightarrow> u64 \<Rightarrow> bool \<Rightarrow> u64 \<Rightarrow> (oracle_error + Confirmed) exec" where
  "confirm_final net votes quorum block_number mandate_finalized tip =
     (if mandate_finalized then
        exec_bind (quorum_tip (List.map_filter (\<lambda>v. fst (snd v)) votes) quorum) (\<lambda>f.
          case f of
            None \<Rightarrow> Returns (Inl NoFinalized)
          | Some fin \<Rightarrow>
              if fin < block_number then Returns (Inl NotFinal)
              else Returns (confirm_hash net votes quorum block_number tip fin))
      else Returns (confirm_hash net votes quorum block_number tip 0))"

definition fetch_confirmed :: "net_env \<Rightarrow> string list \<Rightarrow> nat \<Rightarrow> u64 \<Rightarrow> u64 \<Rightarrow> bool \<Rightarrow> (oracle_error + Confirmed) exec" where
  "fetch_confirmed net urls quorum block_number min_confirmations mandate_finalized =
     (let votes = map (poll_member net block_number mandate_finalized) urls
      in exec_bind (quorum_tip (List.map_filter fst votes) quorum) (\<lambda>t.
         case t of
           None \<Rightarrow> Returns (Inl NoTips)
         | Some tip \<Rightarrow>
             if block_number + min_confirmations > tip then Returns (Inl NotConfirmed)
             else confirm_final net votes quorum block_number mandate_finalized tip))"

section \<open>Rate limiting\<close>

text \<open>Instants are nanoseconds; \<open>duration_since\<close> saturates.\<close>

definition secs_f64 :: "nat \<Rightarrow> f64" where
  "secs_f64 n = fadd (f64_of_int (int n div 1000000000)) (fdiv (f64_of_int (int n mod 1000000000)) (f64_of_int 1000000000))"

record TokenBucket =
  tb_tokens :: f64
  tb_rate :: f64
  tb_last :: nat

definition TokenBucket_new :: "f64 \<Rightarrow> nat \<Rightarrow> TokenBucket" where
  "TokenBucket_new rate now = \<lparr>tb_tokens = rate, tb_rate = rate, tb_last = now\<rparr>"

definition refill :: "nat \<Rightarrow> TokenBucket \<Rightarrow> TokenBucket" where
  "refill now b =
     b\<lparr>tb_last := now, tb_tokens := fmin (fadd (tb_tokens b) (fmul (secs_f64 (now - tb_last b)) (tb_rate b))) (tb_rate b)\<rparr>"

definition bucket_allow :: "nat \<Rightarrow> TokenBucket \<Rightarrow> bool \<times> TokenBucket" where
  "bucket_allow now b =
     (let b1 = refill now b
      in if fle (Fin 1) (tb_tokens b1) then (True, b1\<lparr>tb_tokens := fsub (tb_tokens b1) (Fin 1)\<rparr>) else (False, b1))"

definition is_full :: "nat \<Rightarrow> TokenBucket \<Rightarrow> bool \<times> TokenBucket" where
  "is_full now b = (let b1 = refill now b in (fle (tb_rate b1) (tb_tokens b1), b1))"

record 'k CircuitLimiter =
  cl_rate :: f64
  cl_circuits :: "'k \<Rightarrow> TokenBucket option"
  cl_global :: TokenBucket
  cl_calls :: u64

definition SWEEP_EVERY :: u64 where "SWEEP_EVERY = 256"

definition CircuitLimiter_new :: "f64 \<Rightarrow> f64 \<Rightarrow> nat \<Rightarrow> 'k CircuitLimiter" where
  "CircuitLimiter_new per_circuit global_rate now =
     \<lparr>cl_rate = per_circuit, cl_circuits = (\<lambda>_. None), cl_global = TokenBucket_new global_rate now, cl_calls = 0\<rparr>"

definition sweep :: "nat \<Rightarrow> ('k \<Rightarrow> TokenBucket option) \<Rightarrow> 'k \<Rightarrow> TokenBucket option" where
  "sweep now m k = (case m k of None \<Rightarrow> None | Some b \<Rightarrow> (case is_full now b of (full, b1) \<Rightarrow> if full then None else Some b1))"

definition swept :: "nat \<Rightarrow> 'k CircuitLimiter \<Rightarrow> 'k \<Rightarrow> TokenBucket option" where
  "swept now l = (if cl_calls l mod SWEEP_EVERY = 0 then sweep now (cl_circuits l) else cl_circuits l)"

definition circuit_bucket :: "'k \<Rightarrow> nat \<Rightarrow> 'k CircuitLimiter \<Rightarrow> TokenBucket" where
  "circuit_bucket key now l = (case swept now l key of Some b \<Rightarrow> b | None \<Rightarrow> TokenBucket_new (cl_rate l) now)"

definition limiter_allow :: "'k \<Rightarrow> nat \<Rightarrow> 'k CircuitLimiter \<Rightarrow> bool \<times> 'k CircuitLimiter" where
  "limiter_allow key now l =
     (case bucket_allow now (circuit_bucket key now l) of (ok, b1) \<Rightarrow>
        let l2 = l\<lparr>cl_calls := cl_calls l + 1, cl_circuits := (swept now l)(key \<mapsto> b1)\<rparr>
        in if \<not> ok then (False, l2)
           else case bucket_allow now (cl_global l) of (ok2, g1) \<Rightarrow> (ok2, l2\<lparr>cl_global := g1\<rparr>))"

section \<open>The server\<close>

record 'k OracleState =
  st_settings :: Settings
  st_signer_epoch :: u64
  st_limiter :: "'k CircuitLimiter"
  st_cache :: "u8 list \<Rightarrow> OracleInfo option"

definition OracleState_new :: "Settings \<Rightarrow> u64 \<Rightarrow> nat \<Rightarrow> 'k OracleState" where
  "OracleState_new settings epoch now =
     \<lparr>st_settings = settings, st_signer_epoch = epoch,
      st_limiter = CircuitLimiter_new (f64_of_word (max (os_rate_limit_per_sec settings) 1))
        (f64_of_word (max (max (os_global_rate_limit_per_sec settings) (os_rate_limit_per_sec settings)) 1)) now,
      st_cache = (\<lambda>_. None)\<rparr>"

text \<open>The reads of one oracle contract, in order; a failed one ends the request. What the node answers at the
  time of a request is a function of the contract's address.\<close>

record oracle_reads =
  or_registry :: "u8 list option"
  or_source_chain_id :: "u256 option"
  or_min_confirmations :: "u256 option"
  or_mandate_finalized :: "bool option"
  or_urls :: "string list option"
  or_quorum :: "u256 option"

type_synonym chain_reads = "u8 list \<Rightarrow> oracle_reads"

definition u64_or_zero :: "u256 \<Rightarrow> u64" where
  "u64_or_zero x = (if uint x < 2 ^ 64 then ucast x else 0)"

definition usize_or_max :: "u256 \<Rightarrow> nat" where
  "usize_or_max x = (if uint x < 2 ^ 64 then unat x else 2 ^ 64 - 1)"

definition read_oracle :: "net_env \<Rightarrow> Settings \<Rightarrow> oracle_reads \<Rightarrow> oracle_error + OracleInfo" where
  "read_oracle net settings rd =
     (case or_registry rd of
        None \<Rightarrow> Inl ReadFailed
      | Some registry \<Rightarrow>
          if registry \<noteq> os_registry settings then Inl WrongRegistry
          else case (or_source_chain_id rd, or_min_confirmations rd, or_mandate_finalized rd, or_urls rd, or_quorum rd) of
                 (Some cid, Some mc, Some mf, Some urls, Some q) \<Rightarrow>
                   let safe = filter (assert_public_url net) (take (os_max_source_rpcs settings) urls)
                   in if length safe < usize_or_max q then Inl TooFewRpcs
                      else Inr \<lparr>oi_source_chain_id = u64_or_zero cid, oi_min_confirmations = u64_or_zero mc,
                                oi_mandate_finalized = mf, oi_rpc_urls = safe, oi_quorum = usize_or_max q\<rparr>
               | _ \<Rightarrow> Inl ReadFailed)"

definition oracle_info :: "net_env \<Rightarrow> chain_reads \<Rightarrow> u8 list \<Rightarrow> 'k OracleState \<Rightarrow> (oracle_error + OracleInfo) \<times> 'k OracleState" where
  "oracle_info net reads orc st =
     (case st_cache st orc of
        Some info \<Rightarrow> (Inr info, st)
      | None \<Rightarrow>
          (case read_oracle net (st_settings st) (reads orc) of
             Inl e \<Rightarrow> (Inl e, st)
           | Inr info \<Rightarrow> (Inr info, st\<lparr>st_cache := (st_cache st)(orc \<mapsto> info)\<rparr>)))"

definition make_report :: "OracleInfo \<Rightarrow> Confirmed \<Rightarrow> u64 \<Rightarrow> u64 \<Rightarrow> u64 \<Rightarrow> u64 \<Rightarrow> BlockHashReport" where
  "make_report info c block_number now ttl epoch =
     \<lparr>br_source_chain_id = oi_source_chain_id info, br_block_number = block_number, br_block_hash = cf_block_hash c,
      br_required_confirmations = oi_min_confirmations info, br_observed_confirmations = cf_observed_confirmations c,
      br_quorum_tip = cf_quorum_tip c, br_observed_quorum = cf_observed_quorum c,
      br_require_finalized = oi_mandate_finalized info, br_finalized_block_number = cf_finalized_block_number c,
      br_expires_at = now + ttl, br_signer_epoch = epoch\<rparr>"

text \<open>\<open>sign\<close> signs a digest with the enclave's key; the result pairs the report with its signature.\<close>

definition sign_confirmed :: "(u8 list \<Rightarrow> u8 list) \<Rightarrow> (u8 list \<Rightarrow> 'sig option) \<Rightarrow> u64 \<Rightarrow> u8 list \<Rightarrow> u64 \<Rightarrow> 'k OracleState \<Rightarrow>
    OracleInfo \<Rightarrow> oracle_error + Confirmed \<Rightarrow> oracle_error + BlockHashReport \<times> 'sig" where
  "sign_confirmed keccak sign now orc block_number st info r =
     (case r of
        Inl e \<Rightarrow> Inl e
      | Inr c \<Rightarrow>
          let report = make_report info c block_number now (os_report_ttl_secs (st_settings st)) (st_signer_epoch st)
          in case sign (report_digest keccak (os_sapphire_chain_id (st_settings st)) orc report) of
               None \<Rightarrow> Inl SignFailed
             | Some sig \<Rightarrow> Inr (report, sig))"

definition sign_for :: "(u8 list \<Rightarrow> u8 list) \<Rightarrow> (u8 list \<Rightarrow> 'sig option) \<Rightarrow> net_env \<Rightarrow> chain_reads \<Rightarrow> u64 \<Rightarrow> u8 list \<Rightarrow> u64 \<Rightarrow>
    'k OracleState \<Rightarrow> (oracle_error + BlockHashReport \<times> 'sig) exec \<times> 'k OracleState" where
  "sign_for keccak sign net reads now orc block_number st =
     (case oracle_info net reads orc st of
        (Inl e, st1) \<Rightarrow> (Returns (Inl e), st1)
      | (Inr info, st1) \<Rightarrow>
          (exec_bind (fetch_confirmed net (oi_rpc_urls info) (oi_quorum info) block_number (oi_min_confirmations info) (oi_mandate_finalized info))
             (\<lambda>r. Returns (sign_confirmed keccak sign now orc block_number st info r)), st1))"

datatype 'sig oracle_reply = RateLimited | BadQuery | BadGateway oracle_error | Report BlockHashReport 'sig | Dropped

definition get_blockhash :: "(u8 list \<Rightarrow> u8 list) \<Rightarrow> (u8 list \<Rightarrow> 'sig option) \<Rightarrow> net_env \<Rightarrow> chain_reads \<Rightarrow> nat \<Rightarrow> u64 \<Rightarrow> 'k \<Rightarrow>
    (u8 list \<times> u64) option \<Rightarrow> 'k OracleState \<Rightarrow> 'sig oracle_reply \<times> 'k OracleState" where
  "get_blockhash keccak sign net reads instant now circuit q st =
     (case limiter_allow circuit instant (st_limiter st) of (ok, l) \<Rightarrow>
        let st1 = st\<lparr>st_limiter := l\<rparr>
        in if \<not> ok then (RateLimited, st1)
           else case q of
                  None \<Rightarrow> (BadQuery, st1)
                | Some (orc, block_number) \<Rightarrow>
                    (case sign_for keccak sign net reads now orc block_number st1 of
                       (Panics, st2) \<Rightarrow> (Dropped, st2)
                     | (Returns (Inl e), st2) \<Rightarrow> (BadGateway e, st2)
                     | (Returns (Inr (r, sig)), st2) \<Rightarrow> (Report r sig, st2)))"

section \<open>Registration at boot\<close>

record registry_abi =
  ra_commitment :: "u64 \<Rightarrow> u8 list \<Rightarrow> u8 list \<Rightarrow> u8 list \<Rightarrow> u64 \<Rightarrow> u8 list"
  ra_register :: "u8 list \<Rightarrow> u8 list \<Rightarrow> u8 list"
  ra_rotate :: "u8 list \<Rightarrow> u8 list \<Rightarrow> u8 list"
  ra_setEndpoint :: "string \<Rightarrow> u8 list"

record registry_reads =
  rr_signer :: "u8 list option"
  rr_epoch :: "u64 option"
  rr_endpoint :: "string option"

datatype boot_error = RegistryRead | AppIdFailed | RegisterFailed appd_error | NotOurSigner | EndpointFailed appd_error

definition register_signer :: "appd_env \<Rightarrow> registry_abi \<Rightarrow> Settings \<Rightarrow> u8 list \<Rightarrow> u64 \<Rightarrow> bool \<Rightarrow> boot_error + u64" where
  "register_signer d abi settings signer epoch rotating =
     (case app_id_bytes d of
        Inl _ \<Rightarrow> Inl AppIdFailed
      | Inr app \<Rightarrow>
          let com = ra_commitment abi (os_sapphire_chain_id settings) (os_registry settings) app signer epoch;
              data = (if rotating then ra_rotate abi signer com else ra_register abi signer com)
          in case sign_submit_eth d (os_registry settings) data 300000 of
               Inl e \<Rightarrow> Inl (RegisterFailed e)
             | Inr _ \<Rightarrow> Inr epoch)"

definition effective_epoch :: "appd_env \<Rightarrow> registry_abi \<Rightarrow> Settings \<Rightarrow> u8 list \<Rightarrow> u8 list \<Rightarrow> u64 \<Rightarrow> boot_error + u64" where
  "effective_epoch d abi settings signer onchain_signer onchain_epoch =
     (if onchain_signer = replicate 20 0 then register_signer d abi settings signer (onchain_epoch + 1) False
      else if onchain_signer = signer then Inr onchain_epoch
      else if os_allow_signer_rotation settings then register_signer d abi settings signer (onchain_epoch + 1) True
      else Inl NotOurSigner)"

definition oracle_boot :: "appd_env \<Rightarrow> registry_abi \<Rightarrow> Settings \<Rightarrow> u8 list \<Rightarrow> string option \<Rightarrow> registry_reads \<Rightarrow> nat \<Rightarrow> boot_error + 'k OracleState" where
  "oracle_boot d abi settings signer onion rd now =
     (case (rr_signer rd, rr_epoch rd) of
        (Some osig, Some oepoch) \<Rightarrow>
          (case effective_epoch d abi settings signer osig oepoch of
             Inl e \<Rightarrow> Inl e
           | Inr epoch \<Rightarrow>
               (case onion of
                  None \<Rightarrow> Inr (OracleState_new settings epoch now)
                | Some host \<Rightarrow>
                    (case rr_endpoint rd of
                       None \<Rightarrow> Inl RegistryRead
                     | Some cur \<Rightarrow>
                         if cur = host then Inr (OracleState_new settings epoch now)
                         else case sign_submit_eth d (os_registry settings) (ra_setEndpoint abi host) 200000 of
                                Inl e \<Rightarrow> Inl (EndpointFailed e)
                              | Inr _ \<Rightarrow> Inr (OracleState_new settings epoch now))))
      | _ \<Rightarrow> Inl RegistryRead)"

section \<open>Quorums\<close>



lemma max_by_count_max:
  "max_by_count cnt best hs = Some h \<Longrightarrow> (\<forall>b. best = Some b \<longrightarrow> cnt b \<le> cnt h) \<and> (\<forall>x\<in>set hs. cnt x \<le> cnt h)"
proof (induction hs arbitrary: best)
  case (Cons a hs)
  show ?case
  proof (cases best)
    case None
    then show ?thesis using Cons by auto
  next
    case (Some b)
    then show ?thesis using Cons.prems Cons.IH [of "if cnt a \<ge> cnt b then Some a else Some b"]
      by (cases "cnt b \<le> cnt a") auto
  qed
qed simp

lemma max_by_count_Some: "best \<noteq> None \<or> hs \<noteq> [] \<Longrightarrow> max_by_count cnt best hs \<noteq> None"
  by (induction hs arbitrary: best) (auto split: option.splits)

text \<open>No hash with a quorum is missed.\<close>

lemma quorum_hash_complete:
  assumes "set (order (remdups votes)) = set votes" "count_list votes x \<ge> q" "x \<in> set votes"
  shows "quorum_hash order votes q \<noteq> None"
proof -
  have "order (remdups votes) \<noteq> []" using assms(1,3) by auto
  then obtain h where h: "max_by_count (count_list votes) None (order (remdups votes)) = Some h"
    using max_by_count_Some by blast
  then have "count_list votes x \<le> count_list votes h" using max_by_count_max [OF h] assms(1,3) by auto
  then show ?thesis using assms(2) h by (simp add: quorum_hash_def)
qed









section \<open>The server's cache\<close>












section \<open>Binding and fairness\<close>

text \<open>The digest's preimage determines every field and the oracle it is for.\<close>

lemma word32_length [simp]: "length (word32 v) = 32"
  by (simp add: word32_def)

lemma word32_inj: "word32 v = word32 w \<longleftrightarrow> v = w"
proof
  assume "word32 v = word32 w"
  then have e: "(ucast (drop_bit (8 * i) v) :: u8) = ucast (drop_bit (8 * i) w)" if "i < 8" for i
    using that by (auto simp: word32_def)
  show "v = w"
  proof (rule bit_eqI)
    fix n
    assume "possible_bit TYPE(u64) n"
    then have n: "n < 64" by (simp add: possible_bit_word)
    have "bit (ucast (drop_bit (8 * (n div 8)) v) :: u8) (n mod 8) = bit (ucast (drop_bit (8 * (n div 8)) w) :: u8) (n mod 8)"
      using e [of "n div 8"] n by simp
    then show "bit v n = bit w n" using n by (simp add: bit_ucast_iff bit_drop_bit_eq)
  qed
qed simp

lemma report_preimage_inj:
  assumes "report_preimage keccak cid orc r = report_preimage keccak cid' orc' r'"
    and "length (br_block_hash r) = 32" "length (br_block_hash r') = 32" "length orc = 20" "length orc' = 20"
  shows "cid = cid' \<and> orc = orc' \<and> r = r'"
  using assms by (auto simp: report_preimage_def word32_inj split: if_splits)

text \<open>A throttled circuit leaves the shared bucket alone, and a swept bucket is a fresh one.\<close>

lemma throttled_spares_global:
  assumes "\<not> fst (bucket_allow now (circuit_bucket key now l))"
  shows "\<not> fst (limiter_allow key now l) \<and> cl_global (snd (limiter_allow key now l)) = cl_global l"
  using assms by (cases "bucket_allow now (circuit_bucket key now l)") (simp add: limiter_allow_def)

lemma refill_le_rate: "tb_rate b \<noteq> NaN \<Longrightarrow> fle (tb_tokens (refill now b)) (tb_rate b)"
  by (simp add: refill_def fmin_le2)

lemma sweep_lossless:
  assumes "tb_rate b \<noteq> NaN" "fst (is_full now b)"
  shows "snd (is_full now b) = TokenBucket_new (tb_rate b) now"
proof -
  have r: "tb_rate (refill now b) = tb_rate b" "tb_last (refill now b) = now" by (simp_all add: refill_def)
  have "tb_tokens (refill now b) = tb_rate b"
    using assms refill_le_rate [OF assms(1), of now] r by (auto simp: is_full_def Let_def intro: fle_antisym)
  then show ?thesis using r by (simp add: is_full_def Let_def TokenBucket_new_def)
qed


section \<open>Properties\<close>


definition demo_net :: net_env where
  "demo_net =
     \<lparr>ne_url = \<lambda>_. Some (''https'', Some ''h'', None), ne_lookup = \<lambda>_ _. Some [V4 1 1 1 1],
      ne_post = \<lambda>_ _. Some (JObj [(''result'', JObj [(''number'', JStr ''0x5''), (''hash'', JStr ''h'')])]),
      ne_hash = \<lambda>_. Some [7], ne_order = \<lambda>hs. hs\<rparr>"

definition demo_reads :: "u256 \<Rightarrow> u256 \<Rightarrow> oracle_reads" where
  "demo_reads mc q =
     \<lparr>or_registry = Some [], or_source_chain_id = Some 1, or_min_confirmations = Some mc, or_mandate_finalized = Some False,
      or_urls = Some [''u''], or_quorum = Some q\<rparr>"

definition demo_settings :: Settings where
  "demo_settings =
     \<lparr>os_sapphire_chain_id = 1, os_registry = [], os_max_source_rpcs = 8, os_rate_limit_per_sec = 1,
      os_global_rate_limit_per_sec = 1, os_report_ttl_secs = 60, os_allow_signer_rotation = False\<rparr>"

definition demo_report :: "u64 \<Rightarrow> BlockHashReport" where
  "demo_report mc =
     \<lparr>br_source_chain_id = 1, br_block_number = 4, br_block_hash = [7], br_required_confirmations = mc,
      br_observed_confirmations = 1, br_quorum_tip = 5, br_observed_quorum = 1, br_require_finalized = False,
      br_finalized_block_number = 0, br_expires_at = 160, br_signer_epoch = 3\<rparr>"



section \<open>Boundaries\<close>

text \<open>Where block number plus confirmations overflows, the comparison passes: a report that requires
  \<open>2 ^ 64 - 1\<close> confirmations is signed with one. A contract with quorum 0 makes the request panic.\<close>

lemma confirmations_overflow:
  "fst (get_blockhash (\<lambda>_. []) (\<lambda>_. Some ()) demo_net (\<lambda>_. demo_reads 18446744073709551615 1) 0 100 (0 :: nat) (Some ([9], 4))
     (OracleState_new demo_settings 3 0)) = Report (demo_report 18446744073709551615) ()"
  by code_simp

lemma quorum_zero_panics: "fetch_confirmed net urls 0 bn mc mf = Panics"
  by (simp add: fetch_confirmed_def quorum_tip_def)

end
