(* ===== verification/Spec2Isabelle.thy ===== *)
theory Spec2Isabelle
  imports Rates Chain_Watch Minting Pps_Rate Governance Rent Upstream Oracle
begin

text \<open>
  A verification development for the mining pool of this repository.

  \<^bold>\<open>The program.\<close> Miners connect to the stratum proxy (\<open>crates/stratum-proxy\<close>), which hands them jobs it gets from an
  upstream Monero pool, judges the shares they submit and forwards those that are good enough for the upstream. Every accepted
  share is credited at the current pay-per-share rate (\<open>crates/accountant\<close>, \<open>crates/pps-rate\<close>, \<open>crates/pool-core\<close>) into
  Redis. A miner asks for a signed voucher over their cumulative credit (\<open>crates/voucher-signer\<close>) and claims it on the token
  contract (\<open>contracts/src/MiningPoolToken.sol\<close>). Burning tokens there records a redemption; the watcher
  (\<open>crates/redemption-watcher\<close>) copies it into a Redis stream, pays Monero for it and marks it processed. The
  pool's own fee is minted and sold for rent by the same crate (\<open>fee_swap.rs\<close> and \<open>FeeSwapper.sol\<close>), and the agent of
  \<open>crates/mining-pool\<close> pays the rent through \<open>RentPayer.sol\<close>. The pool runs as one instance
  (\<open>single_active.rs\<close>), its contracts are owned by timelocks (\<open>PoolGovernance.sol\<close>, \<open>RoflAdminGovernance.sol\<close>), and
  \<open>crates/crossroads-oracle\<close> signs block hashes of other chains.

  \<^bold>\<open>Foundations.\<close>
  \<^item> \<open>Prelude\<close>: machine integers as words (a release build: arithmetic wraps), saturating operations, bounded queues, panics as
    values (\<open>exec\<close>), and the contracts \<open>invariant\<close> and \<open>at_most_once\<close>, locales over a step relation that every
    run of a component instantiates.
  \<^item> \<open>Float64\<close>: \<open>f64\<close> as exact rationals rounded to binary64 after every operation; the locale \<open>float_format\<close> is what proofs use
    of the rounding. \<open>Hex\<close>, \<open>Decimal\<close>, \<open>Json\<close>: byte strings, the text of integers and the JSON values of the sources; the locale
    \<open>hex_codec\<close> is the contract of the \<open>hex\<close> crate.

  \<^bold>\<open>Mining.\<close>
  \<^item> \<open>Stratum\<close> (\<open>pool-core/src/stratum.rs\<close>, the nonce helpers of \<open>session.rs\<close>): the target of a difficulty and its inverse (C4),
    nonce injection with its errors in the order of the checks (C5), the worker byte (C6).
  \<^item> \<open>Verifier\<close> (\<open>randomx-verify/src/lib.rs\<close>): the 64-bit difficulty test against the 256-bit target (C7); the RandomX verifier
    answers as a fresh one would and rebuilds its machine exactly when the seed is not the last one built (C8). The locale \<open>verifier\<close> is what shares rely on.
  \<^item> \<open>Jobs\<close> (\<open>jobs.rs\<close>): the job ring and the nonce registry; a share is accepted at most once (C9), and what each
    submission returns (C10). \<open>Vardiff\<close> (\<open>vardiff.rs\<close>): the difficulty controller stays in its range (C11) and an idle miner is never raised (C12).
  \<^item> \<open>Share\<close> (\<open>share.rs\<close>, \<open>sample.rs\<close>): both verification paths (C13) and the sampling policy (C14).
  \<^item> \<open>Session\<close> (\<open>protocol.rs\<close>, \<open>session.rs\<close>): one connection as \<open>session_step\<close> over its events. What a credit proves (C15); a share is
    judged and credited at the difficulty its connection was first told for the job (C16); no share is credited twice by any
    interleaving of connections (C17); the gauge counts the connections that are logged in (C18).
  \<^item> \<open>Upstream\<close> (\<open>upstream.rs\<close>): endpoint, pin, back-off and one session over its events; what a session sends, publishes and counts (C40).

  \<^bold>\<open>Money.\<close>
  \<^item> \<open>Rates\<close> (\<open>types.rs\<close>, \<open>pps.rs\<close>, \<open>cache.rs\<close>): the rate leaves the fee and half of the risk buffer (C2), the adaptive fee (C3).
    \<open>Pps_Rate\<close> (\<open>pps-rate/src/lib.rs\<close>): the rate is published from a quorum of nodes (C32). \<open>Metrics\<close> (\<open>metrics.rs\<close>): the counters and the
    window implement the history of all shares (C27).
  \<^item> \<open>Store\<close> (\<open>store.rs\<close>): Redis as a record, each operation a function with the outcome of its round trip; restoring is a maximum (C19).
  \<^item> \<open>Voucher\<close> (\<open>accountant\<close>, \<open>voucher.rs\<close>, \<open>voucher-signer\<close>): when a voucher is signed and for how much (C28), and that a voucher
    restores a lost balance (C29). \<open>Fee_Swap\<close> (\<open>fee_swap.rs\<close>): what one tick mints and sells (C30). \<open>Token\<close> (\<open>MiningPoolToken.sol\<close> on the
    ledger contract \<open>erc20_ledger\<close>, interpreted on the \<open>_mint\<close> and \<open>_burn\<close> of the submodule): supply and redemptions are within what was claimed (C25).
    \<open>Minting\<close> puts them together: what is minted was worked for (C31).
  \<^item> \<open>Redemption\<close> (\<open>redemption.rs\<close>): the stamp (C1). \<open>Payouts\<close> (\<open>payouts.rs\<close>): the consumer. \<open>Payout_Runs\<close>: over every run, payouts are
    bounded (C20), no redemption is paid twice (C21), obligations are never undercounted (C22), a pending redemption advances to
    its delivery with every pass over the stream (C23), and waiting ends (C24). \<open>Events\<close> (\<open>events.rs\<close>, \<open>treasury.rs\<close>, \<open>marker.rs\<close>) and \<open>Chain_Watch\<close>: the
    watcher against the token, payouts mirror burns (C26).

  \<^bold>\<open>Running the pool.\<close>
  \<^item> \<open>Appd\<close> (\<open>appd.rs\<close>): requests, replies and the choice of a rent term. \<open>Single_Active\<close> (\<open>single_active.rs\<close>): the two bech32 decoders (C33), the guard (C34).
    \<open>Self_Fund\<close> (\<open>self_fund.rs\<close>, \<open>rofl_kms.rs\<close>): top-ups are within means (C35) and spaced (C36).
  \<^item> \<open>Governance\<close>: no call before its delay, with re-entrancy (C37). \<open>Rent\<close> (\<open>RentPayer.sol\<close>, \<open>FeeSwapper.sol\<close>, \<open>PoolEndpointRegistry.sol\<close>,
    \<open>endpoint_registry.rs\<close>): the order that is paid is the one the agent planned (C38). \<open>Oracle\<close> (\<open>crossroads-oracle/src\<close>): a signed report is backed
    by the committee of the requested oracle (C39).

  \<^bold>\<open>How code becomes definitions.\<close> A struct is a record and an enum a datatype; an operation is a function that returns its result with
  the new state; an error is a value of a sum or option type, a panic \<open>Panics\<close>. Services with a life of their own have a step relation
  (\<open>jobs_step\<close>, \<open>px_step\<close> for all connections, \<open>token_step\<close>, \<open>mint_step\<close>, \<open>oracle_step\<close>, ...), whose invariants are
  interpretations of \<open>invariant\<close> or \<open>at_most_once\<close>. Environments are arguments: the clocks, random draws, replies of the wallet, of
  nodes and of daemons, and for each Redis round trip whether it took effect and whether its reply arrived. A theorem quantifies over
  all of them. Third-party code (hex, JSON and CBOR text, RandomX, Keccak, ECDSA, TLS, DNS) is a parameter, with its documented laws as
  locale assumptions or hypotheses that a concrete instance satisfies.

  \<^bold>\<open>Bounds.\<close> All functions terminate. Fuel appears in three places. \<open>guard_loop\<close> takes the number of polls: running out
  means that the guard still waits, and the theorem describes the result for every number. String scanners (\<open>pin_chars\<close>,
  \<open>trim_start_str\<close> and the like) take the length of their input, and each round consumes at least one byte. The reader of CBOR takes 6 rounds,
  enough for a map of four pairs.
  Lua numbers are exact up to \<open>2 ^ 53\<close>; where a statement needs that bound it is a hypothesis. Clocks are unbounded integers.

  \<^bold>\<open>Assumptions.\<close> Statements about whole systems name theirs: the chain answers from the token's own state and the wallet
  broadcasts only what it is asked to (C21, C26), signatures are not forged and the signer is not rotated (C31), the Redis state
  is not lost except where a step says so. Sections on boundaries prove with concrete runs where a guarantee ends.

  \<^bold>\<open>Not modelled.\<close> Wiring and I/O: \<open>main.rs\<close> of each binary, sockets and accept loops, TLS set-up, the PROXY header of the oracle, the
  loading of the configuration (its records are modelled where they are read), and the read-only HTTP views of \<open>operator-api\<close>. Cryptographic derivations by
  library code: \<open>monero_wallet.rs\<close>, \<open>tor_hs.rs\<close>, \<open>stratum_tls.rs\<close>, \<open>reveal.rs\<close>. The client of the HashVault API and the
  \<open>finalize\<close> tool, which send requests and transactions in a fixed order. Events and gas of the contracts, and the transfers and allowances of the ledger beyond
  their effect on supply and balances. The test stub \<open>stratum-stub\<close>, tests, examples, deployment scripts and \<open>research\<close>.
\<close>

end
